(* ===== verification/Mz_Prelude.thy ===== *)
theory Mz_Prelude
  imports Main "HOL-Library.Word"
begin

text \<open>
  Shared vocabulary of the development: the fixed-width integer types of the C++ sources, the
  error values that stand for thrown exceptions, aborts and undefined behaviour, and the generic
  facts on lists, counting and integer intervals that the component theories use.
\<close>

named_theorems cursor_simps \<open>equations of the swap cursors and of the chunk regions\<close>
named_theorems coder_simps \<open>equations of the entropy coder and of its bit packer\<close>
named_theorems float_simps \<open>equations of the rounded arithmetic\<close>

type_synonym u8 = "8 word"
type_synonym u16 = "16 word"
type_synonym u32 = "32 word"
type_synonym u64 = "64 word"
type_synonym bytes = "u8 list"

text \<open>
  Failures of the modelled code. A C++ exception keeps its message class, \<open>OutOfBounds\<close> is an
  array access outside the declared extent and \<open>UseAfterFree\<close> a read of memory that was released
  (both undefined behaviour in the source), \<open>Abort\<close> is a failed \<open>GGML_ASSERT\<close> or a worker task
  that threw.
\<close>

datatype error =
    RuntimeError string
  | OutOfBounds
  | UseAfterFree
  | PromiseAlreadySatisfied
  | Abort string

type_synonym 'a result = "error + 'a"

abbreviation Ok :: "'a \<Rightarrow> 'a result" where
  "Ok \<equiv> Inr"

abbreviation Err :: "error \<Rightarrow> 'a result" where
  "Err \<equiv> Inl"

definition bind_result :: "'a result \<Rightarrow> ('a \<Rightarrow> 'b result) \<Rightarrow> 'b result" where
  "bind_result r f = (case r of Inl e \<Rightarrow> Inl e | Inr a \<Rightarrow> f a)"

lemma bind_result_simps [simp]:
  "bind_result (Inl e) f = Inl e"
  "bind_result (Inr a) f = f a"
  by (simp_all add: bind_result_def)

lemma bind_result_Ok_iff:
  "bind_result r f = Inr b \<longleftrightarrow> (\<exists>a. r = Inr a \<and> f a = Inr b)"
  by (cases r) simp_all

text \<open>Integer division of C++, which truncates towards zero.\<close>

definition c_div :: "int \<Rightarrow> int \<Rightarrow> int" where
  "c_div a b = sgn a * sgn b * (\<bar>a\<bar> div \<bar>b\<bar>)"

lemma c_div_mult: "b > 0 \<Longrightarrow> c_div (b * a) b = a"
  by (cases "a = 0") (auto simp: c_div_def abs_mult sgn_mult abs_sgn mult.commute)

end
