(* ===== verification/Mz_Float.thy ===== *)
theory Mz_Float
  imports Mz_Prelude Complex_Main "HOL-Library.Log_Nat"
begin

text \<open>
  Binary floating point as the sources use it: \<open>float\<close> (binary32), \<open>double\<close> (binary64) and
  \<open>__fp16\<close> (binary16), all rounded to nearest, ties to even. A finite value is the rational number
  it denotes; \<open>fl p emin\<close> rounds a rational to \<open>p\<close> significant bits with least exponent
  \<open>emin\<close>, so subnormals are included. Infinities, NaN and signed zeros are the subject of theory
  \<open>Half\<close>.

  The lemmas are the ones every client needs: rounding is monotone, odd, and exact on representable
  values.
\<close>

subsection \<open>Rounding to an integer\<close>

definition round_even :: "rat \<Rightarrow> int" where
  "round_even x =
     (let f = \<lfloor>x\<rfloor>; d = x - of_int f
      in if d < 1 / 2 then f else if 1 / 2 < d then f + 1 else if even f then f else f + 1)"

definition round_away :: "rat \<Rightarrow> int" where
  "round_away x = (if 0 \<le> x then \<lfloor>x + 1 / 2\<rfloor> else \<lceil>x - 1 / 2\<rceil>)"

definition trunc :: "rat \<Rightarrow> int" where
  "trunc x = (if 0 \<le> x then \<lfloor>x\<rfloor> else \<lceil>x\<rceil>)"

lemma round_even_of_int [simp]: "round_even (of_int n) = n"
  by (simp add: round_even_def)

lemma round_even_bounds: "\<lfloor>x\<rfloor> \<le> round_even x" "round_even x \<le> \<lfloor>x\<rfloor> + 1"
  by (simp_all add: round_even_def Let_def)

lemma round_even_mono:
  assumes "x \<le> y" shows "round_even x \<le> round_even y"
proof (cases "\<lfloor>x\<rfloor> = \<lfloor>y\<rfloor>")
  case True
  with assms show ?thesis by (auto simp: round_even_def Let_def)
next
  case False
  from assms have "\<lfloor>x\<rfloor> \<le> \<lfloor>y\<rfloor>" by (rule floor_mono)
  with False have "\<lfloor>x\<rfloor> + 1 \<le> \<lfloor>y\<rfloor>" by simp
  with round_even_bounds [of x] round_even_bounds [of y] show ?thesis by linarith
qed

lemma round_even_minus: "round_even (- x) = - round_even x"
proof (cases "x = of_int \<lfloor>x\<rfloor>")
  case True
  then obtain n where "x = of_int n" by blast
  then show ?thesis by (metis of_int_minus round_even_of_int)
next
  case False
  then have fl: "\<lfloor>- x\<rfloor> = - \<lfloor>x\<rfloor> - 1"
    by (metis ceiling_altdef ceiling_def floor_of_int minus_diff_eq add.inverse_inverse diff_minus_eq_add minus_add_distrib uminus_add_conv_diff)
  show ?thesis
    using False by (auto simp: round_even_def Let_def fl)
qed

lemma round_even_near: "\<bar>of_int (round_even x) - x\<bar> \<le> 1 / 2"
proof -
  have "of_int \<lfloor>x\<rfloor> \<le> x" "x < of_int \<lfloor>x\<rfloor> + 1" by linarith+
  then show ?thesis by (auto simp: round_even_def Let_def)
qed

lemma trunc_of_int [simp]: "trunc (of_int n) = n"
  by (simp add: trunc_def)

lemma trunc_mono:
  assumes "x \<le> y" shows "trunc x \<le> trunc y"
  using assms floor_mono [of x y] ceiling_mono [of x y]
  by (auto simp: trunc_def) (meson ceiling_le_zero dual_order.trans less_imp_le not_le zero_le_floor)

lemma trunc_le: "x \<le> of_int n \<Longrightarrow> trunc x \<le> n"
  using trunc_mono [of x "of_int n"] by simp

lemma le_trunc: "of_int n \<le> x \<Longrightarrow> n \<le> trunc x"
  using trunc_mono [of "of_int n" x] by simp

lemma round_away_of_int [simp]: "round_away (of_int n) = n"
proof -
  have "\<lfloor>of_int n + 1 / 2 :: rat\<rfloor> = n" "\<lceil>of_int n - 1 / 2 :: rat\<rceil> = n"
    by (simp_all add: floor_eq_iff ceiling_eq_iff)
  then show ?thesis by (simp add: round_away_def)
qed

lemma round_away_mono:
  assumes "x \<le> y" shows "round_away x \<le> round_away y"
proof -
  consider "0 \<le> x" | "x < 0" "y < 0" | "x < 0" "0 \<le> y" by linarith
  then show ?thesis
  proof cases
    case 3
    then have "\<lceil>x - 1 / 2\<rceil> \<le> 0" "0 \<le> \<lfloor>y + 1 / 2\<rfloor>" by simp_all
    then have "\<lceil>x - 1 / 2\<rceil> \<le> \<lfloor>y + 1 / 2\<rfloor>" by (rule order_trans)
    with 3 show ?thesis by (simp add: round_away_def)
  qed (use assms in \<open>auto simp: round_away_def intro!: floor_mono ceiling_mono\<close>)
qed

subsection \<open>Binary exponent\<close>

definition ilog2 :: "rat \<Rightarrow> int" where
  "ilog2 x =
     (let (a, b) = quotient_of x; k = bitlen a - bitlen b
      in if 2 powi k \<le> x then k else k - 1)"

lemma bitlen_powi:
  assumes "0 < a"
  shows "2 powi (bitlen a - 1) \<le> (of_int a :: rat)" "(of_int a :: rat) < 2 powi bitlen a"
proof -
  from assms have l: "0 < bitlen a" using bitlen_ge_iff_power [of 1 a] by simp
  from bitlen_bounds [OF assms]
  have b: "2 ^ nat (bitlen a - 1) \<le> a" "a < 2 ^ nat (bitlen a)" by auto
  then have "(of_int (2 ^ nat (bitlen a - 1)) :: rat) \<le> of_int a"
    "(of_int a :: rat) < of_int (2 ^ nat (bitlen a))"
    by (simp_all only: of_int_le_iff of_int_less_iff)
  with l show "2 powi (bitlen a - 1) \<le> (of_int a :: rat)" "(of_int a :: rat) < 2 powi bitlen a"
    by (simp_all add: power_int_def)
qed

lemma ilog2_bounds:
  assumes "0 < x"
  shows "2 powi ilog2 x \<le> x" "x < 2 powi (ilog2 x + 1)"
proof -
  obtain a b where q: "quotient_of x = (a, b)" by fastforce
  then have x: "x = of_int a / of_int b" and b: "0 < b"
    by (auto intro: quotient_of_div quotient_of_denom_pos)
  with assms have a: "0 < a" by (auto simp: zero_less_divide_iff)
  let ?k = "bitlen a - bitlen b"
  have lo: "2 powi (?k - 1) \<le> x"
  proof -
    have "(2::rat) powi (?k - 1) * of_int b \<le> 2 powi (?k - 1) * 2 powi bitlen b"
      using bitlen_powi(2) [OF b] by (intro mult_left_mono) auto
    also have "\<dots> = 2 powi (bitlen a - 1)" by (simp flip: power_int_add)
    also have "\<dots> \<le> of_int a" by (rule bitlen_powi(1) [OF a])
    finally show ?thesis using b by (simp add: x pos_le_divide_eq)
  qed
  have hi: "x < 2 powi (?k + 1)"
  proof -
    have "of_int a < (2::rat) powi bitlen a" by (rule bitlen_powi(2) [OF a])
    also have "\<dots> = 2 powi (?k + 1) * 2 powi (bitlen b - 1)" by (simp flip: power_int_add)
    also have "\<dots> \<le> 2 powi (?k + 1) * of_int b"
      using bitlen_powi(1) [OF b] by (intro mult_left_mono) auto
    finally show ?thesis using b by (simp add: x pos_divide_less_eq)
  qed
  from lo hi show "2 powi ilog2 x \<le> x" "x < 2 powi (ilog2 x + 1)"
    by (auto simp: ilog2_def q Let_def)
qed

lemma powi_less_iff: "(2::rat) powi a < 2 powi b \<longleftrightarrow> a < b"
  by (meson linorder_not_le one_le_numeral one_less_numeral_iff power_int_increasing power_int_strict_increasing semiring_norm(76))

lemma powi_le_iff: "(2::rat) powi a \<le> 2 powi b \<longleftrightarrow> a \<le> b"
  by (meson linorder_not_le powi_less_iff)

lemma ilog2_mono:
  assumes "0 < x" "x \<le> y" shows "ilog2 x \<le> ilog2 y"
proof -
  have "(2::rat) powi ilog2 x < 2 powi (ilog2 y + 1)"
    using ilog2_bounds [OF assms(1)] ilog2_bounds [of y] assms by linarith
  then show ?thesis by (simp add: powi_less_iff)
qed

subsection \<open>Rounding to a format\<close>

definition fexp :: "int \<Rightarrow> rat \<Rightarrow> int" where
  "fexp emin x = max (ilog2 \<bar>x\<bar>) emin"

definition quantum :: "nat \<Rightarrow> int \<Rightarrow> rat \<Rightarrow> rat" where
  "quantum p emin x = 2 powi (fexp emin x - int p + 1)"

definition fl :: "nat \<Rightarrow> int \<Rightarrow> rat \<Rightarrow> rat" where
  "fl p emin x =
     (if x = 0 then 0
      else of_int (round_even (x / quantum p emin x)) * quantum p emin x)"

lemma quantum_pos: "0 < quantum p emin x"
  by (simp add: quantum_def)

lemma fl_0 [simp]: "fl p emin 0 = 0"
  by (simp add: fl_def)

lemma fl_minus [simp]: "fl p emin (- x) = - fl p emin x"
proof -
  have "quantum p emin (- x) = quantum p emin x"
    by (simp add: quantum_def fexp_def)
  then show ?thesis
    by (simp add: fl_def round_even_minus)
qed

lemma fl_nonneg:
  assumes "0 \<le> x" shows "0 \<le> fl p emin x"
proof -
  have "round_even 0 \<le> round_even (x / quantum p emin x)"
    using assms quantum_pos [of p emin x] by (intro round_even_mono) simp
  then have "0 \<le> round_even (x / quantum p emin x)"
    using round_even_of_int [of 0] by simp
  with quantum_pos [of p emin x] show ?thesis by (simp add: fl_def)
qed

text \<open>A value of magnitude below \<open>2 ^ (e + 1)\<close> rounds to at most that power, and one of at least
  \<open>2 ^ e\<close> to at least that one: the two facts that make rounding monotone across binades.\<close>

lemma fl_le_binade:
  assumes "0 < x" shows "fl p emin x \<le> 2 powi (fexp emin x + 1)"
proof -
  let ?q = "quantum p emin x"
  have "x < 2 powi (ilog2 x + 1)" by (rule ilog2_bounds(2) [OF assms])
  also have "\<dots> \<le> 2 powi (fexp emin x + 1)"
    using assms by (simp add: powi_le_iff fexp_def)
  also have "\<dots> = of_int (2 ^ p) * ?q"
    by (simp add: quantum_def flip: power_int_of_nat power_int_add)
  finally have "x / ?q \<le> of_int (2 ^ p)"
    using quantum_pos [of p emin x] by (simp add: pos_divide_le_eq)
  from round_even_mono [OF this] have "round_even (x / ?q) \<le> 2 ^ p"
    by (simp only: round_even_of_int)
  then have "(of_int (round_even (x / ?q)) :: rat) * ?q \<le> of_int (2 ^ p) * ?q"
    using quantum_pos [of p emin x] by (intro mult_right_mono) (simp_all only: of_int_le_iff less_imp_le)
  with assms show ?thesis
    by (simp add: fl_def quantum_def flip: power_int_of_nat power_int_add)
qed

lemma binade_le_fl:
  assumes "0 < x" "emin \<le> ilog2 x" "0 < p" shows "2 powi (fexp emin x) \<le> fl p emin x"
proof -
  let ?q = "quantum p emin x"
  have e: "fexp emin x = ilog2 x" using assms by (simp add: fexp_def)
  have "of_int (2 ^ (p - 1)) * ?q = 2 powi fexp emin x"
    using assms(3) by (simp add: quantum_def of_nat_diff flip: power_int_of_nat power_int_add)
  also have "\<dots> \<le> x" using ilog2_bounds(1) [OF assms(1)] by (simp add: e)
  finally have "of_int (2 ^ (p - 1)) \<le> x / ?q"
    using quantum_pos [of p emin x] by (simp add: pos_le_divide_eq)
  from round_even_mono [OF this] have "2 ^ (p - 1) \<le> round_even (x / ?q)"
    by (simp only: round_even_of_int)
  then have "(of_int (2 ^ (p - 1)) :: rat) * ?q \<le> of_int (round_even (x / ?q)) * ?q"
    using quantum_pos [of p emin x] by (intro mult_right_mono) (simp_all only: of_int_le_iff less_imp_le)
  with assms show ?thesis
    by (simp add: fl_def quantum_def of_nat_diff flip: power_int_of_nat power_int_add)
qed

lemma fl_mono_pos:
  assumes "0 < x" "x \<le> y" "0 < p" shows "fl p emin x \<le> fl p emin y"
proof (cases "fexp emin x = fexp emin y")
  case True
  then have q: "quantum p emin x = quantum p emin y" by (simp add: quantum_def)
  have "round_even (x / quantum p emin y) \<le> round_even (y / quantum p emin y)"
    using assms quantum_pos [of p emin y] by (intro round_even_mono divide_right_mono) auto
  with assms quantum_pos [of p emin y] show ?thesis by (simp add: fl_def q)
next
  case False
  have "ilog2 x \<le> ilog2 y" using assms by (intro ilog2_mono) auto
  with False assms have lt: "fexp emin x < fexp emin y" and ey: "emin \<le> ilog2 y"
    by (auto simp: fexp_def max_def split: if_splits)
  have "fl p emin x \<le> 2 powi (fexp emin x + 1)" using assms by (intro fl_le_binade)
  also have "\<dots> \<le> 2 powi fexp emin y" using lt by (simp add: powi_le_iff)
  also have "\<dots> \<le> fl p emin y" using assms ey by (intro binade_le_fl) auto
  finally show ?thesis .
qed

lemma fl_mono:
  assumes "x \<le> y" "0 < p" shows "fl p emin x \<le> fl p emin y"
proof -
  consider "0 < x" | "x \<le> 0" "0 \<le> y" | "y < 0" by linarith
  then show ?thesis
  proof cases
    case 2
    then have "0 \<le> fl p emin (- x)" "0 \<le> fl p emin y" by (intro fl_nonneg; simp)+
    then show ?thesis by simp
  next
    case 3
    with assms have "fl p emin (- y) \<le> fl p emin (- x)" by (intro fl_mono_pos) auto
    then show ?thesis by simp
  qed (use assms fl_mono_pos in auto)
qed

lemma fl_exact:
  assumes "\<bar>m\<bar> \<le> 2 ^ p" "emin - int p + 1 \<le> s" "0 < p"
  shows "fl p emin (of_int m * 2 powi s) = of_int m * 2 powi s"
proof (cases "m = 0")
  case False
  let ?x = "of_int m * 2 powi s :: rat"
  from False have x0: "?x \<noteq> 0" "0 < \<bar>?x\<bar>" by auto
  have mag: "\<bar>?x\<bar> = of_int \<bar>m\<bar> * 2 powi s" by (simp add: abs_mult)
  show ?thesis
  proof (cases "fexp emin ?x - int p + 1 \<le> s")
    case True
    define d where "d = nat (s - (fexp emin ?x - int p + 1))"
    define q where "q = quantum p emin ?x"
    have "2 powi s = 2 ^ d * q"
      using True by (simp add: quantum_def q_def d_def flip: power_int_of_nat power_int_add)
    moreover have "0 < q" by (simp add: q_def quantum_pos)
    ultimately have d1: "?x / q = of_int (m * 2 ^ d)" and d2: "?x = of_int (m * 2 ^ d) * q"
      by simp_all
    have "fl p emin ?x = of_int (round_even (?x / q)) * q"
      using x0 by (simp add: fl_def q_def)
    also have "\<dots> = ?x" by (simp only: d1 round_even_of_int) (rule d2 [symmetric])
    finally show ?thesis .
  next
    case False
    with assms(2) have gt: "emin < ilog2 \<bar>?x\<bar>" "s < ilog2 \<bar>?x\<bar> - int p + 1"
      by (auto simp: fexp_def max_def split: if_splits)
    have lo: "2 powi ilog2 \<bar>?x\<bar> \<le> \<bar>?x\<bar>" by (rule ilog2_bounds(1)) (rule x0)
    have "\<bar>?x\<bar> \<le> of_int (2 ^ p) * 2 powi s"
      unfolding mag using assms(1) by (intro mult_right_mono) (simp_all only: of_int_le_iff, simp)
    also have "\<dots> = 2 powi (int p + s)"
      by (simp flip: power_int_of_nat power_int_add)
    finally have hi: "\<bar>?x\<bar> \<le> 2 powi (int p + s)" .
    from order_trans [OF lo hi] gt(2) have il: "ilog2 \<bar>?x\<bar> = int p + s"
      by (simp add: powi_le_iff)
    with lo hi have xx: "\<bar>?x\<bar> = 2 powi (int p + s)" by (metis order_antisym)
    from il have q: "quantum p emin ?x = 2 powi (s + 1)"
      using gt(1) by (simp add: quantum_def fexp_def)
    from xx mag have "of_int \<bar>m\<bar> * 2 powi s = (of_int (2 ^ p) * 2 powi s :: rat)"
      by (simp flip: power_int_of_nat power_int_add)
    then have "\<bar>m\<bar> = 2 ^ p" by (simp flip: of_int_power)
    then obtain t where m: "m = t * 2"
      using assms(3) by (metis abs_if dvd_def dvd_minus_iff dvd_power mult.commute)
    have t: "?x = of_int t * 2 powi (s + 1)" by (simp add: m power_int_add)
    have "fl p emin ?x = of_int (round_even (?x / 2 powi (s + 1))) * 2 powi (s + 1)"
      using x0 by (simp add: fl_def q)
    also have "?x / 2 powi (s + 1) = of_int t" by (simp add: t)
    finally show ?thesis using t by simp
  qed
qed simp

lemma fl_of_int:
  assumes "\<bar>m\<bar> \<le> 2 ^ p" "emin \<le> int p - 1" "0 < p"
  shows "fl p emin (of_int m) = of_int m"
  using fl_exact [OF assms(1), of emin 0] assms by simp

lemma fl_significand:
  assumes "x \<noteq> 0" shows "\<bar>round_even (x / quantum p emin x)\<bar> \<le> 2 ^ p"
proof -
  let ?q = "quantum p emin x"
  have "\<bar>x\<bar> < 2 powi (ilog2 \<bar>x\<bar> + 1)" using assms by (intro ilog2_bounds(2)) simp
  also have "\<dots> \<le> 2 powi (fexp emin x + 1)" by (simp add: powi_le_iff fexp_def)
  also have "\<dots> = of_int (2 ^ p) * ?q"
    by (simp add: quantum_def flip: power_int_of_nat power_int_add)
  finally have "\<bar>x / ?q\<bar> \<le> of_int (2 ^ p)"
    using quantum_pos [of p emin x] by (simp add: abs_divide pos_divide_le_eq)
  then have "x / ?q \<le> of_int (2 ^ p)" "- (x / ?q) \<le> of_int (2 ^ p)"
    by (simp_all only: abs_le_iff)
  from this [THEN round_even_mono] show ?thesis
    by (simp only: round_even_of_int round_even_minus abs_le_iff)
qed

lemma fl_idem [simp]:
  assumes "0 < p" shows "fl p emin (fl p emin x) = fl p emin x"
proof (cases "x = 0")
  case False
  then have "fl p emin x = of_int (round_even (x / quantum p emin x)) * 2 powi (fexp emin x - int p + 1)"
    by (simp add: fl_def quantum_def)
  with fl_exact [OF fl_significand [OF False, of p emin], of emin "fexp emin x - int p + 1"] assms
  show ?thesis by (simp add: fexp_def)
qed simp

text \<open>The relative error of a value that is not subnormal.\<close>

lemma fl_near:
  assumes "0 < p" "2 powi emin \<le> x" shows "\<bar>fl p emin x - x\<bar> \<le> x / 2 ^ p"
proof -
  let ?q = "quantum p emin x"
  have x: "0 < x" using assms(2) by (meson less_le_trans zero_less_numeral zero_less_power_int)
  have "(2 :: rat) powi emin < 2 powi (ilog2 x + 1)" using assms(2) ilog2_bounds(2) [OF x] by simp
  then have "fexp emin x = ilog2 x" using x by (simp add: fexp_def powi_less_iff)
  then have "?q = 2 powi ilog2 x * (2 / 2 ^ p)" using assms(1)
    by (simp add: quantum_def power_int_diff power_int_add)
  also have "\<dots> \<le> x * (2 / 2 ^ p)" using ilog2_bounds(1) [OF x] by (intro mult_right_mono) auto
  finally have q: "?q / 2 \<le> x / 2 ^ p" by (simp add: field_simps)
  have "fl p emin x - x = (of_int (round_even (x / ?q)) - x / ?q) * ?q"
    using x quantum_pos [of p emin x] by (simp add: fl_def left_diff_distrib)
  then have "\<bar>fl p emin x - x\<bar> = \<bar>of_int (round_even (x / ?q)) - x / ?q\<bar> * ?q"
    using quantum_pos [of p emin x] by (simp add: abs_mult)
  also have "\<dots> \<le> 1 / 2 * ?q" using quantum_pos [of p emin x] by (intro mult_right_mono round_even_near) auto
  finally show ?thesis using q by linarith
qed

subsection \<open>The formats of the program\<close>

abbreviation f16 :: "rat \<Rightarrow> rat" where
  "f16 \<equiv> fl 11 (- 14)"

abbreviation f32 :: "rat \<Rightarrow> rat" where
  "f32 \<equiv> fl 24 (- 126)"

abbreviation f64 :: "rat \<Rightarrow> rat" where
  "f64 \<equiv> fl 53 (- 1022)"

text \<open>\<open>a + x * b\<close> in \<open>float\<close>: a compiler may contract it to one fused operation, so the model
  carries that choice as the argument \<open>fused\<close>.\<close>

definition mla32 :: "bool \<Rightarrow> rat \<Rightarrow> rat \<Rightarrow> rat \<Rightarrow> rat" where
  "mla32 fused a x b = (if fused then f32 (a + x * b) else f32 (a + f32 (x * b)))"

text \<open>\<open>n * r\<close> for an \<open>int\<close> \<open>n\<close> and a \<open>float\<close> \<open>r\<close>: the integer is converted first.\<close>

definition imul32 :: "int \<Rightarrow> rat \<Rightarrow> rat" where
  "imul32 n r = f32 (f32 (of_int n) * r)"

lemma f32_of_int: "\<bar>m\<bar> \<le> 2 ^ 24 \<Longrightarrow> f32 (of_int m) = of_int m"
  by (rule fl_of_int) simp_all

lemma f32_small: "0 \<le> m \<Longrightarrow> m \<le> 256 \<Longrightarrow> f32 (of_int m) = of_int m"
  by (rule f32_of_int) simp

lemma f32_numeral [simp]:
  "(numeral n :: int) \<le> 2 ^ 24 \<Longrightarrow> f32 (numeral n) = numeral n"
  using f32_of_int [of "numeral n"] by simp

lemma f32_mono: "x \<le> y \<Longrightarrow> f32 x \<le> f32 y"
  by (rule fl_mono) simp_all

lemma mla32_mono: "x \<le> y \<Longrightarrow> 0 \<le> b \<Longrightarrow> mla32 fused a x b \<le> mla32 fused a y b"
  by (auto simp: mla32_def intro!: f32_mono mult_right_mono)

lemma imul32_bounds:
  assumes "0 \<le> r" "r \<le> 1" "0 \<le> n" "n \<le> 2 ^ 24"
  shows "0 \<le> imul32 n r" "imul32 n r \<le> of_int n"
proof -
  from assms have n: "f32 (of_int n) = of_int n" by (intro f32_of_int) auto
  from assms show "0 \<le> imul32 n r" by (simp add: imul32_def n fl_nonneg)
  have "f32 (of_int n * r) \<le> f32 (of_int n)"
    using assms by (intro f32_mono mult_left_le) auto
  then show "imul32 n r \<le> of_int n" by (simp add: imul32_def n)
qed

end
