(* ===== verification/Half.thy ===== *)
theory Half
  imports Mz_Float
begin

text \<open>
  Binary16 and binary32 data with their special values, as the quantisation kernels handle them:
  the \<open>__fp16\<close> bit patterns in memory, conversion between the formats, and the scalar operations
  behind the NEON intrinsics (\<open>vmin\<close>, \<open>vmax\<close>, \<open>vmla\<close>, \<open>vfma\<close>, \<open>vcvtn\<close>). A NaN result is the
  default NaN of the architecture (\<open>0x7E00\<close> in memory); payloads are not represented.
\<close>

unbundle bit_operations_syntax

datatype fp = Fin bool rat | Infty bool | NaN

text \<open>\<open>Fin s r\<close> is the value \<open>r\<close> with sign bit \<open>s\<close>; the sign matters for zero only.\<close>

subsection \<open>Bit patterns\<close>

definition half_decode :: "u16 \<Rightarrow> fp" where
  "half_decode w =
     (let s = bit w 15; e = unat (drop_bit 10 w) mod 32; m = unat w mod 1024 in
      if e = 31 then (if m = 0 then Infty s else NaN)
      else let a = (if e = 0 then of_nat m * 2 powi - 24 else of_nat (1024 + m) * 2 powi (int e - 25))
           in Fin s (if s then - a else a))"

definition half_magnitude :: "rat \<Rightarrow> nat" where
  "half_magnitude r =
     (if r = 0 then 0
      else let e = fexp (- 14) r; sig = nat \<lfloor>\<bar>r\<bar> / 2 powi (e - 10)\<rfloor>
           in if sig < 1024 then sig else nat (e + 15) * 1024 + (sig - 1024))"

definition half_encode :: "fp \<Rightarrow> u16" where
  "half_encode x =
     (case x of Fin s r \<Rightarrow> of_nat ((if s then 32768 else 0) + half_magnitude r)
              | Infty s \<Rightarrow> of_nat ((if s then 32768 else 0) + 31744)
              | NaN \<Rightarrow> 0x7E00)"

text \<open>A half is stored little-endian.\<close>

definition half_bytes :: "u16 \<Rightarrow> bytes" where
  "half_bytes w = [ucast w, ucast (drop_bit 8 w)]"

fun halves_of :: "bytes \<Rightarrow> u16 list" where
  "halves_of (a # b # bs) = (ucast a OR push_bit 8 (ucast b)) # halves_of bs"
| "halves_of _ = []"

definition bytes_of :: "u16 list \<Rightarrow> bytes" where
  "bytes_of ws = concat (map half_bytes ws)"

lemma bytes_of_simps [simp]: "bytes_of [] = []" "bytes_of (w # ws) = half_bytes w @ bytes_of ws"
  "bytes_of (vs @ ws) = bytes_of vs @ bytes_of ws"
  by (simp_all add: bytes_of_def)

lemma length_half_bytes [simp]: "length (half_bytes w) = 2"
  by (simp add: half_bytes_def)

lemma length_bytes_of [simp]: "length (bytes_of ws) = 2 * length ws"
  by (induction ws) simp_all

lemma length_halves_of [simp]: "length (halves_of bs) = length bs div 2"
  by (induction bs rule: halves_of.induct) simp_all

lemma half_of_bytes: "(ucast (ucast (w :: u16) :: u8) :: u16) OR push_bit 8 (ucast (ucast (drop_bit 8 w) :: u8)) = w"
proof (rule bit_word_eqI)
  fix n assume "n < LENGTH(16)"
  then show "bit ((ucast (ucast w :: u8) :: u16) OR push_bit 8 (ucast (ucast (drop_bit 8 w) :: u8))) n = bit w n"
    by (cases "n < 8") (auto simp: bit_or_iff bit_push_bit_iff bit_ucast_iff bit_drop_bit_eq not_less)
qed

lemma halves_of_bytes_of [simp]: "halves_of (bytes_of ws @ xs) = ws @ halves_of xs"
  by (induction ws) (simp_all add: half_bytes_def half_of_bytes)

lemma bytes_of_halves_of: "even (length bs) \<Longrightarrow> bytes_of (halves_of bs) = bs"
proof (induction bs rule: halves_of.induct)
  case (1 a b bs)
  have "(ucast ((ucast a :: u16) OR push_bit 8 (ucast b)) :: u8) = a"
    "(ucast (drop_bit 8 ((ucast a :: u16) OR push_bit 8 (ucast b))) :: u8) = b"
    by (rule bit_word_eqI, auto simp: bit_or_iff bit_push_bit_iff bit_ucast_iff bit_drop_bit_eq dest: bit_imp_le_length)+
  with 1 show ?case by (simp add: half_bytes_def)
qed simp_all

subsection \<open>Operations\<close>

definition rnd :: "nat \<Rightarrow> int \<Rightarrow> rat \<Rightarrow> bool \<Rightarrow> rat \<Rightarrow> fp" where
  "rnd p emin maxv s r =
     (let y = fl p emin r; n = (if r = 0 then s else r < 0) in
      if maxv < \<bar>y\<bar> then Infty n else Fin n y)"

definition max16 :: rat where "max16 = 65504"

definition max32 :: rat where "max32 = (2 - 2 powi - 23) * 2 powi 127"

abbreviation rnd16 :: "bool \<Rightarrow> rat \<Rightarrow> fp" where "rnd16 \<equiv> rnd 11 (- 14) max16"

abbreviation rnd32 :: "bool \<Rightarrow> rat \<Rightarrow> fp" where "rnd32 \<equiv> rnd 24 (- 126) max32"

fun fp_neg :: "fp \<Rightarrow> fp" where
  "fp_neg (Fin s r) = Fin (\<not> s) (- r)"
| "fp_neg (Infty s) = Infty (\<not> s)"
| "fp_neg NaN = NaN"

text \<open>Exact sum and product; a format's operation rounds them.\<close>

fun fp_add :: "fp \<Rightarrow> fp \<Rightarrow> fp" where
  "fp_add (Fin s a) (Fin t b) = Fin (s \<and> t) (a + b)"
| "fp_add (Infty s) (Fin _ _) = Infty s"
| "fp_add (Fin _ _) (Infty t) = Infty t"
| "fp_add (Infty s) (Infty t) = (if s = t then Infty s else NaN)"
| "fp_add _ _ = NaN"

fun fp_mul :: "fp \<Rightarrow> fp \<Rightarrow> fp" where
  "fp_mul (Fin s a) (Fin t b) = Fin (s \<noteq> t) (a * b)"
| "fp_mul (Infty s) (Fin t b) = (if b = 0 then NaN else Infty (s \<noteq> t))"
| "fp_mul (Fin s a) (Infty t) = (if a = 0 then NaN else Infty (s \<noteq> t))"
| "fp_mul (Infty s) (Infty t) = Infty (s \<noteq> t)"
| "fp_mul _ _ = NaN"

text \<open>Division by a finite non-zero value or by an infinity, the only cases that occur.\<close>

fun fp_div :: "fp \<Rightarrow> fp \<Rightarrow> fp" where
  "fp_div (Fin s a) (Fin t b) = (if b = 0 then (if a = 0 then NaN else Infty (s \<noteq> t)) else Fin (s \<noteq> t) (a / b))"
| "fp_div (Infty s) (Fin t b) = Infty (s \<noteq> t)"
| "fp_div (Fin s a) (Infty t) = Fin (s \<noteq> t) 0"
| "fp_div _ _ = NaN"

fun to32 :: "fp \<Rightarrow> fp" where
  "to32 (Fin s r) = rnd32 s r"
| "to32 x = x"

fun to16 :: "fp \<Rightarrow> fp" where
  "to16 (Fin s r) = rnd16 s r"
| "to16 x = x"

definition sub32 :: "fp \<Rightarrow> fp \<Rightarrow> fp" where "sub32 x y = to32 (fp_add x (fp_neg y))"

definition mul32 :: "fp \<Rightarrow> fp \<Rightarrow> fp" where "mul32 x y = to32 (fp_mul x y)"

definition div32 :: "fp \<Rightarrow> fp \<Rightarrow> fp" where "div32 x y = to32 (fp_div x y)"

text \<open>\<open>vmlaq_f32\<close> multiplies and adds; a compiler may fuse the two. \<open>vfmaq\<close> is always fused.\<close>

definition fma32 :: "fp \<Rightarrow> fp \<Rightarrow> fp \<Rightarrow> fp" where "fma32 a x y = to32 (fp_add a (fp_mul x y))"

definition fma16 :: "fp \<Rightarrow> fp \<Rightarrow> fp \<Rightarrow> fp" where "fma16 a x y = to16 (fp_add a (fp_mul x y))"

definition mla32_fp :: "bool \<Rightarrow> fp \<Rightarrow> fp \<Rightarrow> fp \<Rightarrow> fp" where
  "mla32_fp fused a x y = (if fused then fma32 a x y else to32 (fp_add a (mul32 x y)))"

fun fp_pos :: "fp \<Rightarrow> bool" where
  "fp_pos (Fin _ r) = (0 < r)"
| "fp_pos (Infty s) = (\<not> s)"
| "fp_pos NaN = False"

definition sat :: "int \<Rightarrow> int \<Rightarrow> int \<Rightarrow> int" where
  "sat lo hi i = max lo (min i hi)"

text \<open>\<open>vcvtnq_s32_f32\<close> and \<open>vcvtnq_u32_f32\<close>: to nearest, ties to even, saturating, NaN to zero.\<close>

definition cvtn :: "int \<Rightarrow> int \<Rightarrow> fp \<Rightarrow> int" where
  "cvtn lo hi x = (case x of Fin _ r \<Rightarrow> sat lo hi (round_even r) | Infty s \<Rightarrow> (if s then lo else hi) | NaN \<Rightarrow> 0)"

abbreviation cvtn_s32 :: "fp \<Rightarrow> int" where "cvtn_s32 \<equiv> cvtn (- (2 ^ 31)) (2 ^ 31 - 1)"

abbreviation cvtn_u32 :: "fp \<Rightarrow> int" where "cvtn_u32 \<equiv> cvtn 0 (2 ^ 32 - 1)"

subsection \<open>Minimum and maximum\<close>

text \<open>The order of \<open>FMIN\<close> and \<open>FMAX\<close>, in which \<open>- 0\<close> is below \<open>+ 0\<close>; NaN is absorbing in both.\<close>

fun fp_le :: "fp \<Rightarrow> fp \<Rightarrow> bool" where
  "fp_le (Fin s a) (Fin t b) = (a < b \<or> a = b \<and> (s \<or> \<not> t))"
| "fp_le (Fin s a) (Infty t) = (\<not> t)"
| "fp_le (Infty s) y = (s \<or> y = Infty False)"
| "fp_le _ _ = False"

definition fp_min :: "fp \<Rightarrow> fp \<Rightarrow> fp" where
  "fp_min x y = (if x = NaN \<or> y = NaN then NaN else if fp_le x y then x else y)"

definition fp_max :: "fp \<Rightarrow> fp \<Rightarrow> fp" where
  "fp_max x y = (if x = NaN \<or> y = NaN then NaN else if fp_le x y then y else x)"

lemma fp_le_total: "x \<noteq> NaN \<Longrightarrow> y \<noteq> NaN \<Longrightarrow> fp_le x y \<or> fp_le y x"
  by (cases x; cases y) (auto split: if_splits)

lemma fp_le_antisym: "x \<noteq> NaN \<Longrightarrow> y \<noteq> NaN \<Longrightarrow> fp_le x y \<Longrightarrow> fp_le y x \<Longrightarrow> x = y"
  by (cases x; cases y) (auto elim!: fp_le.elims)

lemma fp_le_trans: "x \<noteq> NaN \<Longrightarrow> y \<noteq> NaN \<Longrightarrow> z \<noteq> NaN \<Longrightarrow> fp_le x y \<Longrightarrow> fp_le y z \<Longrightarrow> fp_le x z"
  by (cases x; cases y; cases z) (auto elim!: fp_le.elims)

lemma fp_le_refl: "x \<noteq> NaN \<Longrightarrow> fp_le x x"
  using fp_le_total [of x x] by simp

lemma fp_min_assoc: "fp_min (fp_min x y) z = fp_min x (fp_min y z)"
  unfolding fp_min_def by (smt (verit) fp_le_total fp_le_antisym fp_le_trans)

lemma fp_max_assoc: "fp_max (fp_max x y) z = fp_max x (fp_max y z)"
  unfolding fp_max_def by (smt (verit) fp_le_total fp_le_antisym fp_le_trans)

lemma fp_min_commute: "fp_min x y = fp_min y x"
  using fp_le_total fp_le_antisym by (auto simp: fp_min_def)

lemma fp_max_commute: "fp_max x y = fp_max y x"
  using fp_le_total fp_le_antisym by (auto simp: fp_max_def)

lemma fp_min_neutral: "fp_min x (Infty False) = x" "fp_max x (Infty True) = x"
  by (cases x; simp add: fp_min_def fp_max_def)+

subsection \<open>Round trip of the bit patterns\<close>

lemma ilog2_unique:
  assumes "2 powi k \<le> x" "x < 2 powi (k + 1)"
  shows "ilog2 x = k"
proof -
  have x: "0 < x" using assms(1) by (rule less_le_trans [rotated]) simp
  have "2 powi ilog2 x < (2::rat) powi (k + 1)" "2 powi k < (2::rat) powi (ilog2 x + 1)"
    using ilog2_bounds [OF x] assms by linarith+
  then show ?thesis by (simp add: powi_less_iff)
qed

lemma magnitude_subnormal:
  assumes "m < 1024"
  shows "half_magnitude (of_nat m * 2 powi - 24) = m"
proof (cases "m = 0")
  case False
  let ?r = "of_nat m * 2 powi - 24 :: rat"
  have r: "0 < ?r" using False by simp
  have "?r < of_nat 1024 * 2 powi - 24" using assms by (intro mult_strict_right_mono) (simp_all only: of_nat_less_iff, simp)
  also have "\<dots> = 2 powi - 14" using power_int_add [of "2 :: rat" 10 "- 24"] by (simp add: power_int_def)
  finally have "2 powi ilog2 ?r < (2::rat) powi - 14" using ilog2_bounds(1) [OF r] by linarith
  then have "ilog2 ?r < - 14" unfolding powi_less_iff .
  then have "fexp (- 14) ?r = - 14" unfolding fexp_def using r by (simp only: abs_of_pos max_def) simp
  moreover have "?r / 2 powi (- 14 - 10) = of_nat m" by simp
  ultimately show ?thesis using assms r False by (simp add: half_magnitude_def Let_def)
qed (simp add: half_magnitude_def)

lemma magnitude_normal:
  assumes "m < 1024" "0 < e" "e < 31"
  shows "half_magnitude (of_nat (1024 + m) * 2 powi (int e - 25)) = e * 1024 + m"
proof -
  let ?r = "of_nat (1024 + m) * 2 powi (int e - 25) :: rat"
  have r: "0 < ?r" by (simp add: add_pos_nonneg)
  have "2 powi (int e - 15) = 2 ^ 10 * (2::rat) powi (int e - 25)"
    using power_int_add [of "2 :: rat" 10 "int e - 25"] by simp
  then have "2 powi (int e - 15) \<le> ?r" by (simp add: distrib_right)
  moreover have "?r < 2 powi (int e - 15 + 1)"
  proof -
    have "?r < of_nat 2048 * 2 powi (int e - 25)"
      using assms by (intro mult_strict_right_mono) (simp_all only: of_nat_less_iff, simp_all)
    also have "\<dots> = 2 powi 11 * 2 powi (int e - 25)" by (simp add: power_int_def)
    also have "\<dots> = 2 powi (int e - 15 + 1)" using power_int_add [of "2 :: rat" 11 "int e - 25"] by simp
    finally show ?thesis .
  qed
  ultimately have "ilog2 ?r = int e - 15" by (rule ilog2_unique)
  then have f: "fexp (- 14) ?r = int e - 15" using assms r by (simp add: fexp_def)
  have "?r / 2 powi (int e - 15 - 10) = of_nat (1024 + m)" by simp
  then have "\<lfloor>\<bar>?r\<bar> / 2 powi (fexp (- 14) ?r - 10)\<rfloor> = int (1024 + m)"
    using r unfolding f by (simp only: abs_of_pos floor_of_nat)
  then have "half_magnitude ?r = (let sig = nat (int (1024 + m)) in if sig < 1024 then sig else nat (int e - 15 + 15) * 1024 + (sig - 1024))"
    using r f by (simp add: half_magnitude_def Let_def)
  then show ?thesis using assms by (simp only: nat_int Let_def) simp
qed

lemma half_magnitude_minus [simp]: "half_magnitude (- r) = half_magnitude r"
  by (simp add: half_magnitude_def fexp_def)

lemma half_fields:
  fixes w :: u16
  defines "e \<equiv> unat (drop_bit 10 w) mod 32" and "m \<equiv> unat w mod 1024"
  shows "unat w = (if bit w 15 then 32768 else 0) + e * 1024 + m" "e < 32" "m < 1024"
proof -
  let ?n = "unat w"
  have "?n < 65536" using unsigned_less [of w] by simp
  then have "?n div 32768 < 2" by (simp add: div_less_iff_less_mult)
  moreover have "bit w 15 \<longleftrightarrow> odd (?n div 32768)"
    by (simp add: bit_iff_odd word_arith_nat_div even_of_nat_iff)
  ultimately have s: "?n div 32768 = (if bit w 15 then 1 else 0)" by (cases "?n div 32768 = 0") auto
  have e: "e = ?n div 1024 mod 32" by (simp add: e_def drop_bit_eq_div unat_div)
  have "?n div 1024 = ?n div 32768 * 32 + ?n div 1024 mod 32"
    using div_mult_mod_eq [of "?n div 1024" 32] by (simp add: div_mult2_eq [symmetric])
  then have "?n div 1024 = (if bit w 15 then 32 else 0) + e" unfolding e s by (cases "bit w 15") simp_all
  then show "?n = (if bit w 15 then 32768 else 0) + e * 1024 + m"
    using div_mult_mod_eq [of ?n 1024] by (cases "bit w 15") (simp_all add: m_def)
qed (simp_all add: e_def m_def)

lemma half_encode_decode:
  assumes "half_decode w \<noteq> NaN"
  shows "half_encode (half_decode w) = w"
proof -
  let ?e = "unat (drop_bit 10 w) mod 32" and ?m = "unat w mod 1024"
  note f = half_fields [of w]
  have "half_encode (half_decode w) = of_nat ((if bit w 15 then 32768 else 0) + ?e * 1024 + ?m)"
    using assms magnitude_subnormal [OF f(3)] magnitude_normal [OF f(3), of ?e] f(2)
    by (auto simp: half_decode_def half_encode_def Let_def split: if_splits)
  then show ?thesis unfolding f(1) [symmetric] by simp
qed

end
