(* ===== verification/Mz_Types.thy ===== *)
theory Mz_Types
  imports Mz_Prelude
begin

text \<open>
  The constants and plain data types of \<open>mzcache/include/mzcache_types.h\<close>, and the build-time
  choice of the compression backend (\<open>MZCACHE_COMPRESS_*\<close>), which the sources select with the
  preprocessor and the model carries as a value of type \<open>compression\<close>.
\<close>

abbreviation TOKENS_PER_CHUNK :: nat where
  "TOKENS_PER_CHUNK \<equiv> 256"

abbreviation MAX_CHUNKS_PER_TENSOR :: int where
  "MAX_CHUNKS_PER_TENSOR \<equiv> 256"

abbreviation MAX_NUM_LAYERS :: int where
  "MAX_NUM_LAYERS \<equiv> 40"

abbreviation MAX_TOKENS_PER_CHUNK :: nat where
  "MAX_TOKENS_PER_CHUNK \<equiv> 16"

datatype compression = FLEXGEN | FLEXGEN_8BIT | CACHEGEN | NONE

datatype KVstate = Raw | Compressed | Stored

record 'm compressed_chunk =
  stack_id :: nat
  offset :: nat
  comp_size :: nat
  meta :: 'm

record stored_chunk =
  file_offset :: nat
  stored_size :: nat

text \<open>Bytes of one raw K or V chunk, and of the K+V pair.\<close>

definition raw_chunk_bytes :: "nat \<Rightarrow> nat" where
  "raw_chunk_bytes kv_hidden_dim = TOKENS_PER_CHUNK * kv_hidden_dim * 2"

definition kv_raw_size :: "nat \<Rightarrow> nat" where
  "kv_raw_size kv_hidden_dim = TOKENS_PER_CHUNK * kv_hidden_dim * 2 * 2"

lemma kv_raw_size_pair: "kv_raw_size h = 2 * raw_chunk_bytes h"
  by (simp add: kv_raw_size_def raw_chunk_bytes_def)

definition round_up_4k :: "nat \<Rightarrow> nat" where
  "round_up_4k n = (n + 4095) div 4096 * 4096"

lemma round_up_4k_bounds: "n \<le> round_up_4k n" "round_up_4k n < n + 4096"
  by (simp_all add: round_up_4k_def)

lemma round_up_4k_dvd: "4096 dvd round_up_4k n"
  by (simp add: round_up_4k_def)

end
