(* ===== verification/Kv_Plan.thy ===== *)
theory Kv_Plan
  imports Mz_Types Mz_Float
begin

text \<open>
  The arithmetic of \<open>mzcache_kv_state::derive_swapout_plan\<close>: how many chunks of each layer are
  compressed (the rest is stored to disk). Layers are filled with \<open>per_layer_balance * num_layers\<close>
  compress-only chunks from layer 0 upwards; the layer where that budget runs out is split, and all
  later layers get the default bound. The split uses \<open>float\<close> arithmetic on the ratio.
\<close>

definition default_bound :: "rat \<Rightarrow> int \<Rightarrow> int" where
  "default_bound r N = trunc (imul32 N r)"

definition split_bound :: "bool \<Rightarrow> rat \<Rightarrow> int \<Rightarrow> int \<Rightarrow> int" where
  "split_bound fused r comp_only n_remain =
     trunc (mla32 fused (f32 (of_int comp_only)) (f32 (of_int n_remain)) r)"

fun chunk_bound_loop ::
  "bool \<Rightarrow> rat \<Rightarrow> int \<Rightarrow> int \<Rightarrow> nat \<Rightarrow> int \<Rightarrow> int \<Rightarrow> bool \<Rightarrow> (int \<Rightarrow> int) \<Rightarrow> (int \<Rightarrow> int)" where
  "chunk_bound_loop fused r N nwb 0 i cur_chunks balance_chunks cb = cb"
| "chunk_bound_loop fused r N nwb (Suc k) i cur_chunks balance_chunks cb =
     (if balance_chunks then
        if cur_chunks + N > nwb then
          let comp_only = nwb - cur_chunks; n_remain = N - comp_only
          in chunk_bound_loop fused r N nwb k (i + 1) cur_chunks False
               (cb(i := split_bound fused r comp_only n_remain))
        else chunk_bound_loop fused r N nwb k (i + 1) (cur_chunks + N) True (cb(i := N))
      else chunk_bound_loop fused r N nwb k (i + 1) cur_chunks False
             (cb(i := default_bound r N)))"

fun max_chunks_loop :: "int \<Rightarrow> (int \<Rightarrow> int) \<Rightarrow> nat \<Rightarrow> int \<Rightarrow> int \<times> int \<Rightarrow> int \<times> int" where
  "max_chunks_loop N cb 0 i acc = acc"
| "max_chunks_loop N cb (Suc k) i acc =
     max_chunks_loop N cb k (i + 1) (fst acc + cb i, snd acc + (N - cb i))"

subsection \<open>Closed form\<close>

definition plan_bound :: "bool \<Rightarrow> rat \<Rightarrow> int \<Rightarrow> int \<Rightarrow> int \<Rightarrow> int" where
  "plan_bound fused r N nwb i =
     (if i < nwb div N then N
      else if i = nwb div N then split_bound fused r (nwb mod N) (N - nwb mod N)
      else default_bound r N)"

lemma chunk_bound_loop_default:
  "chunk_bound_loop fused r N nwb k i cur False cb j =
     (if i \<le> j \<and> j < i + int k then default_bound r N else cb j)"
  by (induction k arbitrary: i cb) auto

lemma chunk_bound_loop_balance:
  assumes "0 < N" "0 \<le> i" "N * i \<le> nwb"
  shows "chunk_bound_loop fused r N nwb k i (N * i) True cb j =
     (if i \<le> j \<and> j < i + int k then plan_bound fused r N nwb j else cb j)"
  using assms
proof (induction k arbitrary: i cb)
  case (Suc k)
  show ?case
  proof (cases "N * i + N > nwb")
    case True
    have q: "nwb div N = i"
      using Suc.prems True by (intro int_div_pos_eq [of _ _ _ "nwb - N * i"]) auto
    then have m: "nwb mod N = nwb - N * i"
      by (simp add: minus_mult_div_eq_mod [symmetric])
    from True show ?thesis
      by (auto simp: Let_def chunk_bound_loop_default plan_bound_def q m)
  next
    case False
    then have "N * (i + 1) div N \<le> nwb div N"
      using Suc.prems by (intro zdiv_mono1) (auto simp: distrib_left)
    then have "i + 1 \<le> nwb div N" using Suc.prems by simp
    moreover have "chunk_bound_loop fused r N nwb k (i + 1) (N * (i + 1)) True (cb(i := N)) j =
       (if i + 1 \<le> j \<and> j < i + 1 + int k then plan_bound fused r N nwb j else (cb(i := N)) j)"
      using Suc.prems False by (intro Suc.IH) (auto simp: distrib_left)
    ultimately show ?thesis
      using False by (auto simp: distrib_left plan_bound_def)
  qed
qed auto

subsection \<open>Bounds of the plan\<close>

text \<open>The ratios the plan is used with: a fraction in \<open>[0, 1]\<close> that is either 1 or leaves at least
  one part in 1024 to the store stream.\<close>

definition ratio_ok :: "rat \<Rightarrow> bool" where
  "ratio_ok r \<longleftrightarrow> 0 \<le> r \<and> (r \<le> 1 - 1 / 1024 \<or> r = 1)"

lemma ratio_okD: "ratio_ok r \<Longrightarrow> 0 \<le> r \<and> r \<le> 1"
  by (auto simp: ratio_ok_def)

lemma default_bound_range:
  assumes "ratio_ok r" "0 \<le> N" "N \<le> 256"
  shows "0 \<le> default_bound r N" "default_bound r N \<le> N"
  using imul32_bounds [of r N] ratio_okD [OF assms(1)] assms(2,3)
  by (auto simp: default_bound_def intro!: trunc_le le_trunc)

lemma default_bound_less:
  assumes "ratio_ok r" "r \<noteq> 1" "0 < N" "N \<le> 256"
  shows "default_bound r N < N"
proof -
  have eq: "of_int N * (1 - 1 / 1024) = (of_int (N * 1023) * 2 powi (- 10) :: rat)"
    by (simp add: power_int_minus field_simps)
  have "f32 (of_int N * r) \<le> f32 (of_int N * (1 - 1 / 1024))"
    using assms by (intro f32_mono mult_left_mono) (auto simp: ratio_ok_def)
  also have "\<dots> = of_int N * (1 - 1 / 1024)"
    unfolding eq using assms by (intro fl_exact) auto
  also have "\<dots> < of_int N" using assms by simp
  finally have lt: "imul32 N r < of_int N"
    using assms by (simp add: imul32_def f32_of_int)
  have "0 \<le> imul32 N r" using imul32_bounds [of r N] ratio_okD [OF assms(1)] assms by simp
  with lt show ?thesis
    by (simp add: default_bound_def trunc_def floor_less_iff)
qed

lemma split_bound_range:
  assumes "ratio_ok r" "0 \<le> c" "c \<le> N" "N \<le> 256"
  shows "c \<le> split_bound fused r c (N - c)" "split_bound fused r c (N - c) \<le> N"
proof -
  have conv: "f32 (of_int c) = of_int c" "f32 (of_int (N - c)) = of_int (N - c)"
    using assms by (intro f32_of_int; simp)+
  from ratio_okD [OF assms(1)] have r: "0 \<le> r" "r \<le> 1" by auto
  let ?m = "of_int (N - c) :: rat"
  have m: "0 \<le> ?m" using assms by simp
  have p: "0 \<le> ?m * r" "?m * r \<le> ?m" using m r by (auto intro: mult_left_le mult_nonneg_nonneg)
  have p': "0 \<le> f32 (?m * r)" "f32 (?m * r) \<le> ?m"
    using p f32_mono [OF p(2)] conv(2) by (auto simp: fl_nonneg)
  have lo: "of_int c \<le> f32 (of_int c + t)" if "0 \<le> t" for t
    using f32_mono [of "of_int c" "of_int c + t"] conv(1) that by simp
  have hi: "f32 (of_int c + t) \<le> of_int N" if "t \<le> ?m" for t
    using f32_mono [of "of_int c + t" "of_int N"] f32_of_int [of N] that assms by simp
  have "of_int c \<le> mla32 fused (f32 (of_int c)) (f32 (of_int (N - c))) r"
    "mla32 fused (f32 (of_int c)) (f32 (of_int (N - c))) r \<le> of_int N"
    unfolding mla32_def conv using lo [OF p(1)] lo [OF p'(1)] hi [OF p(2)] hi [OF p'(2)] by simp_all
  then show "c \<le> split_bound fused r c (N - c)" "split_bound fused r c (N - c) \<le> N"
    by (simp_all add: split_bound_def trunc_le le_trunc)
qed

lemma split_bound_0:
  assumes "0 \<le> N" "N \<le> 256"
  shows "split_bound fused r 0 N = default_bound r N"
  by (simp add: split_bound_def default_bound_def mla32_def imul32_def)

lemma plan_bound_range:
  assumes "ratio_ok r" "0 < N" "N \<le> 256" "0 \<le> nwb"
  shows "0 \<le> plan_bound fused r N nwb i" "plan_bound fused r N nwb i \<le> N"
proof -
  have c: "0 \<le> nwb mod N" "nwb mod N \<le> N" using assms by (auto intro: less_imp_le)
  from split_bound_range [OF assms(1) c assms(3), of fused] c(1)
  have "0 \<le> split_bound fused r (nwb mod N) (N - nwb mod N)"
    "split_bound fused r (nwb mod N) (N - nwb mod N) \<le> N" by linarith+
  with default_bound_range [OF assms(1), of N] assms
  show "0 \<le> plan_bound fused r N nwb i" "plan_bound fused r N nwb i \<le> N"
    by (auto simp: plan_bound_def)
qed

text \<open>Layers without a compress region are the last ones, layers without a store region the first
  ones: the cursors, which walk from the last layer to the first and back, rely on both.\<close>

lemma plan_bound_zero_up:
  assumes "ratio_ok r" "0 < N" "N \<le> 256" "0 \<le> nwb" "i \<le> j"
    and "plan_bound fused r N nwb i = 0"
  shows "plan_bound fused r N nwb j = 0"
proof -
  have c: "0 \<le> nwb mod N" "nwb mod N < N" using assms by auto
  have "nwb div N \<le> i" using assms by (auto simp: plan_bound_def split: if_splits)
  moreover have "default_bound r N = 0"
  proof (cases "i = nwb div N")
    case True
    with assms(6) have z: "split_bound fused r (nwb mod N) (N - nwb mod N) = 0"
      by (simp add: plan_bound_def)
    with split_bound_range(1) [OF assms(1) c(1), of N fused] c assms have "nwb mod N = 0" by simp
    with z split_bound_0 [of N fused r] assms show ?thesis by simp
  qed (use assms(6) \<open>nwb div N \<le> i\<close> in \<open>auto simp: plan_bound_def\<close>)
  ultimately show ?thesis
    using assms(5,6) by (cases "j = i") (auto simp: plan_bound_def)
qed

lemma plan_bound_full_down:
  assumes "ratio_ok r" "0 < N" "N \<le> 256" "0 \<le> nwb" "i \<le> j"
    and "plan_bound fused r N nwb j = N"
  shows "plan_bound fused r N nwb i = N"
proof (cases "r = 1")
  case True
  have c: "0 \<le> nwb mod N" "nwb mod N < N" using assms by auto
  have "default_bound r N = N"
    using True assms by (simp add: default_bound_def imul32_def f32_of_int)
  moreover have "split_bound fused r (nwb mod N) (N - nwb mod N) = N"
  proof -
    have "f32 (of_int (nwb mod N)) = of_int (nwb mod N)"
      "f32 (of_int (N - nwb mod N)) = of_int (N - nwb mod N)" "f32 (of_int N) = of_int N"
      using c assms by (intro f32_small; linarith)+
    with True show ?thesis by (simp only: split_bound_def mla32_def) (simp flip: of_int_add)
  qed
  ultimately show ?thesis by (simp add: plan_bound_def)
next
  case False
  with assms default_bound_less [OF assms(1) False, of N] have "j \<le> nwb div N"
    by (auto simp: plan_bound_def split: if_splits)
  with assms show ?thesis by (cases "i = j") (auto simp: plan_bound_def)
qed

text \<open>The compress regions together hold at least the compress-only budget.\<close>

lemma plan_bound_sum:
  assumes "ratio_ok r" "0 < N" "N \<le> 256" "0 \<le> nwb"
  shows "min nwb (N * int L) \<le> (\<Sum>i<L. plan_bound fused r N nwb (int i))"
proof (cases "int L \<le> nwb div N")
  case True
  then have "(\<Sum>i<L. plan_bound fused r N nwb (int i)) = (\<Sum>i<L. N)"
    by (intro sum.cong) (auto simp: plan_bound_def)
  then show ?thesis by (simp add: mult.commute)
next
  case False
  define f where "f = nat (nwb div N)"
  have f: "int f = nwb div N" using assms by (simp add: f_def pos_imp_zdiv_nonneg_iff)
  with False have fL: "f < L" by simp
  have c: "0 \<le> nwb mod N" "nwb mod N < N" using assms by auto
  have "nwb = (\<Sum>i<f. N) + nwb mod N" using f by (simp add: mult.commute)
  also have "\<dots> \<le> (\<Sum>i<f. plan_bound fused r N nwb (int i)) + plan_bound fused r N nwb (int f)"
  proof (intro add_mono sum_mono)
    show "nwb mod N \<le> plan_bound fused r N nwb (int f)"
      using split_bound_range(1) [OF assms(1) c(1), of N fused] c assms f by (simp add: plan_bound_def)
  qed (use f in \<open>auto simp: plan_bound_def\<close>)
  also have "\<dots> = (\<Sum>i<Suc f. plan_bound fused r N nwb (int i))" by simp
  also have "\<dots> \<le> (\<Sum>i<L. plan_bound fused r N nwb (int i))"
    using fL plan_bound_range(1) [OF assms] by (intro sum_mono2) auto
  finally show ?thesis by simp
qed

lemma max_chunks_loop_sum:
  "max_chunks_loop N cb k i (a, b) =
     (a + (\<Sum>j<k. cb (i + int j)), b + (\<Sum>j<k. N - cb (i + int j)))"
proof (induction k arbitrary: i a b)
  case (Suc k)
  have "(\<Sum>j<Suc k. g (i + int j)) = g i + (\<Sum>j<k. g (i + 1 + int j))" for g :: "int \<Rightarrow> int"
    by (subst sum.lessThan_Suc_shift) (simp add: ac_simps)
  from this [of cb] this [of "\<lambda>j. N - cb j"] show ?case
    by (simp only: max_chunks_loop.simps fst_conv snd_conv Suc.IH) (simp add: ac_simps)
qed simp

end
