(* ===== verification/Byte_Store.thy ===== *)
theory Byte_Store
  imports Mz_Prelude
begin

text \<open>
  Files as the KV store uses them: \<open>pwrite\<close> and \<open>pread\<close> at absolute offsets, both of which may
  transfer fewer bytes than asked for. The locale states what the swap code relies on; the model's
  file is a function from offsets to bytes.
\<close>

type_synonym filedata = "nat \<Rightarrow> u8"

definition write_at :: "filedata \<Rightarrow> nat \<Rightarrow> bytes \<Rightarrow> filedata" where
  "write_at f off bs = (\<lambda>p. if off \<le> p \<and> p < off + length bs then bs ! (p - off) else f p)"

definition read_at :: "filedata \<Rightarrow> nat \<Rightarrow> nat \<Rightarrow> bytes" where
  "read_at f off n = map f [off..<off + n]"

text \<open>\<open>n\<close> is the number of bytes the system call transfers.\<close>

definition pwrite :: "filedata \<Rightarrow> nat \<Rightarrow> bytes \<Rightarrow> nat \<Rightarrow> filedata" where
  "pwrite f off bs n = write_at f off (take n bs)"

definition pread :: "filedata \<Rightarrow> nat \<Rightarrow> bytes \<Rightarrow> nat \<Rightarrow> bytes" where
  "pread f off buf n = read_at f off (min n (length buf)) @ drop n buf"

lemma length_read_at [simp]: "length (read_at f off n) = n"
  by (simp add: read_at_def)

lemma read_at_add: "read_at f off (m + n) = read_at f off m @ read_at f (off + m) n"
  using upt_add_eq_append [of off "off + m" n] by (simp add: read_at_def add.assoc)

lemma length_pread [simp]: "length (pread f off buf n) = length buf"
  by (simp add: pread_def)

locale byte_store =
  fixes wr :: "'f \<Rightarrow> nat \<Rightarrow> bytes \<Rightarrow> 'f"
    and rd :: "'f \<Rightarrow> nat \<Rightarrow> nat \<Rightarrow> bytes"
  assumes read_write_same: "rd (wr f off bs) off (length bs) = bs"
    and read_write_disjoint:
      "off' + n \<le> off \<or> off + length bs \<le> off' \<Longrightarrow> rd (wr f off bs) off' n = rd f off' n"
    and read_append: "rd f off (m + n) = rd f off m @ rd f (off + m) n"
begin

text \<open>The layout of a stored chunk: K at \<open>off\<close>, V directly behind it.\<close>

definition put_pair :: "'f \<Rightarrow> nat \<Rightarrow> bytes \<Rightarrow> bytes \<Rightarrow> 'f" where
  "put_pair f off k v = wr (wr f off k) (off + length k) v"

lemma pair_roundtrip:
  "rd (put_pair f off k v) off (length k) = k"
  "rd (put_pair f off k v) (off + length k) (length v) = v"
  by (simp_all add: put_pair_def read_write_same read_write_disjoint)

lemma pair_contiguous: "rd (put_pair f off k v) off (length k + length v) = k @ v"
  by (simp add: read_append pair_roundtrip)

lemma pair_frame:
  assumes "off' + n \<le> off \<or> off + length k + length v \<le> off'"
  shows "rd (put_pair f off k v) off' n = rd f off' n"
  unfolding put_pair_def using assms by (subst read_write_disjoint | auto)+

end

interpretation kvf: byte_store write_at read_at
proof
  show "read_at (write_at f off bs) off (length bs) = bs" for f off bs
    by (rule nth_equalityI) (simp_all add: read_at_def write_at_def)
  show "read_at (write_at f off bs) off' n = read_at f off' n"
    if "off' + n \<le> off \<or> off + length bs \<le> off'" for f off off' n bs
    using that by (auto simp: read_at_def write_at_def)
qed (rule read_at_add)

lemma pwrite_full: "length bs \<le> n \<Longrightarrow> pwrite f off bs n = write_at f off bs"
  by (simp add: pwrite_def)

lemma pwrite_none: "pwrite f off bs 0 = f"
  by (rule ext) (auto simp: pwrite_def write_at_def)

lemma pread_full: "length buf \<le> n \<Longrightarrow> pread f off buf n = read_at f off (length buf)"
  by (simp add: pread_def)

end
