(* ===== verification/Region.thy ===== *)
theory Region
  imports Mz_Prelude
begin

text \<open>
  Cursors over the chunk regions. Layer \<open>i\<close> contributes the chunks \<open>[lo i, hi i)\<close> to a region: the
  compress region has \<open>lo = 0\<close>, \<open>hi = chunk_bound\<close>, the store region \<open>lo = chunk_bound\<close>,
  \<open>hi = num_chunks_per_tensor\<close>. Swap-out takes chunks from the end of the region (last layer, last
  chunk first), swap-in gives them back in the opposite order; the class keeps only the cursor
  \<open>(layer, chunk)\<close> of the next chunk to take. The cursor splits the region into what is left to
  swap out (\<open>rest\<close>) and what swap-in has to restore (\<open>taken\<close>), both in ascending order.
\<close>

definition row :: "int \<Rightarrow> int \<Rightarrow> int \<Rightarrow> (int \<times> int) list" where
  "row i a b = map (Pair i) [a..b - 1]"

definition rows :: "(int \<Rightarrow> int) \<Rightarrow> (int \<Rightarrow> int) \<Rightarrow> int \<Rightarrow> int \<Rightarrow> (int \<times> int) list" where
  "rows lo hi a b = concat (map (\<lambda>i. row i (lo i) (hi i)) [a..b - 1])"

definition rest :: "(int \<Rightarrow> int) \<Rightarrow> (int \<Rightarrow> int) \<Rightarrow> int \<Rightarrow> int \<Rightarrow> (int \<times> int) list" where
  "rest lo hi l c = rows lo hi 0 l @ row l (lo l) (c + 1)"

definition taken :: "(int \<Rightarrow> int) \<Rightarrow> (int \<Rightarrow> int) \<Rightarrow> int \<Rightarrow> int \<Rightarrow> int \<Rightarrow> (int \<times> int) list" where
  "taken lo hi nl l c = row l (c + 1) (hi l) @ rows lo hi (l + 1) nl"

lemma row_empty [simp]: "b \<le> a \<Longrightarrow> row i a b = []"
  by (simp add: row_def)

lemma row_Nil_iff: "row i a b = [] \<longleftrightarrow> b \<le> a"
  by (auto simp: row_def)

lemma row_snoc: "a < b \<Longrightarrow> row i a b = row i a (b - 1) @ [(i, b - 1)]"
  using upto_rec2 [of a "b - 1"] by (simp add: row_def)

lemma row_Cons: "a < b \<Longrightarrow> row i a b = (i, a) # row i (a + 1) b"
  using upto_rec1 [of a "b - 1"] by (simp add: row_def)

lemma row_append: "a \<le> b \<Longrightarrow> b \<le> c \<Longrightarrow> row i a b @ row i b c = row i a c"
  by (cases "b = c") (simp_all add: row_def upto_split1 [of a b "c - 1"] flip: map_append)

lemma set_row [simp]: "set (row i a b) = {i} \<times> {a..<b}"
  by (auto simp: row_def)

lemma distinct_row: "distinct (row i a b)"
  by (simp add: row_def distinct_map inj_on_def)

lemma length_row [simp]: "length (row i a b) = nat (b - a)"
  by (simp add: row_def)

lemma rows_empty [simp]: "b \<le> a \<Longrightarrow> rows lo hi a b = []"
  by (simp add: rows_def)

lemma rows_Cons: "a < b \<Longrightarrow> rows lo hi a b = row a (lo a) (hi a) @ rows lo hi (a + 1) b"
  using upto_rec1 [of a "b - 1"] by (simp add: rows_def)

lemma rows_snoc: "a < b \<Longrightarrow> rows lo hi a b = rows lo hi a (b - 1) @ row (b - 1) (lo (b - 1)) (hi (b - 1))"
  using upto_rec2 [of a "b - 1"] by (simp add: rows_def)

lemma rows_append: "a \<le> b \<Longrightarrow> b \<le> c \<Longrightarrow> rows lo hi a b @ rows lo hi b c = rows lo hi a c"
  by (cases "b = c")
    (simp_all add: rows_def upto_split1 [of a b "c - 1"] flip: concat_append map_append)

lemma set_rows [simp]: "set (rows lo hi a b) = {(i, j). a \<le> i \<and> i < b \<and> lo i \<le> j \<and> j < hi i}"
  by (auto simp: rows_def row_def)

lemma rows_Nil_iff: "rows lo hi a b = [] \<longleftrightarrow> (\<forall>i. a \<le> i \<and> i < b \<longrightarrow> hi i \<le> lo i)"
  by (auto simp: rows_def row_Nil_iff)

lemma distinct_rows: "distinct (rows lo hi a b)"
proof (induction "nat (b - a)" arbitrary: a)
  case (Suc n)
  then have "a < b" "distinct (rows lo hi (a + 1) b)" by simp_all
  then show ?case by (auto simp: rows_Cons distinct_row)
qed simp

lemma length_rows: "length (rows lo hi a b) = (\<Sum>i\<in>{a..<b}. nat (hi i - lo i))"
proof -
  have "length (rows lo hi a b) = sum_list (map (\<lambda>i. nat (hi i - lo i)) [a..b - 1])"
    by (simp add: rows_def length_concat comp_def)
  also have "\<dots> = (\<Sum>i\<in>set [a..b - 1]. nat (hi i - lo i))"
    by (intro sum_list_distinct_conv_sum_set) simp
  finally show ?thesis by (simp add: atLeastLessThanPlusOne_atLeastAtMost_int [symmetric])
qed

subsection \<open>Elements\<close>

definition in_rest :: "(int \<Rightarrow> int) \<Rightarrow> (int \<Rightarrow> int) \<Rightarrow> int \<Rightarrow> int \<Rightarrow> int \<Rightarrow> int \<Rightarrow> bool" where
  "in_rest lo hi l c i j \<longleftrightarrow> 0 \<le> i \<and> lo i \<le> j \<and> (i < l \<and> j < hi i \<or> i = l \<and> j \<le> c)"

definition in_taken :: "(int \<Rightarrow> int) \<Rightarrow> (int \<Rightarrow> int) \<Rightarrow> int \<Rightarrow> int \<Rightarrow> int \<Rightarrow> int \<Rightarrow> int \<Rightarrow> bool" where
  "in_taken lo hi nl l c i j \<longleftrightarrow> i < nl \<and> j < hi i \<and> (l < i \<and> lo i \<le> j \<or> i = l \<and> c < j)"

lemma set_rest: "0 \<le> l \<Longrightarrow> (i, j) \<in> set (rest lo hi l c) \<longleftrightarrow> in_rest lo hi l c i j"
  by (auto simp: rest_def in_rest_def)

lemma set_taken: "l < nl \<Longrightarrow> (i, j) \<in> set (taken lo hi nl l c) \<longleftrightarrow> in_taken lo hi nl l c i j"
  by (auto simp: taken_def in_taken_def)

lemma distinct_taken: "distinct (taken lo hi nl l c)"
  by (auto simp: taken_def distinct_row distinct_rows)

lemma distinct_rest: "distinct (rest lo hi l c)"
  by (auto simp: rest_def distinct_row distinct_rows)

subsection \<open>The walk\<close>

definition cursor_ok :: "(int \<Rightarrow> int) \<Rightarrow> (int \<Rightarrow> int) \<Rightarrow> int \<Rightarrow> int \<Rightarrow> int \<Rightarrow> bool" where
  "cursor_ok lo hi nl l c \<longleftrightarrow> 0 \<le> l \<and> l < nl \<and> lo l - 1 \<le> c \<and> c < hi l \<and>
     (\<forall>k. l < k \<and> k < nl \<and> lo k < hi k \<longrightarrow> lo (l + 1) < hi (l + 1))"

text \<open>The contract of a region: layer extents are ordered, and the layers that contribute chunks are
  consecutive, so that a cursor which steps one layer at a time never lands in an empty layer
  while chunks remain beyond it.\<close>

locale region_walk =
  fixes ok :: "'s \<Rightarrow> bool"
    and lo hi :: "'s \<Rightarrow> int \<Rightarrow> int"
    and layers :: "'s \<Rightarrow> int"
  assumes layers_pos: "ok s \<Longrightarrow> 0 < layers s"
    and lo_le_hi: "ok s \<Longrightarrow> 0 \<le> i \<Longrightarrow> i < layers s \<Longrightarrow> lo s i \<le> hi s i"
    and gapless: "ok s \<Longrightarrow> 0 \<le> i \<Longrightarrow> i < k \<Longrightarrow> k < m \<Longrightarrow> m < layers s \<Longrightarrow>
      lo s i < hi s i \<Longrightarrow> lo s m < hi s m \<Longrightarrow> lo s k < hi s k"
begin

text \<open>Nothing is lost and nothing is counted twice.\<close>

lemma split_region:
  assumes "ok s" "cursor_ok (lo s) (hi s) (layers s) l c"
  shows "rest (lo s) (hi s) l c @ taken (lo s) (hi s) (layers s) l c = rows (lo s) (hi s) 0 (layers s)"
proof -
  have c: "0 \<le> l" "l < layers s" "lo s l \<le> c + 1" "c + 1 \<le> hi s l"
    using assms(2) by (auto simp: cursor_ok_def)
  have "rows (lo s) (hi s) 0 (layers s)
      = rows (lo s) (hi s) 0 l @ row l (lo s l) (hi s l) @ rows (lo s) (hi s) (l + 1) (layers s)"
    using c rows_append [of 0 l "layers s" "lo s" "hi s"] rows_Cons [of l "layers s" "lo s" "hi s"]
    by simp
  with row_append [OF c(3,4), of l] show ?thesis by (simp add: rest_def taken_def)
qed

lemma rest_length:
  assumes "ok s" "cursor_ok (lo s) (hi s) (layers s) l c"
  shows "length (rest (lo s) (hi s) l c) + length (taken (lo s) (hi s) (layers s) l c)
    = length (rows (lo s) (hi s) 0 (layers s))"
  by (simp flip: split_region [OF assms])

text \<open>Taking the chunk under the cursor.\<close>

lemma take_chunk:
  assumes "ok s" "cursor_ok (lo s) (hi s) (layers s) l c" "lo s l \<le> c"
  shows "rest (lo s) (hi s) l c = rest (lo s) (hi s) l (c - 1) @ [(l, c)]"
    and "taken (lo s) (hi s) (layers s) l (c - 1) = (l, c) # taken (lo s) (hi s) (layers s) l c"
    and "cursor_ok (lo s) (hi s) (layers s) l (c - 1)"
  using assms row_snoc [of "lo s l" "c + 1" l] row_Cons [of c "hi s l" l]
  by (auto simp: rest_def taken_def cursor_ok_def)

text \<open>Stepping over an exhausted layer.\<close>

lemma skip_layer:
  assumes "ok s" "cursor_ok (lo s) (hi s) (layers s) l c" "c < lo s l" "rest (lo s) (hi s) l c \<noteq> []"
  shows "rest (lo s) (hi s) (l - 1) (hi s (l - 1) - 1) = rest (lo s) (hi s) l c"
    and "taken (lo s) (hi s) (layers s) (l - 1) (hi s (l - 1) - 1) = taken (lo s) (hi s) (layers s) l c"
    and "cursor_ok (lo s) (hi s) (layers s) (l - 1) (hi s (l - 1) - 1)"
proof -
  have c: "0 \<le> l" "l < layers s" "c + 1 = lo s l" "c < hi s l"
    using assms(2,3) by (auto simp: cursor_ok_def)
  from assms(4) c have "rows (lo s) (hi s) 0 l \<noteq> []" by (simp add: rest_def)
  then obtain i where i: "0 \<le> i" "i < l" "lo s i < hi s i" by (auto simp: rows_Nil_iff not_le)
  then have l: "0 < l" by simp
  with rows_snoc [of 0 l "lo s" "hi s"] c
  show "rest (lo s) (hi s) (l - 1) (hi s (l - 1) - 1) = rest (lo s) (hi s) l c"
    by (simp add: rest_def)
  from c rows_Cons [of l "layers s" "lo s" "hi s"]
  show "taken (lo s) (hi s) (layers s) (l - 1) (hi s (l - 1) - 1) = taken (lo s) (hi s) (layers s) l c"
    by (simp add: taken_def)
  have ne: "lo s l < hi s l" if "l < k" "k < layers s" "lo s k < hi s k" for k
    using gapless [OF assms(1) i(1,2) that(1,2) i(3) that(3)] .
  have "lo s l < hi s l" if "l - 1 < k" "k < layers s" "lo s k < hi s k" for k
    using that ne [of k] by (cases "k = l") simp_all
  with l c lo_le_hi [OF assms(1), of "l - 1"] show "cursor_ok (lo s) (hi s) (layers s) (l - 1) (hi s (l - 1) - 1)"
    by (auto simp: cursor_ok_def)
qed

text \<open>Giving back the first taken chunk: the next one of the same layer, or the first one of the next.\<close>

lemma give_same_layer:
  assumes "ok s" "cursor_ok (lo s) (hi s) (layers s) l c" "c + 1 < hi s l"
  shows "taken (lo s) (hi s) (layers s) l c = (l, c + 1) # taken (lo s) (hi s) (layers s) l (c + 1)"
    and "rest (lo s) (hi s) l (c + 1) = rest (lo s) (hi s) l c @ [(l, c + 1)]"
    and "cursor_ok (lo s) (hi s) (layers s) l (c + 1)"
  using assms row_snoc [of "lo s l" "c + 1 + 1" l] row_Cons [of "c + 1" "hi s l" l]
  by (auto simp: rest_def taken_def cursor_ok_def ac_simps)

lemma give_next_layer:
  assumes "ok s" "cursor_ok (lo s) (hi s) (layers s) l c" "\<not> c + 1 < hi s l"
    and ne: "taken (lo s) (hi s) (layers s) l c \<noteq> []"
  shows "l + 1 < layers s"
    and "taken (lo s) (hi s) (layers s) l c
      = (l + 1, lo s (l + 1)) # taken (lo s) (hi s) (layers s) (l + 1) (lo s (l + 1))"
    and "rest (lo s) (hi s) (l + 1) (lo s (l + 1)) = rest (lo s) (hi s) l c @ [(l + 1, lo s (l + 1))]"
    and "cursor_ok (lo s) (hi s) (layers s) (l + 1) (lo s (l + 1))"
proof -
  have c: "0 \<le> l" "l < layers s" "c + 1 = hi s l" "lo s l \<le> c + 1"
    using assms(2,3) by (auto simp: cursor_ok_def)
  from ne c have "rows (lo s) (hi s) (l + 1) (layers s) \<noteq> []" by (simp add: taken_def)
  then obtain k where k: "l < k" "k < layers s" "lo s k < hi s k"
    by (auto simp: rows_Nil_iff not_le add1_zle_eq)
  then show l1: "l + 1 < layers s" by simp
  have nx: "lo s (l + 1) < hi s (l + 1)" using assms(2) k by (auto simp: cursor_ok_def)
  show "taken (lo s) (hi s) (layers s) l c
      = (l + 1, lo s (l + 1)) # taken (lo s) (hi s) (layers s) (l + 1) (lo s (l + 1))"
    using c l1 rows_Cons [of "l + 1" "layers s" "lo s" "hi s"] row_Cons [OF nx, of "l + 1"]
    by (simp add: taken_def add.commute)
  show "rest (lo s) (hi s) (l + 1) (lo s (l + 1)) = rest (lo s) (hi s) l c @ [(l + 1, lo s (l + 1))]"
    using c rows_snoc [of 0 "l + 1" "lo s" "hi s"] row_snoc [of "lo s (l + 1)" "lo s (l + 1) + 1" "l + 1"]
    by (simp add: rest_def)
  have "lo s (l + 2) < hi s (l + 2)" if "l + 1 < m" "m < layers s" "lo s m < hi s m" for m
  proof (cases "m = l + 2")
    case False
    then show ?thesis using that c nx by (intro gapless [OF assms(1), of "l + 1" "l + 2" m]) auto
  qed (use that in simp)
  then show "cursor_ok (lo s) (hi s) (layers s) (l + 1) (lo s (l + 1))"
    using c l1 nx by (auto simp: cursor_ok_def add.assoc)
qed

end

end
