(* ===== verification/Kv_State.thy ===== *)
theory Kv_State
  imports Kv_Plan Byte_Store Region
begin

text \<open>
  The state of \<open>class mzcache_kv_state\<close> (\<open>mzcache/include/mzcache_kv_state.h\<close>), its construction,
  the swap-out plan and runtime growth. One record holds the members of the class together with the
  globals it owns: the SVM pointer table \<open>g_svm_chunk_ptrs\<close>, the SVM memory behind it, the per-layer
  KV store files and the arena swap files.

  Arrays of the class are functions on indices; the operations check an index against the declared
  extents and yield \<open>OutOfBounds\<close> outside them. The K and V buffers of a chunk are always
  allocated, freed, published and looked up together, so one address of the model stands for the
  pair; \<open>contiguous\<close> says whether V directly follows K in one allocation. The operating system, the
  OpenCL runtime and the process environment are the parameter \<open>io_env\<close>, the compression kernels of
  the build the parameter \<open>codec\<close>.
\<close>

datatype fd = Closed | RdOnly | WrOnly

record io_env =
  open_w :: "int \<Rightarrow> bool"                        \<comment> \<open>opening a layer's KV file for writing succeeds\<close>
  open_r :: "int \<Rightarrow> bool"                        \<comment> \<open>opening it for reading succeeds\<close>
  pwrite_n :: "int \<Rightarrow> nat \<Rightarrow> nat \<Rightarrow> nat"         \<comment> \<open>bytes written, by layer, offset and count\<close>
  pread_n :: "int \<Rightarrow> nat \<Rightarrow> nat \<Rightarrow> nat"          \<comment> \<open>bytes read\<close>
  swap_w :: "int \<Rightarrow> bool"                        \<comment> \<open>opening a layer's arena swap file for writing\<close>
  swap_r :: "int \<Rightarrow> bool"
  swap_pwrite_ok :: "int \<Rightarrow> nat \<Rightarrow> nat \<Rightarrow> bool"  \<comment> \<open>\<open>full_pwrite\<close> transfers everything\<close>
  swap_pread_ok :: "int \<Rightarrow> nat \<Rightarrow> nat \<Rightarrow> bool"
  svm_alloc_ok :: "int \<Rightarrow> int \<Rightarrow> bool"          \<comment> \<open>\<open>clSVMAlloc\<close> for a chunk succeeds\<close>
  fresh_mem :: "nat \<Rightarrow> bytes"                    \<comment> \<open>contents of newly allocated memory\<close>
  arena_svm_enabled :: bool                      \<comment> \<open>\<open>MZCACHE_ARENA_SVM=1\<close>\<close>
  arena_svm_ok :: "nat \<Rightarrow> bool"                  \<comment> \<open>aligned \<open>clSVMAlloc\<close> of an arena succeeds\<close>
  mlock_ok :: "nat \<Rightarrow> bool"

record 'm codec =
  enc :: "bool \<Rightarrow> int \<Rightarrow> bytes \<Rightarrow> bytes \<times> 'm"       \<comment> \<open>is key, layer, raw chunk\<close>
  dec :: "bool \<Rightarrow> int \<Rightarrow> int \<Rightarrow> bytes \<Rightarrow> 'm \<Rightarrow> bytes"  \<comment> \<open>is key, layer, chunk, bytes from the chunk's offset on\<close>

record config =
  backend :: compression
  decomp_load_ratio :: rat
  fp_contract :: bool

subsection \<open>Arenas\<close>

text \<open>\<open>pool\<close> holds the used bytes \<open>[pool, pool + top)\<close> of the C++ arena; what lies between \<open>top\<close> and
  \<open>cap\<close> is never read before it is written.\<close>

record arena =
  pool :: bytes
  cap :: nat
  svm :: bool
  locked :: bool
  locked_bytes :: nat

definition arena_top :: "arena \<Rightarrow> nat" where
  "arena_top a = length (pool a)"

definition Arena :: "io_env \<Rightarrow> nat \<Rightarrow> bool \<Rightarrow> arena" where
  "Arena env sz allow_svm =
     \<lparr>pool = [], cap = sz,
      svm = (allow_svm \<and> arena_svm_enabled env \<and> arena_svm_ok env sz),
      locked = False, locked_bytes = 0\<rparr>"

definition lock_used :: "io_env \<Rightarrow> arena \<Rightarrow> arena" where
  "lock_used env a =
     (if svm a \<or> locked a \<or> arena_top a = 0 then a
      else let n = round_up_4k (arena_top a)
           in if mlock_ok env n then a\<lparr>locked := True, locked_bytes := n\<rparr> else a)"

subsection \<open>The state record\<close>

record chunk_mem =
  k_mem :: bytes
  v_mem :: bytes
  contiguous :: bool

record 'm kv_state =
  num_layers :: int
  kv_hidden_dim :: nat
  num_chunks_per_tensor :: int
  per_layer_balance :: int
  default_chunk_bound :: int
  chunk_bound :: "int \<Rightarrow> int"
  cur_layer_idx_to_compress :: int
  cur_layer_idx_to_store :: int
  cur_chunk_idx_to_compress :: int
  cur_chunk_idx_to_store :: int
  max_comp_chunks :: int
  max_store_chunks :: int
  n_cur_comp_chunks :: int
  n_cur_store_chunks :: int
  n_cur_comp_saved_bytes :: int
  n_cur_arena_offload_bytes :: int
  arenas :: "int \<Rightarrow> arena list"
  arena_bytes :: nat
  comp_left :: "int \<Rightarrow> int"
  layer_fds :: "int \<Rightarrow> fd"
  pending_chunks_total :: int
  next_layer_to_offload :: int
  offload_used_bytes :: "int \<Rightarrow> nat list"
  states :: "int \<Rightarrow> int \<Rightarrow> KVstate"
  raw_chunks :: "int \<Rightarrow> int \<Rightarrow> nat option"
  k_comp :: "int \<Rightarrow> int \<Rightarrow> 'm compressed_chunk"
  v_comp :: "int \<Rightarrow> int \<Rightarrow> 'm compressed_chunk"
  k_stored :: "int \<Rightarrow> int \<Rightarrow> stored_chunk"
  v_stored :: "int \<Rightarrow> int \<Rightarrow> stored_chunk"
  svm_chunk_ptrs :: "int \<Rightarrow> int \<Rightarrow> nat option"
  svm_mem :: "nat \<Rightarrow> chunk_mem option"
  svm_next :: nat
  kv_file :: "int \<Rightarrow> filedata"
  swap_file :: "int \<Rightarrow> bytes option"

definition upd2 :: "('a \<Rightarrow> 'b \<Rightarrow> 'c) \<Rightarrow> 'a \<Rightarrow> 'b \<Rightarrow> 'c \<Rightarrow> ('a \<Rightarrow> 'b \<Rightarrow> 'c)" where
  "upd2 f i j v = f(i := (f i)(j := v))"

lemma upd2_apply [simp]: "upd2 f i j v a b = (if a = i \<and> b = j then v else f a b)"
  by (simp add: upd2_def)

definition idx_ok :: "int \<Rightarrow> int \<Rightarrow> bool" where
  "idx_ok L C \<longleftrightarrow> 0 \<le> L \<and> L < MAX_NUM_LAYERS \<and> 0 \<le> C \<and> C < MAX_CHUNKS_PER_TENSOR"

subsection \<open>Sizes that depend on the backend\<close>

definition comp_bound :: "compression \<Rightarrow> nat \<Rightarrow> nat" where
  "comp_bound b raw_chunk =
     (case b of FLEXGEN_8BIT \<Rightarrow> raw_chunk * 17 div 32
              | FLEXGEN \<Rightarrow> raw_chunk * 9 div 32
              | _ \<Rightarrow> raw_chunk)"

definition arena_pool_bytes :: "compression \<Rightarrow> nat \<Rightarrow> int \<Rightarrow> nat" where
  "arena_pool_bytes b h N = round_up_4k (nat N * comp_bound b (kv_raw_size h))"

text \<open>Metadata bytes that \<open>mzcache_compress_chunks\<close> adds to the size of a compressed pair.\<close>

definition comp_meta_bytes :: "compression \<Rightarrow> nat \<Rightarrow> nat" where
  "comp_meta_bytes b h =
     (case b of FLEXGEN \<Rightarrow> 2 * TOKENS_PER_CHUNK * h * 2 div 32
              | FLEXGEN_8BIT \<Rightarrow> 2 * TOKENS_PER_CHUNK * h * 2 div 32
              | CACHEGEN \<Rightarrow> 2 * (TOKENS_PER_CHUNK div MAX_TOKENS_PER_CHUNK * h
                                + TOKENS_PER_CHUNK div MAX_TOKENS_PER_CHUNK * 2)
              | NONE \<Rightarrow> 0)"

subsection \<open>The swap-out plan\<close>

definition derive_swapout_plan :: "config \<Rightarrow> 'm kv_state \<Rightarrow> 'm kv_state" where
  "derive_swapout_plan cfg s =
     (let N = num_chunks_per_tensor s; L = num_layers s; r = decomp_load_ratio cfg;
          cb = chunk_bound_loop (fp_contract cfg) r N (per_layer_balance s * L) (nat L) 0 0 True
                 (chunk_bound s);
          mx = max_chunks_loop N cb (nat L) 0 (0, 0)
      in s\<lparr>default_chunk_bound := default_bound r N,
           chunk_bound := cb,
           max_comp_chunks := fst mx,
           max_store_chunks := snd mx,
           cur_layer_idx_to_compress := L - 1,
           cur_layer_idx_to_store := L - 1,
           cur_chunk_idx_to_compress := cb (L - 1) - 1,
           cur_chunk_idx_to_store := N - 1\<rparr>)"

subsection \<open>Construction\<close>

datatype soc_class = SM8750 | SM8650 | UNKNOWN

text \<open>The hard-coded balance table of the constructor. \<open>None\<close>: no branch assigns the member.\<close>

definition legacy_balance :: "compression \<Rightarrow> string \<Rightarrow> soc_class \<Rightarrow> int option" where
  "legacy_balance b model_name soc =
     (case b of
        CACHEGEN \<Rightarrow>
          if model_name = ''EXAONE-4.0-1.2B'' then Some (if soc = SM8750 then 40 else - 1)
          else if model_name = ''Qwen3-0.6B'' then Some (if soc = SM8750 then 10 else - 1)
          else None
      | NONE \<Rightarrow> None
      | _ \<Rightarrow>
          if model_name = ''EXAONE-4.0-1.2B'' then Some (if soc = SM8750 then 240 else 140)
          else if model_name = ''Qwen3-0.6B'' then Some (if soc = SM8750 then 57 else 36)
          else None)"

text \<open>The value \<open>per_layer_balance\<close> ends up with: the profiled value if positive, else the table;
  \<open>MZCACHE_PER_LAYER_BALANCE\<close> overrides both when it parses to a positive number.\<close>

definition select_balance ::
  "compression \<Rightarrow> string \<Rightarrow> soc_class \<Rightarrow> int \<Rightarrow> int option \<Rightarrow> int option" where
  "select_balance b model_name soc profiled env_override =
     (let base = (if profiled > 0 then Some profiled else legacy_balance b model_name soc)
      in case env_override of None \<Rightarrow> base | Some v \<Rightarrow> if v > 0 then Some v else base)"

fun init_chunks ::
  "(int \<Rightarrow> int \<Rightarrow> nat option) \<Rightarrow> int \<Rightarrow> nat \<Rightarrow> int \<Rightarrow> 'm kv_state \<Rightarrow> 'm kv_state result" where
  "init_chunks tbl i 0 j s = Ok s"
| "init_chunks tbl i (Suc k) j s =
     (case tbl i j of
        None \<Rightarrow> Err (RuntimeError ''Chunk tensor is null in the kv_cache.'')
      | Some a \<Rightarrow> init_chunks tbl i k (j + 1)
          (s\<lparr>raw_chunks := upd2 (raw_chunks s) i j (Some a), states := upd2 (states s) i j Raw\<rparr>))"

fun init_layers ::
  "(int \<Rightarrow> int \<Rightarrow> nat option) \<Rightarrow> nat \<Rightarrow> int \<Rightarrow> 'm kv_state \<Rightarrow> 'm kv_state result" where
  "init_layers tbl 0 i s = Ok s"
| "init_layers tbl (Suc k) i s =
     bind_result (init_chunks tbl i (nat (num_chunks_per_tensor s)) 0 s) (init_layers tbl k (i + 1))"

text \<open>The constructor, applied to a state \<open>s0\<close> that carries the globals (pointer table and memory)
  and arbitrary values in the members the constructor assigns.\<close>

definition mzcache_kv_state ::
  "config \<Rightarrow> int \<Rightarrow> nat \<Rightarrow> int \<Rightarrow> int \<Rightarrow> 'm kv_state \<Rightarrow> 'm kv_state result" where
  "mzcache_kv_state cfg L h N balance s0 =
     (let s = s0\<lparr>num_layers := L, kv_hidden_dim := h, num_chunks_per_tensor := N,
                 max_comp_chunks := 0, max_store_chunks := 0,
                 n_cur_comp_chunks := 0, n_cur_store_chunks := 0,
                 n_cur_comp_saved_bytes := 0, n_cur_arena_offload_bytes := 0,
                 arenas := (\<lambda>_. []), offload_used_bytes := (\<lambda>_. []), comp_left := (\<lambda>_. 0),
                 pending_chunks_total := 0,
                 arena_bytes := arena_pool_bytes (backend cfg) h N,
                 layer_fds := (\<lambda>_. Closed),
                 per_layer_balance := balance\<rparr>;
          s' = (derive_swapout_plan cfg s)\<lparr>next_layer_to_offload := L - 1\<rparr>
      in init_layers (svm_chunk_ptrs s') (nat L) 0 s')"

subsection \<open>Runtime growth\<close>

text \<open>The per-layer loop of \<open>register_grown_chunks\<close>: a missing chunk ends the whole function early,
  after the layers and chunks before it were registered.\<close>

fun grow_chunks :: "int \<Rightarrow> nat \<Rightarrow> int \<Rightarrow> 'm kv_state \<Rightarrow> 'm kv_state \<times> bool" where
  "grow_chunks i 0 j s = (s, True)"
| "grow_chunks i (Suc k) j s =
     (case svm_chunk_ptrs s i j of
        None \<Rightarrow> (s, False)
      | Some a \<Rightarrow> grow_chunks i k (j + 1)
          (s\<lparr>raw_chunks := upd2 (raw_chunks s) i j (Some a), states := upd2 (states s) i j Raw\<rparr>))"

fun grow_layers :: "int \<Rightarrow> int \<Rightarrow> nat \<Rightarrow> int \<Rightarrow> 'm kv_state \<Rightarrow> 'm kv_state \<times> bool" where
  "grow_layers old_count n_chunks_total 0 i s = (s, True)"
| "grow_layers old_count n_chunks_total (Suc k) i s =
     (let (s', ok) = grow_chunks i (nat (n_chunks_total - old_count)) old_count s
      in if ok then grow_layers old_count n_chunks_total k (i + 1) s' else (s', False))"

definition clean_ladder :: "'m kv_state \<Rightarrow> bool" where
  "clean_ladder s \<longleftrightarrow>
     n_cur_comp_chunks s = 0 \<and> n_cur_store_chunks s = 0 \<and> n_cur_arena_offload_bytes s = 0"

definition register_grown_chunks :: "config \<Rightarrow> int \<Rightarrow> 'm kv_state \<Rightarrow> 'm kv_state" where
  "register_grown_chunks cfg n_chunks_total s =
     (if n_chunks_total \<le> num_chunks_per_tensor s then s
      else if n_chunks_total > MAX_CHUNKS_PER_TENSOR then s
      else if \<not> clean_ladder s then
        s\<lparr>pending_chunks_total := max (pending_chunks_total s) n_chunks_total\<rparr>
      else
        let (s', ok) = grow_layers (num_chunks_per_tensor s) n_chunks_total (nat (num_layers s)) 0 s
        in if ok then derive_swapout_plan cfg (s'\<lparr>num_chunks_per_tensor := n_chunks_total\<rparr>) else s')"

definition apply_pending_growth :: "config \<Rightarrow> 'm kv_state \<Rightarrow> 'm kv_state" where
  "apply_pending_growth cfg s =
     (if pending_chunks_total s > num_chunks_per_tensor s then
        register_grown_chunks cfg (pending_chunks_total s) (s\<lparr>pending_chunks_total := 0\<rparr>)
      else s\<lparr>pending_chunks_total := 0\<rparr>)"

end
