(* ===== verification/Kv_Swapout.thy ===== *)
theory Kv_Swapout
  imports Kv_State
begin

text \<open>
  The swap-out half of \<open>mzcache_kv_state\<close>: compressing chunks into the arenas, storing chunks to the
  per-layer files, locking the resident arenas and offloading whole layers of arenas to swap files.
\<close>

subsection \<open>Compression\<close>

function compress_seek :: "(int \<Rightarrow> int) \<Rightarrow> int \<Rightarrow> int \<Rightarrow> int \<times> int" where
  "compress_seek cb l c =
     (if l \<ge> 0 \<and> c < 0 then
        let l' = l - 1 in compress_seek cb l' (if l' \<ge> 0 then cb l' - 1 else c)
      else (l, c))"
  by pat_completeness auto
termination
  by (relation "measure (\<lambda>(cb, l, c). nat (l + 1))") auto

declare compress_seek.simps [simp del]

text \<open>The arena a pair is written to: the layer's last one, a fresh one if there is none or if the
  raw size of a pair would not fit.\<close>

definition pick_arena :: "io_env \<Rightarrow> nat \<Rightarrow> nat \<Rightarrow> arena list \<Rightarrow> arena list" where
  "pick_arena env bytes raw as =
     (let as0 = (if as = [] then [Arena env bytes True] else as)
      in if arena_top (last as0) + raw > cap (last as0) then as0 @ [Arena env bytes True] else as0)"

definition append_pool :: "arena \<Rightarrow> bytes \<Rightarrow> arena" where
  "append_pool a bs = a\<lparr>pool := pool a @ bs\<rparr>"

text \<open>The bookkeeping of one compressed pair: the bytes go to the end of the last arena of \<open>as\<close>, the
  metadata records where, the raw memory at \<open>a\<close> is freed and unpublished, the cursor moves down.\<close>

definition compress_update ::
  "'m kv_state \<Rightarrow> int \<Rightarrow> int \<Rightarrow> nat \<Rightarrow> arena list \<Rightarrow> bytes \<times> 'm \<Rightarrow> bytes \<times> 'm \<Rightarrow> nat \<Rightarrow> 'm kv_state" where
  "compress_update s L C a as k v tot =
     (let top0 = arena_top (last as); sid = length as - 1 in
      s\<lparr>arenas := (arenas s)(L := butlast as @ [append_pool (last as) (fst k @ fst v)]),
        k_comp := upd2 (k_comp s) L C
          \<lparr>stack_id = sid, offset = top0, comp_size = length (fst k), meta = snd k\<rparr>,
        v_comp := upd2 (v_comp s) L C
          \<lparr>stack_id = sid, offset = top0 + length (fst k), comp_size = length (fst v), meta = snd v\<rparr>,
        states := upd2 (states s) L C Compressed,
        svm_mem := (svm_mem s)(a := None),
        svm_chunk_ptrs := upd2 (svm_chunk_ptrs s) L C None,
        cur_chunk_idx_to_compress := C - 1,
        n_cur_comp_chunks := n_cur_comp_chunks s + 1,
        n_cur_comp_saved_bytes :=
          n_cur_comp_saved_bytes s + int (kv_raw_size (kv_hidden_dim s)) - int tot\<rparr>)"

text \<open>One iteration of \<open>mzcache_compress_chunks\<close> at the cursor. Without a backend (\<open>NONE\<close>) the source
  uses its size variables uninitialised; writing past the arena is out of bounds. The result carries
  the bytes the iteration adds to \<open>total_compressed_size\<close>.\<close>

definition compress_one ::
  "io_env \<Rightarrow> config \<Rightarrow> 'm codec \<Rightarrow> 'm kv_state \<Rightarrow> ('m kv_state \<times> nat) result" where
  "compress_one env cfg cd s =
     (let L = cur_layer_idx_to_compress s; C = cur_chunk_idx_to_compress s; h = kv_hidden_dim s in
      if \<not> idx_ok L C then Err OutOfBounds
      else if backend cfg = NONE then Err (Abort ''key_comp_size'')
      else case raw_chunks s L C of
        None \<Rightarrow> Err UseAfterFree
      | Some a \<Rightarrow> (case svm_mem s a of
          None \<Rightarrow> Err UseAfterFree
        | Some m \<Rightarrow>
           let as = pick_arena env (arena_bytes s) (kv_raw_size h) (arenas s L);
               k = enc cd True L (k_mem m);
               v = enc cd False L (v_mem m);
               tot = length (fst k) + length (fst v) + comp_meta_bytes (backend cfg) h
           in if arena_top (last as) + length (fst k) + length (fst v) > cap (last as)
              then Err OutOfBounds
              else Ok (compress_update s L C a as k v tot, tot)))"

fun compress_loop ::
  "io_env \<Rightarrow> config \<Rightarrow> 'm codec \<Rightarrow> nat \<Rightarrow> 'm kv_state \<Rightarrow> nat \<Rightarrow> ('m kv_state \<times> nat) result" where
  "compress_loop env cfg cd 0 s tot = Ok (s, tot)"
| "compress_loop env cfg cd (Suc n) s tot =
     (let (l, c) = compress_seek (chunk_bound s) (cur_layer_idx_to_compress s)
                     (cur_chunk_idx_to_compress s);
          s' = s\<lparr>cur_layer_idx_to_compress := l, cur_chunk_idx_to_compress := c\<rparr>
      in if l < 0 then Ok (s', tot)
         else bind_result (compress_one env cfg cd s')
                (\<lambda>(s'', d). compress_loop env cfg cd n s'' (tot + d)))"

definition mzcache_compress_chunks ::
  "io_env \<Rightarrow> config \<Rightarrow> 'm codec \<Rightarrow> int \<Rightarrow> 'm kv_state \<Rightarrow> ('m kv_state \<times> nat) result" where
  "mzcache_compress_chunks env cfg cd num_chunks s = compress_loop env cfg cd (nat num_chunks) s 0"

definition mlock_resident_arenas :: "io_env \<Rightarrow> 'm kv_state \<Rightarrow> 'm kv_state" where
  "mlock_resident_arenas env s =
     s\<lparr>arenas := (\<lambda>i. if 0 \<le> i \<and> i < num_layers s then map (lock_used env) (arenas s i)
                     else arenas s i)\<rparr>"

subsection \<open>Storing\<close>

function store_seek ::
  "(int \<Rightarrow> int) \<Rightarrow> int \<Rightarrow> (int \<Rightarrow> fd) \<Rightarrow> int \<Rightarrow> int \<Rightarrow> (int \<Rightarrow> fd) \<times> int \<times> int" where
  "store_seek cb N fds l c =
     (if l \<ge> 0 \<and> c < cb l then store_seek cb N (fds(l := Closed)) (l - 1) (N - 1)
      else (fds, l, c))"
  by pat_completeness auto
termination
  by (relation "measure (\<lambda>(cb, N, fds, l, c). nat (l + 1))") auto

declare store_seek.simps [simp del]

definition store_update ::
  "'m kv_state \<Rightarrow> int \<Rightarrow> int \<Rightarrow> nat \<Rightarrow> nat \<Rightarrow> filedata \<Rightarrow> 'm kv_state" where
  "store_update s L C a off_k f =
     (let rb = raw_chunk_bytes (kv_hidden_dim s) in
      s\<lparr>kv_file := (kv_file s)(L := f),
        k_stored := upd2 (k_stored s) L C \<lparr>file_offset = off_k, stored_size = rb\<rparr>,
        v_stored := upd2 (v_stored s) L C \<lparr>file_offset = off_k + rb, stored_size = rb\<rparr>,
        states := upd2 (states s) L C Stored,
        svm_mem := (svm_mem s)(a := None),
        svm_chunk_ptrs := upd2 (svm_chunk_ptrs s) L C None,
        cur_chunk_idx_to_store := C - 1,
        n_cur_store_chunks := n_cur_store_chunks s + 1\<rparr>)"

text \<open>One iteration of \<open>mzcache_store_chunks\<close> at the cursor; \<open>False\<close> is the early return when the
  file cannot be opened. A write on a descriptor that is not open for writing transfers nothing.
  A short or failed write is only reported.\<close>

definition store_one :: "io_env \<Rightarrow> 'm kv_state \<Rightarrow> ('m kv_state \<times> bool) result" where
  "store_one env s =
     (let L = cur_layer_idx_to_store s; C = cur_chunk_idx_to_store s;
          rb = raw_chunk_bytes (kv_hidden_dim s) in
      if \<not> idx_ok L C then Err OutOfBounds
      else if layer_fds s L = Closed \<and> \<not> open_w env L then Ok (s, False)
      else
        let fdL = (if layer_fds s L = Closed then WrOnly else layer_fds s L);
            off_k = nat ((C - chunk_bound s L) * int (rb * 2));
            off_v = off_k + rb;
            n = (\<lambda>off. if fdL = WrOnly then pwrite_n env L off rb else 0)
        in case raw_chunks s L C of
             None \<Rightarrow> Err UseAfterFree
           | Some a \<Rightarrow> (case svm_mem s a of
               None \<Rightarrow> Err UseAfterFree
             | Some m \<Rightarrow>
                 let f = pwrite (pwrite (kv_file s L) off_k (take rb (k_mem m)) (n off_k))
                           off_v (take rb (v_mem m)) (n off_v)
                 in Ok (store_update (s\<lparr>layer_fds := (layer_fds s)(L := fdL)\<rparr>) L C a off_k f, True)))"

fun store_loop :: "io_env \<Rightarrow> nat \<Rightarrow> 'm kv_state \<Rightarrow> 'm kv_state result" where
  "store_loop env 0 s = Ok s"
| "store_loop env (Suc n) s =
     (let (fds, l, c) = store_seek (chunk_bound s) (num_chunks_per_tensor s) (layer_fds s)
                          (cur_layer_idx_to_store s) (cur_chunk_idx_to_store s);
          s' = s\<lparr>layer_fds := fds, cur_layer_idx_to_store := l, cur_chunk_idx_to_store := c\<rparr>
      in if l < 0 then Ok s'
         else bind_result (store_one env s')
                (\<lambda>(s'', go). if go then store_loop env n s'' else Ok s''))"

definition mzcache_store_chunks :: "io_env \<Rightarrow> int \<Rightarrow> 'm kv_state \<Rightarrow> 'm kv_state result" where
  "mzcache_store_chunks env num_chunks s = store_loop env (nat num_chunks) s"

definition close_fds :: "'m kv_state \<Rightarrow> 'm kv_state" where
  "close_fds s = s\<lparr>layer_fds := (\<lambda>l. if 0 \<le> l \<and> l < num_layers s then Closed else layer_fds s l)\<rparr>"

definition mzcache_close_stored_files :: "'m kv_state \<Rightarrow> 'm kv_state" where
  "mzcache_close_stored_files s = close_fds s"

subsection \<open>Arena offload\<close>

text \<open>\<open>full_pwrite\<close> repeats \<open>pwrite\<close> until everything is transferred, an error occurs or a call
  transfers nothing. \<open>step k done\<close> is the outcome of the \<open>k\<close>-th system call after \<open>done\<close> bytes: \<open>None\<close>
  an error other than \<open>EINTR\<close>, \<open>Some None\<close> an interrupted call, \<open>Some (Some n)\<close> a transfer of \<open>n\<close>.
  The fuel bounds the calls; a run that is interrupted forever has no result.\<close>

fun full_io :: "(nat \<Rightarrow> nat \<Rightarrow> nat option option) \<Rightarrow> nat \<Rightarrow> nat \<Rightarrow> nat \<Rightarrow> nat \<Rightarrow> nat option option" where
  "full_io step fuel k count done =
     (if count \<le> done then Some (Some done)
      else case fuel of 0 \<Rightarrow> None
        | Suc f \<Rightarrow> (case step k done of
            None \<Rightarrow> Some None
          | Some None \<Rightarrow> full_io step f (Suc k) count done
          | Some (Some n) \<Rightarrow> if n = 0 then Some (Some done)
                             else full_io step f (Suc k) count (done + n)))"

declare full_io.simps [simp del]

text \<open>The arenas of a layer, packed back to back, each padded with zeros to a multiple of 4096.\<close>

definition padded_pool :: "bytes \<Rightarrow> bytes" where
  "padded_pool p = p @ replicate (round_up_4k (length p) - length p) 0"

fun offload_loop ::
  "io_env \<Rightarrow> int \<Rightarrow> arena list \<Rightarrow> bytes \<Rightarrow> nat list \<Rightarrow> (bytes \<times> nat list \<times> bool)" where
  "offload_loop env layer [] out used = (out, used, True)"
| "offload_loop env layer (a # as) out used =
     (if arena_top a = 0 then offload_loop env layer as out (used @ [0])
      else if swap_pwrite_ok env layer (length out) (round_up_4k (arena_top a)) then
        offload_loop env layer as (out @ padded_pool (pool a)) (used @ [arena_top a])
      else (out, used, False))"

definition mzcache_offload_arenas :: "io_env \<Rightarrow> 'm kv_state \<Rightarrow> 'm kv_state \<times> int" where
  "mzcache_offload_arenas env s =
     (let layer = next_layer_to_offload s in
      if layer < 0 then (s, 0)
      else if \<not> swap_w env layer then (s, 0)
      else
        let (out, used, ok) = offload_loop env layer (arenas s layer) [] [];
            s' = s\<lparr>swap_file := (swap_file s)(layer := Some out),
                   offload_used_bytes := (offload_used_bytes s)(layer := used)\<rparr>
        in if \<not> ok then (s', 0)
           else (s'\<lparr>arenas := (arenas s)(layer := []),
                    next_layer_to_offload := layer - 1,
                    n_cur_arena_offload_bytes := n_cur_arena_offload_bytes s + int (length out)\<rparr>,
                 int (length out)))"

end
