(* ===== verification/Kv_View.thy ===== *)
theory Kv_View
  imports Kv_Swapout
begin

text \<open>
  What the KV state means: the logical content of a chunk, wherever it currently lives, and the
  invariant between operations. The two regions are interpretations of \<open>region_walk\<close>; the
  contract of a compression backend is the locale \<open>kv_codec\<close>.
\<close>

definition plan_ok :: "'m kv_state \<Rightarrow> bool" where
  "plan_ok s \<longleftrightarrow>
     0 < num_layers s \<and> num_layers s \<le> MAX_NUM_LAYERS \<and>
     0 < num_chunks_per_tensor s \<and> num_chunks_per_tensor s \<le> MAX_CHUNKS_PER_TENSOR \<and>
     (\<forall>i. 0 \<le> i \<and> i < num_layers s \<longrightarrow> 0 \<le> chunk_bound s i \<and> chunk_bound s i \<le> num_chunks_per_tensor s) \<and>
     (\<forall>i j. 0 \<le> i \<and> i \<le> j \<and> j < num_layers s \<longrightarrow>
        (chunk_bound s i = 0 \<longrightarrow> chunk_bound s j = 0) \<and>
        (chunk_bound s j = num_chunks_per_tensor s \<longrightarrow> chunk_bound s i = num_chunks_per_tensor s))"

lemma plan_okD:
  assumes "plan_ok s"
  shows "0 < num_layers s" "num_layers s \<le> MAX_NUM_LAYERS"
    "0 < num_chunks_per_tensor s" "num_chunks_per_tensor s \<le> MAX_CHUNKS_PER_TENSOR"
    "0 \<le> i \<Longrightarrow> i < num_layers s \<Longrightarrow> 0 \<le> chunk_bound s i"
    "0 \<le> i \<Longrightarrow> i < num_layers s \<Longrightarrow> chunk_bound s i \<le> num_chunks_per_tensor s"
    "0 \<le> i \<Longrightarrow> i \<le> j \<Longrightarrow> j < num_layers s \<Longrightarrow> chunk_bound s i = 0 \<Longrightarrow> chunk_bound s j = 0"
    "0 \<le> i \<Longrightarrow> i \<le> j \<Longrightarrow> j < num_layers s \<Longrightarrow> chunk_bound s j = num_chunks_per_tensor s \<Longrightarrow>
       chunk_bound s i = num_chunks_per_tensor s"
  using assms unfolding plan_ok_def by blast+

lemma plan_ok_cong:
  "num_layers t = num_layers s \<Longrightarrow> num_chunks_per_tensor t = num_chunks_per_tensor s \<Longrightarrow>
   chunk_bound t = chunk_bound s \<Longrightarrow> plan_ok t = plan_ok s"
  by (simp add: plan_ok_def)

interpretation creg: region_walk plan_ok "\<lambda>s i. 0" chunk_bound num_layers
proof
  fix s :: "'m kv_state" and i k m :: int
  assume "plan_ok s" "0 \<le> i" "i < k" "k < m" "m < num_layers s" "0 < chunk_bound s m"
  then show "0 < chunk_bound s k"
    using plan_okD(5) [of s k] plan_okD(7) [of s k m] by linarith
qed (simp_all add: plan_okD)

interpretation sreg: region_walk plan_ok chunk_bound "\<lambda>s i. num_chunks_per_tensor s" num_layers
proof
  fix s :: "'m kv_state" and i k m :: int
  assume "plan_ok s" "0 \<le> i" "i < k" "k < m" "m < num_layers s"
    "chunk_bound s i < num_chunks_per_tensor s"
  then show "chunk_bound s k < num_chunks_per_tensor s"
    using plan_okD(6) [of s k] plan_okD(8) [of s i k] by linarith
qed (simp_all add: plan_okD)

abbreviation comp_taken :: "'m kv_state \<Rightarrow> (int \<times> int) list" where
  "comp_taken s \<equiv> taken (\<lambda>i. 0) (chunk_bound s) (num_layers s)
     (cur_layer_idx_to_compress s) (cur_chunk_idx_to_compress s)"

abbreviation comp_rest :: "'m kv_state \<Rightarrow> (int \<times> int) list" where
  "comp_rest s \<equiv> rest (\<lambda>i. 0) (chunk_bound s)
     (cur_layer_idx_to_compress s) (cur_chunk_idx_to_compress s)"

abbreviation store_taken :: "'m kv_state \<Rightarrow> (int \<times> int) list" where
  "store_taken s \<equiv> taken (chunk_bound s) (\<lambda>i. num_chunks_per_tensor s) (num_layers s)
     (cur_layer_idx_to_store s) (cur_chunk_idx_to_store s)"

abbreviation store_rest :: "'m kv_state \<Rightarrow> (int \<times> int) list" where
  "store_rest s \<equiv> rest (chunk_bound s) (\<lambda>i. num_chunks_per_tensor s)
     (cur_layer_idx_to_store s) (cur_chunk_idx_to_store s)"

abbreviation rbytes :: "'m kv_state \<Rightarrow> nat" where
  "rbytes s \<equiv> raw_chunk_bytes (kv_hidden_dim s)"

definition chunk_ix :: "'m kv_state \<Rightarrow> int \<Rightarrow> int \<Rightarrow> bool" where
  "chunk_ix s i j \<longleftrightarrow> 0 \<le> i \<and> i < num_layers s \<and> 0 \<le> j \<and> j < num_chunks_per_tensor s"

subsection \<open>Content\<close>

fun unpack_pools :: "bytes \<Rightarrow> nat list \<Rightarrow> bytes list" where
  "unpack_pools f [] = []"
| "unpack_pools f (u # us) = take u f # unpack_pools (drop (round_up_4k u) f) us"

definition layer_pools :: "'m kv_state \<Rightarrow> int \<Rightarrow> bytes list" where
  "layer_pools s i =
     (if i > next_layer_to_offload s then
        (case swap_file s i of None \<Rightarrow> [] | Some f \<Rightarrow> unpack_pools f (offload_used_bytes s i))
      else map pool (arenas s i))"

definition decoded :: "'m codec \<Rightarrow> bool \<Rightarrow> int \<Rightarrow> int \<Rightarrow> bytes list \<Rightarrow> 'm compressed_chunk \<Rightarrow> bytes" where
  "decoded cd key i j ps cc = dec cd key i j (drop (offset cc) (ps ! stack_id cc)) (meta cc)"

definition chunk_view :: "'m codec \<Rightarrow> 'm kv_state \<Rightarrow> int \<Rightarrow> int \<Rightarrow> (bytes \<times> bytes) option" where
  "chunk_view cd s i j =
     (case states s i j of
        Raw \<Rightarrow> (case raw_chunks s i j of None \<Rightarrow> None
                | Some a \<Rightarrow> map_option (\<lambda>m. (k_mem m, v_mem m)) (svm_mem s a))
      | Compressed \<Rightarrow> Some (decoded cd True i j (layer_pools s i) (k_comp s i j),
                            decoded cd False i j (layer_pools s i) (v_comp s i j))
      | Stored \<Rightarrow> Some (read_at (kv_file s i) (file_offset (k_stored s i j)) (rbytes s),
                        read_at (kv_file s i) (file_offset (v_stored s i j)) (rbytes s)))"

text \<open>What compression followed by decompression makes of a chunk.\<close>

definition lossy1 :: "'m codec \<Rightarrow> bool \<Rightarrow> int \<Rightarrow> int \<Rightarrow> bytes \<Rightarrow> bytes" where
  "lossy1 cd key i j raw = (let (b, m) = enc cd key i raw in dec cd key i j b m)"

definition lossy :: "'m codec \<Rightarrow> int \<Rightarrow> int \<Rightarrow> bytes \<times> bytes \<Rightarrow> bytes \<times> bytes" where
  "lossy cd i j kv = (lossy1 cd True i j (fst kv), lossy1 cd False i j (snd kv))"

subsection \<open>Invariant\<close>

definition expected_state :: "'m kv_state \<Rightarrow> int \<Rightarrow> int \<Rightarrow> KVstate" where
  "expected_state s i j =
     (if (i, j) \<in> set (comp_taken s) then Compressed
      else if (i, j) \<in> set (store_taken s) then Stored else Raw)"

definition cursors_ok :: "'m kv_state \<Rightarrow> bool" where
  "cursors_ok s \<longleftrightarrow> plan_ok s \<and>
     cursor_ok (\<lambda>i. 0) (chunk_bound s) (num_layers s)
       (cur_layer_idx_to_compress s) (cur_chunk_idx_to_compress s) \<and>
     cursor_ok (chunk_bound s) (\<lambda>i. num_chunks_per_tensor s) (num_layers s)
       (cur_layer_idx_to_store s) (cur_chunk_idx_to_store s) \<and>
     n_cur_comp_chunks s = int (length (comp_taken s)) \<and>
     n_cur_store_chunks s = int (length (store_taken s)) \<and>
     max_comp_chunks s = int (length (rows (\<lambda>i. 0) (chunk_bound s) 0 (num_layers s))) \<and>
     max_store_chunks s =
       int (length (rows (chunk_bound s) (\<lambda>i. num_chunks_per_tensor s) 0 (num_layers s)))"

definition states_ok :: "'m kv_state \<Rightarrow> bool" where
  "states_ok s \<longleftrightarrow> (\<forall>i j. chunk_ix s i j \<longrightarrow> states s i j = expected_state s i j)"

definition raw_ok :: "'m kv_state \<Rightarrow> int \<Rightarrow> int \<Rightarrow> bool" where
  "raw_ok s i j \<longleftrightarrow>
     (\<exists>a m. raw_chunks s i j = Some a \<and> svm_chunk_ptrs s i j = Some a \<and> a < svm_next s \<and>
        svm_mem s a = Some m \<and> length (k_mem m) = rbytes s \<and> length (v_mem m) = rbytes s)"

definition stored_ok :: "'m kv_state \<Rightarrow> int \<Rightarrow> int \<Rightarrow> bool" where
  "stored_ok s i j \<longleftrightarrow>
     chunk_bound s i \<le> j \<and>
     file_offset (k_stored s i j) = nat (j - chunk_bound s i) * (2 * rbytes s) \<and>
     file_offset (v_stored s i j) = nat (j - chunk_bound s i) * (2 * rbytes s) + rbytes s"

definition encoded_at :: "'m codec \<Rightarrow> nat \<Rightarrow> bool \<Rightarrow> int \<Rightarrow> bytes list \<Rightarrow> 'm compressed_chunk \<Rightarrow> bool" where
  "encoded_at cd rb key i ps cc \<longleftrightarrow>
     stack_id cc < length ps \<and>
     (\<exists>raw pre post. length raw = rb \<and> ps ! stack_id cc = pre @ fst (enc cd key i raw) @ post \<and>
        offset cc = length pre \<and> comp_size cc = length (fst (enc cd key i raw)) \<and>
        meta cc = snd (enc cd key i raw))"

definition comp_ok :: "'m codec \<Rightarrow> 'm kv_state \<Rightarrow> int \<Rightarrow> int \<Rightarrow> bool" where
  "comp_ok cd s i j \<longleftrightarrow>
     encoded_at cd (rbytes s) True i (layer_pools s i) (k_comp s i j) \<and>
     encoded_at cd (rbytes s) False i (layer_pools s i) (v_comp s i j) \<and>
     stack_id (v_comp s i j) = stack_id (k_comp s i j)"

definition data_ok :: "'m codec \<Rightarrow> 'm kv_state \<Rightarrow> bool" where
  "data_ok cd s \<longleftrightarrow> (\<forall>i j. chunk_ix s i j \<longrightarrow>
     (case states s i j of Raw \<Rightarrow> raw_ok s i j
      | Compressed \<Rightarrow> svm_chunk_ptrs s i j = None \<and> comp_ok cd s i j
      | Stored \<Rightarrow> svm_chunk_ptrs s i j = None \<and> stored_ok s i j))"

definition addrs_ok :: "'m kv_state \<Rightarrow> bool" where
  "addrs_ok s \<longleftrightarrow> (\<forall>i j i' j'. chunk_ix s i j \<and> chunk_ix s i' j' \<and>
     states s i j = Raw \<and> states s i' j' = Raw \<and> raw_chunks s i j = raw_chunks s i' j' \<longrightarrow>
     i = i' \<and> j = j')"

definition arenas_ok :: "'m kv_state \<Rightarrow> bool" where
  "arenas_ok s \<longleftrightarrow>
     - 1 \<le> next_layer_to_offload s \<and> next_layer_to_offload s < num_layers s \<and>
     (next_layer_to_offload s < num_layers s - 1 \<longrightarrow> comp_rest s = []) \<and>
     (\<forall>i. 0 \<le> i \<and> i < num_layers s \<longrightarrow>
        (if i > next_layer_to_offload s
         then arenas s i = [] \<and>
           (\<exists>pls. swap_file s i = Some (concat (map padded_pool pls)) \<and>
              offload_used_bytes s i = map length pls \<and> (\<forall>p\<in>set pls. length p \<le> arena_bytes s))
         else (\<forall>a\<in>set (arenas s i). cap a = arena_bytes s \<and> arena_top a \<le> arena_bytes s)))"

definition fds_ok :: "'m kv_state \<Rightarrow> bool" where
  "fds_ok s \<longleftrightarrow> (\<forall>l. layer_fds s l \<noteq> RdOnly \<and> (l < 0 \<or> num_layers s \<le> l \<longrightarrow> layer_fds s l = Closed))"

definition kv_inv :: "'m codec \<Rightarrow> 'm kv_state \<Rightarrow> bool" where
  "kv_inv cd s \<longleftrightarrow>
     cursors_ok s \<and> states_ok s \<and> data_ok cd s \<and> addrs_ok s \<and> arenas_ok s \<and> fds_ok s"

subsection \<open>The contract of a compression backend\<close>

text \<open>\<open>fits\<close> are the builds the contract covers. A backend writes a pair of at most the raw size and at
  most the worst case the arenas are sized for, and decoding reads only what encoding wrote.\<close>

locale kv_codec =
  fixes cdc :: "compression \<Rightarrow> nat \<Rightarrow> 'm codec"
    and fits :: "compression \<Rightarrow> nat \<Rightarrow> bool"
  assumes dec_prefix: "fits b h \<Longrightarrow> length raw = raw_chunk_bytes h \<Longrightarrow>
      dec (cdc b h) key i j (fst (enc (cdc b h) key i raw) @ xs) (snd (enc (cdc b h) key i raw))
        = dec (cdc b h) key i j (fst (enc (cdc b h) key i raw)) (snd (enc (cdc b h) key i raw))"
    and dec_length: "fits b h \<Longrightarrow> length raw = raw_chunk_bytes h \<Longrightarrow>
      length (dec (cdc b h) key i j (fst (enc (cdc b h) key i raw)) (snd (enc (cdc b h) key i raw)))
        = raw_chunk_bytes h"
    and enc_bound: "fits b h \<Longrightarrow> length k = raw_chunk_bytes h \<Longrightarrow> length v = raw_chunk_bytes h \<Longrightarrow>
      length (fst (enc (cdc b h) True i k)) + length (fst (enc (cdc b h) False i v))
        \<le> min (kv_raw_size h) (comp_bound b (kv_raw_size h))"
    and fits_backend: "fits b h \<Longrightarrow> b \<noteq> NONE"

end
