(* ===== verification/Flexgen.thy ===== *)
theory Flexgen
  imports Half Kv_View
begin

text \<open>
  The group-wise min/max quantisers of \<open>mzcache/kernels/compress.cpp\<close> and
  \<open>mzcache/kernels/decompress.cpp\<close> (\<open>flexgen_*\<close>, 4 and 8 bit), on the bytes of a raw chunk. A NEON
  register is the list of its lanes. The kernels split the groups among worker threads; the cells of
  the output that the groups own are updated in the order the threads are started.
\<close>

subsection \<open>Group minimum and maximum\<close>

fun pairwise :: "('a \<Rightarrow> 'a \<Rightarrow> 'a) \<Rightarrow> 'a list \<Rightarrow> 'a list" where
  "pairwise f (x # y # zs) = f x y # pairwise f zs"
| "pairwise f _ = []"

text \<open>Eight registers reduced lane by lane, then three pairwise steps within the result.\<close>

definition group_reduce :: "('a \<Rightarrow> 'a \<Rightarrow> 'a) \<Rightarrow> 'a list \<Rightarrow> 'a" where
  "group_reduce f src =
     (let v = (\<lambda>k. take 8 (drop (8 * k) src));
          r = fold (\<lambda>k acc. map2 f acc (v k)) [1..<8] (v 0);
          p1 = pairwise f (take 4 r @ drop 4 r);
          p2 = pairwise f (p1 @ p1)
      in pairwise f (p2 @ p2) ! 0)"

locale lane_op =
  fixes f :: "'a \<Rightarrow> 'a \<Rightarrow> 'a" and e :: 'a
  assumes assoc: "f (f x y) z = f x (f y z)"
    and commute: "f x y = f y x"
    and neutral: "f x e = x"
begin

lemma left_commute: "f x (f y z) = f y (f x z)"
  by (metis assoc commute)

lemma neutral_left: "f e x = x"
  by (metis commute neutral)

lemma foldr_acc: "f (foldr f xs a) b = foldr f xs (f a b)"
  by (induction xs) (simp_all add: assoc)

lemma foldr_map2: "length xs = length ys \<Longrightarrow> foldr f (map2 f xs ys) e = f (foldr f xs e) (foldr f ys e)"
  by (induction xs ys rule: list_induct2) (simp_all add: neutral assoc left_commute)

lemma foldr_lanes:
  assumes "length a = n" "\<And>k. k \<in> set ks \<Longrightarrow> length (v k) = n"
  shows "foldr f (fold (\<lambda>k acc. map2 f acc (v k)) ks a) e = f (foldr f a e) (foldr f (concat (map v ks)) e) \<and>
    length (fold (\<lambda>k acc. map2 f acc (v k)) ks a) = n"
  using assms
proof (induction ks arbitrary: a)
  case (Cons k ks)
  then have "length (map2 f a (v k)) = n" "length a = length (v k)" by simp_all
  with Cons.IH [of "map2 f a (v k)"] Cons.prems(2) show ?case
    by (simp add: foldr_map2 foldr_acc assoc neutral_left)
qed (simp add: neutral)

lemma lanes_concat: "length src = 64 \<Longrightarrow> concat (map (\<lambda>k. take 8 (drop (8 * k) src)) [0..<8]) = src"
proof -
  assume "length src = 64"
  have "concat (map (\<lambda>k. take 8 (drop (8 * k) src)) [0..<n]) = take (8 * n) src" for n
    by (induction n) (simp_all add: take_add add.commute [of 8])
  from this [of 8] \<open>length src = 64\<close> show ?thesis by simp
qed

text \<open>The NEON reduction computes the fold of the operation over the whole group.\<close>

lemma group_reduce_fold:
  assumes "length src = 64"
  shows "group_reduce f src = foldr f src e"
proof -
  let ?v = "\<lambda>k. take 8 (drop (8 * k) src)"
  define r where "r = fold (\<lambda>k acc. map2 f acc (?v k)) [1..<8] (?v 0)"
  have "foldr f r e = f (foldr f (?v 0) e) (foldr f (concat (map ?v [1..<8])) e) \<and> length r = 8"
    unfolding r_def by (rule foldr_lanes) (use assms in auto)
  moreover have "concat (map ?v [0..<8]) = ?v 0 @ concat (map ?v [1..<8])"
    using upt_conv_Cons [of 0 8] by (simp add: One_nat_def [symmetric] del: upt_Suc One_nat_def)
  ultimately have r: "foldr f r e = foldr f src e" "length r = 8"
    using lanes_concat [OF assms] by (simp_all add: foldr_acc neutral_left flip: List.foldr_append)
  obtain a b c d a' b' c' d' where r8: "r = [a, b, c, d, a', b', c', d']"
    using r(2) by (auto simp: length_Suc_conv eval_nat_numeral)
  have "group_reduce f src = f (f (f a b) (f c d)) (f (f a' b') (f c' d'))"
    unfolding group_reduce_def Let_def r_def [symmetric] r8 by simp
  also have "\<dots> = foldr f r e" by (simp add: r8 assoc neutral)
  finally show ?thesis by (simp add: r(1))
qed

end

interpretation fmin: lane_op fp_min "Infty False"
  by unfold_locales (rule fp_min_assoc, rule fp_min_commute, rule fp_min_neutral)

interpretation fmax: lane_op fp_max "Infty True"
  by unfold_locales (rule fp_max_assoc, rule fp_max_commute, rule fp_min_neutral)

subsection \<open>Splitting the groups among threads\<close>

definition thread_ranges :: "nat \<Rightarrow> nat \<Rightarrow> (nat \<times> nat) list" where
  "thread_ranges num_groups num_threads =
     (let per = (num_groups + num_threads - 1) div num_threads
      in filter (\<lambda>(start, end). start < end)
           (map (\<lambda>t. (t * per, min (t * per + per) num_groups)) [0..<num_threads]))"

text \<open>One worker call: the groups of its range, each writing the cell it owns.\<close>

definition run_range :: "(nat \<Rightarrow> 'c) \<Rightarrow> nat \<times> nat \<Rightarrow> 'c list \<Rightarrow> 'c list" where
  "run_range cell r cells = fold (\<lambda>g cs. cs[g := cell g]) [fst r..<snd r] cells"

definition run_threads :: "(nat \<Rightarrow> 'c) \<Rightarrow> nat \<Rightarrow> nat \<Rightarrow> 'c list \<Rightarrow> 'c list" where
  "run_threads cell num_groups num_threads cells = fold (run_range cell) (thread_ranges num_groups num_threads) cells"

subsection \<open>Compression\<close>

definition group_of :: "nat \<Rightarrow> 'a list \<Rightarrow> nat \<Rightarrow> 'a list" where
  "group_of n xs g = take n (drop (n * g) xs)"

definition scale_bias :: "rat \<Rightarrow> fp \<Rightarrow> fp \<Rightarrow> fp \<times> fp" where
  "scale_bias levels grp_min grp_max =
     (let range = sub32 grp_max grp_min;
          scale = (if fp_pos range then div32 (Fin False levels) range else Fin False 0)
      in (scale, mul32 (fp_neg grp_min) scale))"

definition quant4 :: "bool \<Rightarrow> fp \<times> fp \<Rightarrow> fp \<Rightarrow> int" where
  "quant4 fused sb x = sat 0 15 (cvtn_s32 (mla32_fp fused (snd sb) x (fst sb)))"

definition quant8 :: "bool \<Rightarrow> fp \<times> fp \<Rightarrow> fp \<Rightarrow> int" where
  "quant8 fused sb x = sat 0 255 (cvtn_u32 (mla32_fp fused (snd sb) x (fst sb)))"

definition pack :: "int \<Rightarrow> int \<Rightarrow> u8" where
  "pack a b = (of_int a AND 0xF) OR push_bit 4 (of_int b AND 0xF)"

type_synonym group_cell = "bytes \<times> u16 \<times> u16"

definition compress_group :: "bool \<Rightarrow> u16 list \<Rightarrow> group_cell" where
  "compress_group fused src =
     (let xs = map half_decode src; grp_min = group_reduce fp_min xs; grp_max = group_reduce fp_max xs;
          q = map (quant4 fused (scale_bias 15 grp_min grp_max)) xs
      in (concat (map (\<lambda>block. map (\<lambda>i. pack (q ! (block * 8 + 2 * i)) (q ! (block * 8 + (2 * i + 1)))) [0..<4]) [0..<8]),
          half_encode grp_min, half_encode grp_max))"

definition compress_group_8bit :: "bool \<Rightarrow> u16 list \<Rightarrow> group_cell" where
  "compress_group_8bit fused src =
     (let xs = map half_decode src; grp_min = group_reduce fp_min xs; grp_max = group_reduce fp_max xs;
          q = map (quant8 fused (scale_bias 255 grp_min grp_max)) xs
      in (concat (map (\<lambda>block. map of_int (take 8 (drop (8 * block) q))) [0..<8]),
          half_encode grp_min, half_encode grp_max))"

definition num_groups :: "nat \<Rightarrow> nat" where
  "num_groups hidden_dim = TOKENS_PER_CHUNK * hidden_dim div 64"

text \<open>The result of a kernel call: the output bytes and the arrays \<open>mins\<close> and \<open>maxs\<close>.\<close>

definition unzip_cells :: "group_cell list \<Rightarrow> bytes \<times> (u16 list \<times> u16 list)" where
  "unzip_cells cells = (concat (map fst cells), (map (fst \<circ> snd) cells, map (snd \<circ> snd) cells))"

definition flexgen_compress :: "bool \<Rightarrow> nat \<Rightarrow> nat \<Rightarrow> bytes \<Rightarrow> bytes \<times> (u16 list \<times> u16 list)" where
  "flexgen_compress fused num_threads hidden_dim input =
     unzip_cells (run_threads (\<lambda>g. compress_group fused (group_of 64 (halves_of input) g))
       (num_groups hidden_dim) num_threads (replicate (num_groups hidden_dim) (replicate 32 0, 0, 0)))"

definition flexgen_compress_8bit :: "bool \<Rightarrow> nat \<Rightarrow> nat \<Rightarrow> bytes \<Rightarrow> bytes \<times> (u16 list \<times> u16 list)" where
  "flexgen_compress_8bit fused num_threads hidden_dim input =
     unzip_cells (run_threads (\<lambda>g. compress_group_8bit fused (group_of 64 (halves_of input) g))
       (num_groups hidden_dim) num_threads (replicate (num_groups hidden_dim) (replicate 64 0, 0, 0)))"

subsection \<open>Decompression\<close>

definition vzip :: "'a list \<Rightarrow> 'a list \<Rightarrow> 'a list \<times> 'a list" where
  "vzip low high =
     (let z = (\<lambda>xs ys. concat (map2 (\<lambda>x y. [x, y]) xs ys))
      in (z (take 8 low) (take 8 high), z (drop 8 low) (drop 8 high)))"

definition unpack_block :: "bytes \<Rightarrow> u8 list" where
  "unpack_block cin =
     (let (z0, z1) = vzip (map (\<lambda>b. b AND 0x0F) cin) (map (drop_bit 4) cin) in z0 @ z1)"

definition code_fp :: "u8 \<Rightarrow> fp" where
  "code_fp c = Fin False (of_nat (unat c))"

definition step4 :: "fp \<Rightarrow> fp \<Rightarrow> fp" where
  "step4 min_h max_h = to16 (mul32 (sub32 max_h min_h) (to32 (Fin False (1 / 15))))"

definition decompress_group :: "bytes \<Rightarrow> u16 \<Rightarrow> u16 \<Rightarrow> u16 list" where
  "decompress_group grp_in mn mx =
     (let min_h = half_decode mn; step_h = step4 min_h (half_decode mx)
      in concat (map (\<lambda>blk. map (\<lambda>c. half_encode (fma16 min_h (code_fp c) step_h))
                   (unpack_block (take 16 (drop (16 * blk) grp_in)))) [0..<2]))"

definition step8 :: "fp \<Rightarrow> fp \<Rightarrow> fp" where
  "step8 min_f max_f = div32 (sub32 max_f min_f) (Fin False 255)"

definition decompress_group_8bit :: "bytes \<Rightarrow> u16 \<Rightarrow> u16 \<Rightarrow> u16 list" where
  "decompress_group_8bit grp_in mn mx =
     (let min_f = half_decode mn; step_f = step8 min_f (half_decode mx)
      in concat (map (\<lambda>blk. map (\<lambda>c. half_encode (to16 (fma32 min_f (code_fp c) step_f)))
                   (take 16 (drop (16 * blk) grp_in))) [0..<4]))"

text \<open>Loops over the groups, in order or split among threads.\<close>

definition flexgen_decompress_single_thread :: "nat \<Rightarrow> bytes \<Rightarrow> u16 list \<times> u16 list \<Rightarrow> bytes" where
  "flexgen_decompress_single_thread hidden_dim input mm =
     bytes_of (concat (map (\<lambda>g. decompress_group (group_of 32 input g) (fst mm ! g) (snd mm ! g))
       [0..<num_groups hidden_dim]))"

definition flexgen_decompress :: "nat \<Rightarrow> nat \<Rightarrow> bytes \<Rightarrow> u16 list \<times> u16 list \<Rightarrow> bytes" where
  "flexgen_decompress num_threads hidden_dim input mm =
     bytes_of (concat (run_threads (\<lambda>g. decompress_group (group_of 32 input g) (fst mm ! g) (snd mm ! g))
       (num_groups hidden_dim) num_threads (replicate (num_groups hidden_dim) (replicate 64 0))))"

definition flexgen_decompress_8bit :: "nat \<Rightarrow> bytes \<Rightarrow> u16 list \<times> u16 list \<Rightarrow> bytes" where
  "flexgen_decompress_8bit hidden_dim input mm =
     bytes_of (concat (map (\<lambda>g. decompress_group_8bit (group_of 64 input g) (fst mm ! g) (snd mm ! g))
       [0..<num_groups hidden_dim]))"

text \<open>The codec of a FlexGen build: what \<open>mzcache_compress_chunks\<close> and \<open>kv_decomp_worker\<close> call.\<close>

definition flexgen_codec :: "bool \<Rightarrow> nat \<Rightarrow> compression \<Rightarrow> nat \<Rightarrow> (u16 list \<times> u16 list) codec" where
  "flexgen_codec fused num_threads b h =
     (if b = FLEXGEN_8BIT
      then \<lparr>enc = (\<lambda>_ _. flexgen_compress_8bit fused num_threads h), dec = (\<lambda>_ _ _. flexgen_decompress_8bit h)\<rparr>
      else \<lparr>enc = (\<lambda>_ _. flexgen_compress fused num_threads h), dec = (\<lambda>_ _ _. flexgen_decompress_single_thread h)\<rparr>)"

definition flexgen_fits :: "compression \<Rightarrow> nat \<Rightarrow> bool" where
  "flexgen_fits b h \<longleftrightarrow> b = FLEXGEN \<or> b = FLEXGEN_8BIT"

end
