(* ===== verification/Kv_Compress_Correct.thy ===== *)
theory Kv_Compress_Correct
  imports Kv_View
begin

text \<open>
  Compressing chunks keeps the invariant, replaces exactly the chunks it takes by their lossy
  round trip and leaves every other chunk's content alone.
\<close>

lemma compress_seek_ok:
  assumes "plan_ok s" "cursor_ok (\<lambda>i. 0) (chunk_bound s) (num_layers s) l c"
    "rest (\<lambda>i. 0) (chunk_bound s) l c \<noteq> []"
    and "compress_seek (chunk_bound s) l c = (l', c')"
  shows "0 \<le> c' \<and> cursor_ok (\<lambda>i. 0) (chunk_bound s) (num_layers s) l' c' \<and>
    rest (\<lambda>i. 0) (chunk_bound s) l' c' = rest (\<lambda>i. 0) (chunk_bound s) l c \<and>
    taken (\<lambda>i. 0) (chunk_bound s) (num_layers s) l' c' = taken (\<lambda>i. 0) (chunk_bound s) (num_layers s) l c"
  using assms
proof (induction "chunk_bound s" l c rule: compress_seek.induct)
  case (1 l c)
  show ?case
  proof (cases "c < 0")
    case True
    note skip = creg.skip_layer [OF 1(2,3) True 1(4)]
    from 1(3) have l: "0 \<le> l" by (simp add: cursor_ok_def)
    have l1: "0 \<le> l - 1" using skip(3) by (simp add: cursor_ok_def)
    from 1(5) True l l1 have "compress_seek (chunk_bound s) (l - 1) (chunk_bound s (l - 1) - 1) = (l', c')"
      by (subst (asm) compress_seek.simps) (simp add: Let_def)
    with 1(1) [OF _ refl 1(2)] True l l1 skip 1(4) show ?thesis by simp
  next
    case False
    with 1(5) have "l' = l" "c' = c" by (subst (asm) compress_seek.simps, simp)+
    with False 1(3) show ?thesis by simp
  qed
qed

lemma chunk_ix_idx_ok: "plan_ok s \<Longrightarrow> chunk_ix s i j \<Longrightarrow> idx_ok i j"
  using plan_okD(2,4) [of s] by (auto simp: chunk_ix_def idx_ok_def)

lemma comp_cursor_ix:
  assumes "cursors_ok s" "0 \<le> cur_chunk_idx_to_compress s"
  shows "chunk_ix s (cur_layer_idx_to_compress s) (cur_chunk_idx_to_compress s)"
  using assms plan_okD(6) [of s "cur_layer_idx_to_compress s"]
  by (auto simp: cursors_ok_def cursor_ok_def chunk_ix_def)

text \<open>A chunk under the compress cursor is in neither taken part, so it is raw.\<close>

lemma comp_cursor_raw:
  assumes "cursors_ok s" "states_ok s" "0 \<le> cur_chunk_idx_to_compress s"
  shows "states s (cur_layer_idx_to_compress s) (cur_chunk_idx_to_compress s) = Raw"
proof -
  let ?l = "cur_layer_idx_to_compress s" and ?c = "cur_chunk_idx_to_compress s"
  have "?c < chunk_bound s ?l" using assms(1) by (simp add: cursors_ok_def cursor_ok_def)
  then have "(?l, ?c) \<notin> set (comp_taken s)" "(?l, ?c) \<notin> set (store_taken s)"
    using assms(1) by (auto simp: taken_def cursors_ok_def cursor_ok_def)
  with comp_cursor_ix [OF assms(1,3)] assms(2) show ?thesis
    by (simp add: states_ok_def expected_state_def)
qed

lemma data_okD:
  assumes "data_ok cd s" "chunk_ix s i j"
  shows "states s i j = Raw \<Longrightarrow> raw_ok s i j"
    "states s i j = Compressed \<Longrightarrow> svm_chunk_ptrs s i j = None \<and> comp_ok cd s i j"
    "states s i j = Stored \<Longrightarrow> svm_chunk_ptrs s i j = None \<and> stored_ok s i j"
  using assms by (auto simp: data_ok_def split: KVstate.splits)

subsection \<open>Appending to the pools\<close>

lemma pick_arena_cases:
  "pick_arena env b raw as = as \<and> as \<noteq> [] \<and> arena_top (last as) + raw \<le> cap (last as) \<or>
   (\<exists>as'. pick_arena env b raw as = as @ as' @ [Arena env b True] \<and>
      (as' = [] \<or> as' = [Arena env b True]))"
  by (auto simp: pick_arena_def Let_def not_less)

lemma arena_top_Arena [simp]: "arena_top (Arena env b x) = 0" "cap (Arena env b x) = b"
  "pool (Arena env b x) = []"
  by (simp_all add: arena_top_def Arena_def)

lemma arena_top_append [simp]: "arena_top (append_pool a bs) = arena_top a + length bs"
  "cap (append_pool a bs) = cap a" "pool (append_pool a bs) = pool a @ bs"
  by (simp_all add: arena_top_def append_pool_def)

lemma pick_arena_ok:
  assumes "\<forall>a\<in>set as. cap a = b \<and> arena_top a \<le> b" "n \<le> raw" "n \<le> b"
  shows "pick_arena env b raw as \<noteq> []"
    "\<forall>a\<in>set (pick_arena env b raw as). cap a = b \<and> arena_top a \<le> b"
    "arena_top (last (pick_arena env b raw as)) + n \<le> b"
    "\<exists>ex. pick_arena env b raw as = as @ ex"
  using pick_arena_cases [of env b raw as] assms by (auto dest: last_in_set)

text \<open>The pools of a layer only grow: each old pool is a prefix of the new one at its index.\<close>

definition pools_extend :: "bytes list \<Rightarrow> bytes list \<Rightarrow> bool" where
  "pools_extend ps qs \<longleftrightarrow>
     length ps \<le> length qs \<and> (\<forall>k<length ps. \<exists>ex. qs ! k = ps ! k @ ex)"

lemma pools_extend_refl [simp]: "pools_extend ps ps"
  by (auto simp: pools_extend_def)

lemma pools_extend_append:
  assumes "qs = ps @ ex" "qs \<noteq> []"
  shows "pools_extend ps (butlast qs @ [last qs @ bs])"
  unfolding pools_extend_def
proof (intro conjI allI impI)
  show "length ps \<le> length (butlast qs @ [last qs @ bs])" using assms by simp
  fix k assume k: "k < length ps"
  then have q: "qs ! k = ps ! k" using assms(1) by (simp add: nth_append)
  show "\<exists>x. (butlast qs @ [last qs @ bs]) ! k = ps ! k @ x"
  proof (cases "k < length qs - 1")
    case True
    then show ?thesis using q by (simp add: nth_append nth_butlast)
  next
    case False
    with k assms have "k = length qs - 1" by auto
    with q assms show ?thesis by (simp add: nth_append last_conv_nth)
  qed
qed

lemma encoded_at_extend:
  assumes "encoded_at cd rb key i ps cc" "pools_extend ps qs"
  shows "encoded_at cd rb key i qs cc"
  using assms unfolding encoded_at_def pools_extend_def by (auto; metis append.assoc)

lemma encoded_at_new:
  assumes "length raw = rb" "qs \<noteq> []" "e = enc cd key i raw" "length pre = off"
  shows "encoded_at cd rb key i (butlast qs @ [pre @ fst e @ post])
    \<lparr>stack_id = length qs - 1, offset = off, comp_size = length (fst e), meta = snd e\<rparr>"
  using assms by (auto simp: encoded_at_def nth_append)

subsection \<open>One chunk\<close>

lemma compress_update_frame [simp]:
  "num_layers (compress_update s L C a as k v t) = num_layers s"
  "kv_hidden_dim (compress_update s L C a as k v t) = kv_hidden_dim s"
  "num_chunks_per_tensor (compress_update s L C a as k v t) = num_chunks_per_tensor s"
  "per_layer_balance (compress_update s L C a as k v t) = per_layer_balance s"
  "chunk_bound (compress_update s L C a as k v t) = chunk_bound s"
  "max_comp_chunks (compress_update s L C a as k v t) = max_comp_chunks s"
  "max_store_chunks (compress_update s L C a as k v t) = max_store_chunks s"
  "cur_layer_idx_to_compress (compress_update s L C a as k v t) = cur_layer_idx_to_compress s"
  "cur_layer_idx_to_store (compress_update s L C a as k v t) = cur_layer_idx_to_store s"
  "cur_chunk_idx_to_store (compress_update s L C a as k v t) = cur_chunk_idx_to_store s"
  "n_cur_store_chunks (compress_update s L C a as k v t) = n_cur_store_chunks s"
  "n_cur_arena_offload_bytes (compress_update s L C a as k v t) = n_cur_arena_offload_bytes s"
  "arena_bytes (compress_update s L C a as k v t) = arena_bytes s"
  "layer_fds (compress_update s L C a as k v t) = layer_fds s"
  "next_layer_to_offload (compress_update s L C a as k v t) = next_layer_to_offload s"
  "offload_used_bytes (compress_update s L C a as k v t) = offload_used_bytes s"
  "swap_file (compress_update s L C a as k v t) = swap_file s"
  "kv_file (compress_update s L C a as k v t) = kv_file s"
  "raw_chunks (compress_update s L C a as k v t) = raw_chunks s"
  "k_stored (compress_update s L C a as k v t) = k_stored s"
  "v_stored (compress_update s L C a as k v t) = v_stored s"
  "svm_next (compress_update s L C a as k v t) = svm_next s"
  "pending_chunks_total (compress_update s L C a as k v t) = pending_chunks_total s"
  by (simp_all add: compress_update_def Let_def)

lemma compress_update_sel:
  "arenas (compress_update s L C a as k v t) =
     (arenas s)(L := butlast as @ [append_pool (last as) (fst k @ fst v)])"
  "k_comp (compress_update s L C a as k v t) = upd2 (k_comp s) L C
     \<lparr>stack_id = length as - 1, offset = arena_top (last as), comp_size = length (fst k), meta = snd k\<rparr>"
  "v_comp (compress_update s L C a as k v t) = upd2 (v_comp s) L C
     \<lparr>stack_id = length as - 1, offset = arena_top (last as) + length (fst k),
       comp_size = length (fst v), meta = snd v\<rparr>"
  "states (compress_update s L C a as k v t) = upd2 (states s) L C Compressed"
  "svm_mem (compress_update s L C a as k v t) = (svm_mem s)(a := None)"
  "svm_chunk_ptrs (compress_update s L C a as k v t) = upd2 (svm_chunk_ptrs s) L C None"
  "cur_chunk_idx_to_compress (compress_update s L C a as k v t) = C - 1"
  "n_cur_comp_chunks (compress_update s L C a as k v t) = n_cur_comp_chunks s + 1"
  "n_cur_comp_saved_bytes (compress_update s L C a as k v t) =
     n_cur_comp_saved_bytes s + int (kv_raw_size (kv_hidden_dim s)) - int t"
  by (simp_all add: compress_update_def Let_def)

text \<open>What one step of compression does to the parts of the state that later steps depend on.\<close>

definition compress_step_spec :: "'m codec \<Rightarrow> 'm kv_state \<Rightarrow> 'm kv_state \<Rightarrow> bool" where
  "compress_step_spec cd s s' \<longleftrightarrow>
     (let L = cur_layer_idx_to_compress s; C = cur_chunk_idx_to_compress s in
      comp_rest s = comp_rest s' @ [(L, C)] \<and> comp_taken s' = (L, C) # comp_taken s \<and>
      (\<forall>i j. chunk_ix s i j \<longrightarrow> chunk_view cd s' i j =
         (if (i, j) = (L, C) then map_option (lossy cd i j) (chunk_view cd s i j)
          else chunk_view cd s i j)))"

lemma compress_cursors:
  assumes "cursors_ok s" "0 \<le> cur_chunk_idx_to_compress s"
    and "s' = compress_update s (cur_layer_idx_to_compress s) (cur_chunk_idx_to_compress s) a as k v t"
  shows "cursors_ok s'" "comp_rest s = comp_rest s' @ [(cur_layer_idx_to_compress s, cur_chunk_idx_to_compress s)]"
    "comp_taken s' = (cur_layer_idx_to_compress s, cur_chunk_idx_to_compress s) # comp_taken s"
    "plan_ok s' = plan_ok s"
proof -
  have p: "plan_ok s" using assms(1) by (simp add: cursors_ok_def)
  show e: "plan_ok s' = plan_ok s" using assms(3) by (simp add: plan_ok_def)
  note t = creg.take_chunk [OF p, of "cur_layer_idx_to_compress s" "cur_chunk_idx_to_compress s"]
  from assms t p e show "cursors_ok s'"
    "comp_rest s = comp_rest s' @ [(cur_layer_idx_to_compress s, cur_chunk_idx_to_compress s)]"
    "comp_taken s' = (cur_layer_idx_to_compress s, cur_chunk_idx_to_compress s) # comp_taken s"
    by (simp_all add: cursors_ok_def compress_update_sel)
qed

lemma compress_states:
  assumes "cursors_ok s" "states_ok s" "0 \<le> cur_chunk_idx_to_compress s"
    and "s' = compress_update s (cur_layer_idx_to_compress s) (cur_chunk_idx_to_compress s) a as k v t"
  shows "states_ok s'"
  using compress_cursors(3) [OF assms(1,3,4)] assms(2)
  by (auto simp: states_ok_def expected_state_def chunk_ix_def assms(4) compress_update_sel)

lemma no_offload:
  assumes "arenas_ok s" "comp_rest s \<noteq> []"
  shows "next_layer_to_offload s = num_layers s - 1"
  using assms by (auto simp: arenas_ok_def)

lemma layer_pools_resident:
  "next_layer_to_offload s = num_layers s - 1 \<Longrightarrow> i < num_layers s \<Longrightarrow>
     layer_pools s i = map pool (arenas s i)"
  by (simp add: layer_pools_def)

text \<open>The facts about the chunk under the cursor that one compression step uses.\<close>

definition compress_pre :: "'m kv_state \<Rightarrow> nat \<Rightarrow> chunk_mem \<Rightarrow> arena list \<Rightarrow> bool" where
  "compress_pre s a m as \<longleftrightarrow>
     raw_chunks s (cur_layer_idx_to_compress s) (cur_chunk_idx_to_compress s) = Some a \<and>
     svm_mem s a = Some m \<and> length (k_mem m) = rbytes s \<and> length (v_mem m) = rbytes s \<and>
     as \<noteq> [] \<and> (\<exists>ex. as = arenas s (cur_layer_idx_to_compress s) @ ex)"

lemma compress_pools:
  assumes "compress_pre s a m as" "next_layer_to_offload s = num_layers s - 1" "i < num_layers s"
    and "s' = compress_update s (cur_layer_idx_to_compress s) (cur_chunk_idx_to_compress s) a as k v t"
  shows "pools_extend (layer_pools s i) (layer_pools s' i)"
    and "i = cur_layer_idx_to_compress s \<Longrightarrow>
      layer_pools s' i = butlast (map pool as) @ [pool (last as) @ fst k @ fst v]"
proof -
  have r: "layer_pools s i = map pool (arenas s i)" "layer_pools s' i = map pool (arenas s' i)"
    using assms by (simp_all add: layer_pools_resident)
  then show n: "i = cur_layer_idx_to_compress s \<Longrightarrow>
      layer_pools s' i = butlast (map pool as) @ [pool (last as) @ fst k @ fst v]"
    using assms by (simp add: compress_update_sel map_butlast)
  show "pools_extend (layer_pools s i) (layer_pools s' i)"
  proof (cases "i = cur_layer_idx_to_compress s")
    case True
    obtain ex where "as = arenas s i @ ex" and ne: "as \<noteq> []"
      using assms(1) True by (auto simp: compress_pre_def)
    then have "map pool as = map pool (arenas s i) @ map pool ex" "map pool as \<noteq> []" by simp_all
    from pools_extend_append [OF this, of "fst k @ fst v"] n [OF True] r(1) ne
    show ?thesis by (simp add: last_map)
  next
    case False
    with r assms(4) show ?thesis by (simp add: compress_update_sel)
  qed
qed

lemma compress_data:
  assumes inv: "kv_inv cd s" and c: "0 \<le> cur_chunk_idx_to_compress s"
    and pre: "compress_pre s a m as" and nl: "next_layer_to_offload s = num_layers s - 1"
    and k: "k = enc cd True (cur_layer_idx_to_compress s) (k_mem m)"
    and v: "v = enc cd False (cur_layer_idx_to_compress s) (v_mem m)"
    and s': "s' = compress_update s (cur_layer_idx_to_compress s) (cur_chunk_idx_to_compress s) a as k v t"
  shows "data_ok cd s'" "addrs_ok s'"
proof -
  let ?L = "cur_layer_idx_to_compress s" and ?C = "cur_chunk_idx_to_compress s"
  have i: "cursors_ok s" "states_ok s" "data_ok cd s" "addrs_ok s" using inv by (auto simp: kv_inv_def)
  note ix = comp_cursor_ix [OF i(1) c] and raw = comp_cursor_raw [OF i(1,2) c]
  have ix': "chunk_ix s' i j = chunk_ix s i j" for i j by (simp add: chunk_ix_def s')
  have st: "states s' i j = (if i = ?L \<and> j = ?C then Compressed else states s i j)" for i j
    by (simp add: s' compress_update_sel)
  show "addrs_ok s'"
    using i(4) unfolding addrs_ok_def ix' st by (auto simp: s' split: if_splits)
  show "data_ok cd s'"
    unfolding data_ok_def ix'
  proof (intro allI impI)
    fix i j assume ij: "chunk_ix s i j"
    then have iL: "i < num_layers s" by (simp add: chunk_ix_def)
    note pools = compress_pools [OF pre nl iL s']
    show "case states s' i j of Raw \<Rightarrow> raw_ok s' i j
      | Compressed \<Rightarrow> svm_chunk_ptrs s' i j = None \<and> comp_ok cd s' i j
      | Stored \<Rightarrow> svm_chunk_ptrs s' i j = None \<and> stored_ok s' i j"
    proof (cases "i = ?L \<and> j = ?C")
      case True
      have "comp_ok cd s' i j"
        using pools(2) True pre k v
          encoded_at_new [of "k_mem m" "rbytes s" "map pool as" k cd True i "pool (last as)"
             "arena_top (last as)" "fst v"]
          encoded_at_new [of "v_mem m" "rbytes s" "map pool as" v cd False i "pool (last as) @ fst k"
             "arena_top (last as) + length (fst k)" "[]"]
        by (simp add: comp_ok_def s' compress_update_sel compress_pre_def arena_top_def)
      with True show ?thesis by (simp add: st) (simp add: s' compress_update_sel)
    next
      case False
      then have other: "states s' i j = states s i j" "svm_chunk_ptrs s' i j = svm_chunk_ptrs s i j"
        "k_comp s' i j = k_comp s i j" "v_comp s' i j = v_comp s i j"
        by (auto simp: s' compress_update_sel)
      show ?thesis
      proof (cases "states s i j")
        case Raw
        with i(4) ij ix raw False have "raw_chunks s i j \<noteq> raw_chunks s ?L ?C"
          unfolding addrs_ok_def by metis
        with data_okD(1) [OF i(3) ij Raw] pre Raw other show ?thesis
          by (auto simp: raw_ok_def s' compress_update_sel compress_pre_def)
      next
        case Compressed
        with data_okD(2) [OF i(3) ij Compressed] other pools(1) show ?thesis
          by (auto simp: comp_ok_def s' intro: encoded_at_extend)
      next
        case Stored
        with data_okD(3) [OF i(3) ij Stored] other show ?thesis
          by (auto simp: stored_ok_def s')
      qed
    qed
  qed
qed

lemma compress_arenas:
  assumes "arenas_ok s" "cursors_ok s" "0 \<le> cur_chunk_idx_to_compress s"
    and "next_layer_to_offload s = num_layers s - 1" "as \<noteq> []"
    and "\<forall>a\<in>set as. cap a = arena_bytes s \<and> arena_top a \<le> arena_bytes s"
    and "arena_top (last as) + length (fst k) + length (fst v) \<le> arena_bytes s"
    and "s' = compress_update s (cur_layer_idx_to_compress s) (cur_chunk_idx_to_compress s) a as k v t"
  shows "arenas_ok s'"
proof -
  have "\<forall>a\<in>set (arenas s' i). cap a = arena_bytes s \<and> arena_top a \<le> arena_bytes s"
    if "0 \<le> i" "i < num_layers s" for i
    using assms(1,4-7) that unfolding assms(8) compress_update_sel arenas_ok_def
    by (cases "i = cur_layer_idx_to_compress s") (auto dest: in_set_butlastD)
  with assms(1,4) show ?thesis by (simp add: arenas_ok_def assms(8)) blast
qed

definition arena_room :: "config \<Rightarrow> 'm kv_state \<Rightarrow> bool" where
  "arena_room cfg s \<longleftrightarrow> comp_bound (backend cfg) (kv_raw_size (kv_hidden_dim s)) \<le> arena_bytes s"

definition plan_frame :: "'m kv_state \<Rightarrow> 'm kv_state \<Rightarrow> bool" where
  "plan_frame s s' \<longleftrightarrow>
     num_layers s' = num_layers s \<and> kv_hidden_dim s' = kv_hidden_dim s \<and>
     num_chunks_per_tensor s' = num_chunks_per_tensor s \<and>
     per_layer_balance s' = per_layer_balance s \<and> chunk_bound s' = chunk_bound s \<and>
     max_comp_chunks s' = max_comp_chunks s \<and> max_store_chunks s' = max_store_chunks s \<and>
     arena_bytes s' = arena_bytes s \<and>
     (pending_chunks_total s \<le> num_chunks_per_tensor s \<longrightarrow> pending_chunks_total s' \<le> num_chunks_per_tensor s)"

lemma plan_frame_refl [simp]: "plan_frame s s"
  by (simp add: plan_frame_def)

lemma plan_frame_trans: "plan_frame s t \<Longrightarrow> plan_frame t u \<Longrightarrow> plan_frame s u"
  by (auto simp: plan_frame_def)

lemma plan_frame_ix: "plan_frame s s' \<Longrightarrow> chunk_ix s' = chunk_ix s"
  by (simp add: plan_frame_def chunk_ix_def fun_eq_iff)

text \<open>The effect of compressing \<open>n\<close> chunks: the last \<open>n\<close> of the rest move to the taken part, their
  content goes through the codec once, everything else keeps its content, and the store side, the
  plan and the offload position are untouched.\<close>

definition compress_spec :: "'m codec \<Rightarrow> nat \<Rightarrow> 'm kv_state \<Rightarrow> 'm kv_state \<Rightarrow> bool" where
  "compress_spec cd n s s' \<longleftrightarrow>
     plan_frame s s' \<and> store_taken s' = store_taken s \<and> store_rest s' = store_rest s \<and>
     layer_fds s' = layer_fds s \<and> next_layer_to_offload s' = next_layer_to_offload s \<and>
     n_cur_arena_offload_bytes s' = n_cur_arena_offload_bytes s \<and>
     (\<exists>xs. length xs = n \<and> comp_rest s = comp_rest s' @ xs \<and> comp_taken s' = xs @ comp_taken s \<and>
        (\<forall>i j. chunk_ix s i j \<longrightarrow> chunk_view cd s' i j =
           (if (i, j) \<in> set xs then map_option (lossy cd i j) (chunk_view cd s i j)
            else chunk_view cd s i j)))"

lemma compress_spec_step:
  assumes "compress_step_spec cd s s'"
    and "s' = compress_update s (cur_layer_idx_to_compress s) (cur_chunk_idx_to_compress s) a as k v t"
  shows "compress_spec cd 1 s s'"
  using assms(1) unfolding compress_spec_def compress_step_spec_def Let_def
  by (intro conjI exI [of _ "[(cur_layer_idx_to_compress s, cur_chunk_idx_to_compress s)]"])
    (simp_all add: assms(2) plan_frame_def)

lemma compress_spec_trans:
  assumes st: "compress_spec cd m s t" and tu: "compress_spec cd n t u"
  shows "compress_spec cd (m + n) s u"
proof -
  have fr: "plan_frame s t" using st by (simp add: compress_spec_def)
  obtain xs where x: "length xs = m" "comp_rest s = comp_rest t @ xs" "comp_taken t = xs @ comp_taken s"
    "\<And>i j. chunk_ix s i j \<Longrightarrow> chunk_view cd t i j =
       (if (i, j) \<in> set xs then map_option (lossy cd i j) (chunk_view cd s i j) else chunk_view cd s i j)"
    using st unfolding compress_spec_def by auto
  obtain ys where y: "length ys = n" "comp_rest t = comp_rest u @ ys" "comp_taken u = ys @ comp_taken t"
    "\<And>i j. chunk_ix s i j \<Longrightarrow> chunk_view cd u i j =
       (if (i, j) \<in> set ys then map_option (lossy cd i j) (chunk_view cd t i j) else chunk_view cd t i j)"
    using tu plan_frame_ix [OF fr] unfolding compress_spec_def by auto
  have "set ys \<inter> set xs = {}"
    using distinct_rest [of "\<lambda>i. 0" "chunk_bound s" "cur_layer_idx_to_compress s" "cur_chunk_idx_to_compress s"]
    unfolding x(2) y(2) by auto
  then have "chunk_view cd u i j = (if (i, j) \<in> set (ys @ xs)
      then map_option (lossy cd i j) (chunk_view cd s i j) else chunk_view cd s i j)"
    if "chunk_ix s i j" for i j using x(4) [OF that] y(4) [OF that] by auto
  moreover have "plan_frame s u" using fr tu by (auto simp: compress_spec_def intro: plan_frame_trans)
  ultimately show ?thesis using x y st tu unfolding compress_spec_def
    by (intro conjI exI [of _ "ys @ xs"]) (simp_all add: add.commute)
qed

text \<open>Moving a cursor without changing the split moves nothing.\<close>

definition same_data :: "'m kv_state \<Rightarrow> 'm kv_state \<Rightarrow> bool" where
  "same_data s t \<longleftrightarrow>
     num_layers t = num_layers s \<and> num_chunks_per_tensor t = num_chunks_per_tensor s \<and>
     kv_hidden_dim t = kv_hidden_dim s \<and> chunk_bound t = chunk_bound s \<and> states t = states s \<and>
     raw_chunks t = raw_chunks s \<and> k_comp t = k_comp s \<and> v_comp t = v_comp s \<and>
     k_stored t = k_stored s \<and> v_stored t = v_stored s \<and> svm_chunk_ptrs t = svm_chunk_ptrs s \<and>
     svm_mem t = svm_mem s \<and> svm_next t = svm_next s \<and> kv_file t = kv_file s \<and>
     layer_pools t = layer_pools s"

lemma same_dataD:
  assumes "same_data s t"
  shows "chunk_ix t = chunk_ix s" "chunk_view cd t = chunk_view cd s" "plan_ok t = plan_ok s"
    "data_ok cd t = data_ok cd s" "addrs_ok t = addrs_ok s"
proof -
  show ix: "chunk_ix t = chunk_ix s" using assms by (simp add: same_data_def chunk_ix_def fun_eq_iff)
  show "chunk_view cd t = chunk_view cd s"
    using assms by (intro ext) (simp add: same_data_def chunk_view_def split: KVstate.splits option.splits)
  show "plan_ok t = plan_ok s" using assms by (simp add: same_data_def plan_ok_def)
  have "raw_ok t = raw_ok s" "comp_ok cd t = comp_ok cd s" "stored_ok t = stored_ok s"
    using assms by (intro ext; simp add: same_data_def raw_ok_def comp_ok_def stored_ok_def)+
  with ix assms show "data_ok cd t = data_ok cd s" "addrs_ok t = addrs_ok s"
    by (simp_all add: data_ok_def addrs_ok_def same_data_def cong: KVstate.case_cong)
qed

lemma layer_pools_cong:
  "next_layer_to_offload t = next_layer_to_offload s \<Longrightarrow> swap_file t = swap_file s \<Longrightarrow>
   offload_used_bytes t = offload_used_bytes s \<Longrightarrow> arenas t = arenas s \<Longrightarrow> layer_pools t = layer_pools s"
  by (intro ext) (simp add: layer_pools_def split: option.splits)

lemma same_data_cursor:
  "same_data s (s\<lparr>cur_layer_idx_to_compress := l, cur_chunk_idx_to_compress := c\<rparr>)"
  "same_data s (s\<lparr>layer_fds := f, cur_layer_idx_to_store := l, cur_chunk_idx_to_store := c\<rparr>)"
  by (simp_all add: same_data_def, intro layer_pools_cong; simp)+

lemma kv_inv_same:
  assumes "kv_inv cd s" "same_data s t" "cursors_ok t" "arenas_ok t" "fds_ok t"
    "comp_taken t = comp_taken s" "store_taken t = store_taken s"
  shows "kv_inv cd t"
proof -
  note d = same_dataD [OF assms(2)]
  have "states t = states s" using assms(2) by (simp add: same_data_def)
  then have "states_ok t"
    using assms(1,6,7) unfolding kv_inv_def states_ok_def expected_state_def d(1) by simp
  with assms d show ?thesis by (simp add: kv_inv_def)
qed

lemma kv_inv_comp_cursor:
  assumes "kv_inv cd s" "cursor_ok (\<lambda>i. 0) (chunk_bound s) (num_layers s) l c"
    "taken (\<lambda>i. 0) (chunk_bound s) (num_layers s) l c = comp_taken s"
    "rest (\<lambda>i. 0) (chunk_bound s) l c = comp_rest s"
  shows "kv_inv cd (s\<lparr>cur_layer_idx_to_compress := l, cur_chunk_idx_to_compress := c\<rparr>)"
proof (rule kv_inv_same [OF assms(1) same_data_cursor(1)])
  let ?t = "s\<lparr>cur_layer_idx_to_compress := l, cur_chunk_idx_to_compress := c\<rparr>"
  have i: "cursors_ok s" "arenas_ok s" "fds_ok s" using assms(1) by (simp_all add: kv_inv_def)
  have "plan_ok ?t = plan_ok s" by (rule same_dataD(3) [OF same_data_cursor(1)])
  with i(1) assms(2-3) show "cursors_ok ?t" by (simp add: cursors_ok_def)
  have "arenas_ok ?t = arenas_ok s" by (simp add: arenas_ok_def assms(4))
  with i(2) show "arenas_ok ?t" by simp
  from i(3) show "fds_ok ?t" by (simp add: fds_ok_def)
qed (use assms(3) in simp_all)

context kv_codec
begin

abbreviation cdx :: "config \<Rightarrow> 'm kv_state \<Rightarrow> 'm codec" where
  "cdx cfg s \<equiv> cdc (backend cfg) (kv_hidden_dim s)"

lemma decoded_extend:
  assumes "fits b h" "encoded_at (cdc b h) (raw_chunk_bytes h) key i ps cc" "pools_extend ps qs"
  shows "decoded (cdc b h) key i j qs cc = decoded (cdc b h) key i j ps cc"
proof -
  obtain raw pre post where e: "length raw = raw_chunk_bytes h" "stack_id cc < length ps"
    "ps ! stack_id cc = pre @ fst (enc (cdc b h) key i raw) @ post" "offset cc = length pre"
    "meta cc = snd (enc (cdc b h) key i raw)"
    using assms(2) unfolding encoded_at_def by blast
  from assms(3) e(2) obtain ex where "qs ! stack_id cc = ps ! stack_id cc @ ex"
    by (auto simp: pools_extend_def)
  with e dec_prefix [OF assms(1) e(1)] show ?thesis by (simp add: decoded_def)
qed

lemma decoded_new:
  assumes "fits b h" "length raw = raw_chunk_bytes h" "qs \<noteq> []" "e = enc (cdc b h) key i raw"
    "length pre = off"
  shows "decoded (cdc b h) key i j (butlast qs @ [pre @ fst e @ post])
    \<lparr>stack_id = length qs - 1, offset = off, comp_size = n, meta = snd e\<rparr> = lossy1 (cdc b h) key i j raw"
  using assms(3-5) dec_prefix [OF assms(1,2)]
  by (simp add: decoded_def lossy1_def nth_append case_prod_unfold Let_def)

lemma compress_one_view:
  assumes inv: "kv_inv (cdx cfg s) s" and fits: "fits (backend cfg) (kv_hidden_dim s)"
    and c: "0 \<le> cur_chunk_idx_to_compress s"
    and pre: "compress_pre s a m as" and nl: "next_layer_to_offload s = num_layers s - 1"
    and k: "k = enc (cdx cfg s) True (cur_layer_idx_to_compress s) (k_mem m)"
    and v: "v = enc (cdx cfg s) False (cur_layer_idx_to_compress s) (v_mem m)"
    and s': "s' = compress_update s (cur_layer_idx_to_compress s) (cur_chunk_idx_to_compress s) a as k v t"
    and ij: "chunk_ix s i j"
  shows "chunk_view (cdx cfg s) s' i j =
    (if (i, j) = (cur_layer_idx_to_compress s, cur_chunk_idx_to_compress s)
     then map_option (lossy (cdx cfg s) i j) (chunk_view (cdx cfg s) s i j)
     else chunk_view (cdx cfg s) s i j)"
proof -
  let ?L = "cur_layer_idx_to_compress s" and ?C = "cur_chunk_idx_to_compress s"
  have i: "cursors_ok s" "states_ok s" "data_ok (cdx cfg s) s" "addrs_ok s"
    using inv by (auto simp: kv_inv_def)
  note ix = comp_cursor_ix [OF i(1) c] and raw = comp_cursor_raw [OF i(1,2) c]
  have iL: "i < num_layers s" using ij by (simp add: chunk_ix_def)
  note pools = compress_pools [OF pre nl iL s']
  show ?thesis
  proof (cases "i = ?L \<and> j = ?C")
    case True
    with pre raw have "chunk_view (cdx cfg s) s i j = Some (k_mem m, v_mem m)"
      by (simp add: chunk_view_def compress_pre_def)
    moreover have "chunk_view (cdx cfg s) s' i j = Some (lossy (cdx cfg s) i j (k_mem m, v_mem m))"
      using True pools(2) pre k v
        decoded_new [OF fits, of "k_mem m" "map pool as" k True i "pool (last as)"
          "arena_top (last as)" j "fst v" "length (fst k)"]
        decoded_new [OF fits, of "v_mem m" "map pool as" v False i "pool (last as) @ fst k"
          "arena_top (last as) + length (fst k)" j "[]" "length (fst v)"]
      by (simp add: chunk_view_def lossy_def s' compress_update_sel compress_pre_def arena_top_def)
    ultimately show ?thesis using True by simp
  next
    case False
    have "chunk_view (cdx cfg s) s' i j = chunk_view (cdx cfg s) s i j"
    proof (cases "states s i j")
      case Raw
      with i(4) ij ix raw False have "raw_chunks s i j \<noteq> raw_chunks s ?L ?C"
        unfolding addrs_ok_def by metis
      with Raw False pre show ?thesis
        by (auto simp: chunk_view_def s' compress_update_sel compress_pre_def split: option.splits)
    next
      case Compressed
      with data_okD(2) [OF i(3) ij] have "comp_ok (cdx cfg s) s i j" by simp
      with Compressed False decoded_extend [OF fits _ pools(1)] show ?thesis
        by (auto simp: chunk_view_def comp_ok_def s' compress_update_sel)
    next
      case Stored
      with False show ?thesis by (auto simp: chunk_view_def s' compress_update_sel)
    qed
    with False show ?thesis by auto
  qed
qed

text \<open>One step succeeds, keeps the invariant and meets its specification.\<close>

lemma compress_one_ok:
  assumes inv: "kv_inv (cdx cfg s) s" and fits: "fits (backend cfg) (kv_hidden_dim s)"
    and room: "arena_room cfg s" and c: "0 \<le> cur_chunk_idx_to_compress s"
  obtains a as k v t s' where "compress_one env cfg (cdx cfg s) s = Ok (s', t)"
    "s' = compress_update s (cur_layer_idx_to_compress s) (cur_chunk_idx_to_compress s) a as k v t"
    "kv_inv (cdx cfg s) s'" "compress_step_spec (cdx cfg s) s s'"
    "t = length (fst k) + length (fst v) + comp_meta_bytes (backend cfg) (kv_hidden_dim s)"
    "\<exists>m::chunk_mem. length (k_mem m) = rbytes s \<and> length (v_mem m) = rbytes s \<and>
       k = enc (cdx cfg s) True (cur_layer_idx_to_compress s) (k_mem m) \<and>
       v = enc (cdx cfg s) False (cur_layer_idx_to_compress s) (v_mem m)"
proof -
  let ?L = "cur_layer_idx_to_compress s" and ?C = "cur_chunk_idx_to_compress s"
  have i: "cursors_ok s" "states_ok s" "data_ok (cdx cfg s) s" "addrs_ok s" "arenas_ok s" "fds_ok s"
    using inv by (auto simp: kv_inv_def)
  note ix = comp_cursor_ix [OF i(1) c] and raw = comp_cursor_raw [OF i(1,2) c]
  have p: "plan_ok s" using i(1) by (simp add: cursors_ok_def)
  from data_okD(1) [OF i(3) ix raw] obtain a m where am: "raw_chunks s ?L ?C = Some a" "svm_mem s a = Some m"
    "length (k_mem m) = rbytes s" "length (v_mem m) = rbytes s" by (auto simp: raw_ok_def)
  define as where "as = pick_arena env (arena_bytes s) (kv_raw_size (kv_hidden_dim s)) (arenas s ?L)"
  define k where "k = enc (cdx cfg s) True ?L (k_mem m)"
  define v where "v = enc (cdx cfg s) False ?L (v_mem m)"
  define t where "t = length (fst k) + length (fst v) + comp_meta_bytes (backend cfg) (kv_hidden_dim s)"
  define s' where "s' = compress_update s ?L ?C a as k v t"
  note kvc = compress_cursors [OF i(1) c s'_def]
  have nl: "next_layer_to_offload s = num_layers s - 1"
    using no_offload [OF i(5)] kvc(2) by (simp only: append_is_Nil_conv) simp
  have old: "\<forall>a\<in>set (arenas s ?L). cap a = arena_bytes s \<and> arena_top a \<le> arena_bytes s"
    using i(5) nl ix by (auto simp: arenas_ok_def chunk_ix_def)
  have len: "length (fst k) + length (fst v) \<le> kv_raw_size (kv_hidden_dim s)"
    "length (fst k) + length (fst v) \<le> arena_bytes s"
    using enc_bound [OF fits am(3,4), of ?L] room by (auto simp: k_def v_def arena_room_def)
  note pa = pick_arena_ok [OF old len, of env, folded as_def]
  have pre: "compress_pre s a m as" using am pa by (auto simp: compress_pre_def)
  have cap: "cap (last as) = arena_bytes s" using pa by (auto dest: last_in_set)
  show thesis
  proof (rule that)
    show "compress_one env cfg (cdx cfg s) s = Ok (s', t)"
      using chunk_ix_idx_ok [OF p ix] fits_backend [OF fits] am pa(3) cap
      by (simp add: compress_one_def Let_def s'_def t_def k_def v_def as_def not_less add.assoc)
    show "kv_inv (cdx cfg s) s'"
      using kvc(1) compress_states [OF i(1,2) c s'_def] compress_data [OF inv c pre nl k_def v_def s'_def]
        compress_arenas [OF i(5,1) c nl pa(1,2) _ s'_def] pa(3) i(6)
      by (simp add: kv_inv_def fds_ok_def add.assoc) (simp add: s'_def)
    show "compress_step_spec (cdx cfg s) s s'"
      using kvc(2,3) compress_one_view [OF inv fits c pre nl k_def v_def s'_def]
      by (auto simp: compress_step_spec_def Let_def)
    show "\<exists>m::chunk_mem. length (k_mem m) = rbytes s \<and> length (v_mem m) = rbytes s \<and>
       k = enc (cdx cfg s) True ?L (k_mem m) \<and> v = enc (cdx cfg s) False ?L (v_mem m)"
      using am(3,4) by (intro exI [of _ m]) (simp add: k_def v_def)
  qed (simp_all add: s'_def t_def)
qed

lemma compress_loop_ok:
  assumes "kv_inv (cdx cfg s) s" "fits (backend cfg) (kv_hidden_dim s)" "arena_room cfg s"
    and "n \<le> length (comp_rest s)"
  shows "\<exists>s' t. compress_loop env cfg (cdx cfg s) n s tot = Ok (s', t) \<and>
    kv_inv (cdx cfg s) s' \<and> compress_spec (cdx cfg s) n s s'"
  using assms
proof (induction n arbitrary: s tot)
  case 0
  then show ?case by (simp add: compress_spec_def)
next
  case (Suc n)
  obtain l c where seek: "compress_seek (chunk_bound s) (cur_layer_idx_to_compress s)
      (cur_chunk_idx_to_compress s) = (l, c)" by fastforce
  define s0 where "s0 = s\<lparr>cur_layer_idx_to_compress := l, cur_chunk_idx_to_compress := c\<rparr>"
  have cu: "cursors_ok s" using Suc.prems(1) by (simp add: kv_inv_def)
  from Suc.prems(4) have ne: "comp_rest s \<noteq> []" by auto
  have sk: "0 \<le> c" "cursor_ok (\<lambda>i. 0) (chunk_bound s) (num_layers s) l c"
    "rest (\<lambda>i. 0) (chunk_bound s) l c = comp_rest s"
    "taken (\<lambda>i. 0) (chunk_bound s) (num_layers s) l c = comp_taken s"
    using compress_seek_ok [OF _ _ ne seek] cu by (auto simp: cursors_ok_def)
  then have l: "0 \<le> l" by (simp add: cursor_ok_def)
  have s0: "kv_inv (cdx cfg s) s0" "fits (backend cfg) (kv_hidden_dim s0)" "arena_room cfg s0"
    "0 \<le> cur_chunk_idx_to_compress s0" "cdx cfg s0 = cdx cfg s" "compress_spec (cdx cfg s) 0 s s0"
    using kv_inv_comp_cursor [OF Suc.prems(1) sk(2,4,3)] Suc.prems sk
    by (simp_all add: s0_def arena_room_def compress_spec_def plan_frame_def
        same_dataD(2) [OF same_data_cursor(1)])
  obtain a as k v t s1 where one: "compress_one env cfg (cdx cfg s) s0 = Ok (s1, t)"
    "s1 = compress_update s0 (cur_layer_idx_to_compress s0) (cur_chunk_idx_to_compress s0) a as k v t"
    "kv_inv (cdx cfg s) s1" "compress_step_spec (cdx cfg s) s0 s1"
    using compress_one_ok [of cfg s0 env] s0 by metis
  have sp: "compress_spec (cdx cfg s) 1 s s1"
    using compress_spec_trans [OF s0(6) compress_spec_step [OF one(4,2)]] by simp
  have s1: "fits (backend cfg) (kv_hidden_dim s1)" "arena_room cfg s1" "cdx cfg s1 = cdx cfg s"
    "n \<le> length (comp_rest s1)"
    using s0 Suc.prems(4) sp by (auto simp: one(2) arena_room_def compress_spec_def)
  obtain s' t' where "compress_loop env cfg (cdx cfg s) n s1 (tot + t) = Ok (s', t')"
    "kv_inv (cdx cfg s) s'" "compress_spec (cdx cfg s) n s1 s'"
    using Suc.IH [of s1 "tot + t"] one(3) s1 by auto
  moreover have "compress_loop env cfg (cdx cfg s) (Suc n) s tot
      = compress_loop env cfg (cdx cfg s) n s1 (tot + t)"
    using seek l one(1) by (simp add: s0_def [symmetric])
  ultimately show ?case using compress_spec_trans [OF sp] by fastforce
qed

end

end
