(* ===== verification/Kv_Store_Correct.thy ===== *)
theory Kv_Store_Correct
  imports Kv_Compress_Correct
begin

text \<open>
  Storing chunks keeps the invariant and the content of every chunk, provided the file system
  accepts the writes.
\<close>

lemma store_seek_ok:
  assumes "plan_ok s" "cursor_ok (chunk_bound s) (\<lambda>i. num_chunks_per_tensor s) (num_layers s) l c"
    "rest (chunk_bound s) (\<lambda>i. num_chunks_per_tensor s) l c \<noteq> []"
    and "store_seek (chunk_bound s) (num_chunks_per_tensor s) fds l c = (fds', l', c')"
  shows "chunk_bound s l' \<le> c' \<and>
    cursor_ok (chunk_bound s) (\<lambda>i. num_chunks_per_tensor s) (num_layers s) l' c' \<and>
    rest (chunk_bound s) (\<lambda>i. num_chunks_per_tensor s) l' c'
      = rest (chunk_bound s) (\<lambda>i. num_chunks_per_tensor s) l c \<and>
    taken (chunk_bound s) (\<lambda>i. num_chunks_per_tensor s) (num_layers s) l' c'
      = taken (chunk_bound s) (\<lambda>i. num_chunks_per_tensor s) (num_layers s) l c \<and>
    (\<forall>x. fds' x = fds x \<or> fds' x = Closed)"
  using assms
proof (induction "chunk_bound s" "num_chunks_per_tensor s" fds l c rule: store_seek.induct)
  case (1 fds l c)
  show ?case
  proof (cases "c < chunk_bound s l")
    case True
    note skip = sreg.skip_layer [OF 1(2,3) True 1(4)]
    from 1(3) have l: "0 \<le> l" by (simp add: cursor_ok_def)
    from 1(5) True l have "store_seek (chunk_bound s) (num_chunks_per_tensor s) (fds(l := Closed))
        (l - 1) (num_chunks_per_tensor s - 1) = (fds', l', c')"
      by (subst (asm) store_seek.simps) simp
    with 1(1) [OF _ 1(2)] True l skip 1(4) show ?thesis by (simp split: if_splits) metis
  next
    case False
    with 1(5) have "l' = l" "c' = c" "fds' = fds" by (subst (asm) store_seek.simps, simp)+
    with False 1(3) show ?thesis by simp
  qed
qed

lemma store_cursor_ix:
  assumes "cursors_ok s"
    "chunk_bound s (cur_layer_idx_to_store s) \<le> cur_chunk_idx_to_store s"
  shows "chunk_ix s (cur_layer_idx_to_store s) (cur_chunk_idx_to_store s)"
proof -
  have "plan_ok s" "0 \<le> cur_layer_idx_to_store s" "cur_layer_idx_to_store s < num_layers s"
    "cur_chunk_idx_to_store s < num_chunks_per_tensor s"
    using assms(1) by (auto simp: cursors_ok_def cursor_ok_def)
  with assms(2) plan_okD(5) [of s "cur_layer_idx_to_store s"] show ?thesis by (simp add: chunk_ix_def)
qed

lemma store_cursor_raw:
  assumes "cursors_ok s" "states_ok s"
    "chunk_bound s (cur_layer_idx_to_store s) \<le> cur_chunk_idx_to_store s"
  shows "states s (cur_layer_idx_to_store s) (cur_chunk_idx_to_store s) = Raw"
proof -
  let ?l = "cur_layer_idx_to_store s" and ?c = "cur_chunk_idx_to_store s"
  have "(?l, ?c) \<notin> set (comp_taken s)" "(?l, ?c) \<notin> set (store_taken s)"
    using assms by (auto simp: taken_def cursors_ok_def cursor_ok_def)
  with store_cursor_ix [OF assms(1,3)] assms(2) show ?thesis
    by (simp add: states_ok_def expected_state_def)
qed

subsection \<open>One chunk\<close>

lemma store_update_frame [simp]:
  "num_layers (store_update s L C a off f) = num_layers s"
  "kv_hidden_dim (store_update s L C a off f) = kv_hidden_dim s"
  "num_chunks_per_tensor (store_update s L C a off f) = num_chunks_per_tensor s"
  "per_layer_balance (store_update s L C a off f) = per_layer_balance s"
  "chunk_bound (store_update s L C a off f) = chunk_bound s"
  "max_comp_chunks (store_update s L C a off f) = max_comp_chunks s"
  "max_store_chunks (store_update s L C a off f) = max_store_chunks s"
  "cur_layer_idx_to_compress (store_update s L C a off f) = cur_layer_idx_to_compress s"
  "cur_chunk_idx_to_compress (store_update s L C a off f) = cur_chunk_idx_to_compress s"
  "cur_layer_idx_to_store (store_update s L C a off f) = cur_layer_idx_to_store s"
  "n_cur_comp_chunks (store_update s L C a off f) = n_cur_comp_chunks s"
  "n_cur_comp_saved_bytes (store_update s L C a off f) = n_cur_comp_saved_bytes s"
  "n_cur_arena_offload_bytes (store_update s L C a off f) = n_cur_arena_offload_bytes s"
  "arenas (store_update s L C a off f) = arenas s"
  "arena_bytes (store_update s L C a off f) = arena_bytes s"
  "layer_fds (store_update s L C a off f) = layer_fds s"
  "next_layer_to_offload (store_update s L C a off f) = next_layer_to_offload s"
  "offload_used_bytes (store_update s L C a off f) = offload_used_bytes s"
  "swap_file (store_update s L C a off f) = swap_file s"
  "raw_chunks (store_update s L C a off f) = raw_chunks s"
  "k_comp (store_update s L C a off f) = k_comp s"
  "v_comp (store_update s L C a off f) = v_comp s"
  "svm_next (store_update s L C a off f) = svm_next s"
  "pending_chunks_total (store_update s L C a off f) = pending_chunks_total s"
  by (simp_all add: store_update_def Let_def)

lemma store_update_sel:
  "kv_file (store_update s L C a off f) = (kv_file s)(L := f)"
  "k_stored (store_update s L C a off f) =
     upd2 (k_stored s) L C \<lparr>file_offset = off, stored_size = rbytes s\<rparr>"
  "v_stored (store_update s L C a off f) =
     upd2 (v_stored s) L C \<lparr>file_offset = off + rbytes s, stored_size = rbytes s\<rparr>"
  "states (store_update s L C a off f) = upd2 (states s) L C Stored"
  "svm_mem (store_update s L C a off f) = (svm_mem s)(a := None)"
  "svm_chunk_ptrs (store_update s L C a off f) = upd2 (svm_chunk_ptrs s) L C None"
  "cur_chunk_idx_to_store (store_update s L C a off f) = C - 1"
  "n_cur_store_chunks (store_update s L C a off f) = n_cur_store_chunks s + 1"
  by (simp_all add: store_update_def Let_def)

lemma layer_pools_store [simp]: "layer_pools (store_update s L C a off f) = layer_pools s"
  by (intro layer_pools_cong) simp_all

text \<open>Slots of different chunks of a layer file do not overlap.\<close>

lemma slot_disjoint:
  fixes a b m :: nat
  assumes "a \<noteq> b"
  shows "a * m + m \<le> b * m \<or> b * m + m \<le> a * m"
proof (cases "a < b")
  case True
  then have "Suc a * m \<le> b * m" by (intro mult_le_mono1) simp
  then show ?thesis by simp
next
  case False
  with assms have "Suc b * m \<le> a * m" by (intro mult_le_mono1) simp
  then show ?thesis by simp
qed

lemma read_other_slot:
  assumes "a \<noteq> b" "length k = rb" "length v = rb" "x = 0 \<or> x = rb"
  shows "read_at (kvf.put_pair f (b * (2 * rb)) k v) (a * (2 * rb) + x) rb
    = read_at f (a * (2 * rb) + x) rb"
  using slot_disjoint [OF assms(1), of "2 * rb"] assms(2-4) by (intro kvf.pair_frame) auto

definition io_writes :: "io_env \<Rightarrow> bool" where
  "io_writes env \<longleftrightarrow> (\<forall>L. open_w env L) \<and> (\<forall>L off n. n \<le> pwrite_n env L off n)"

definition store_step_spec :: "'m codec \<Rightarrow> 'm kv_state \<Rightarrow> 'm kv_state \<Rightarrow> bool" where
  "store_step_spec cd s s' \<longleftrightarrow>
     (let L = cur_layer_idx_to_store s; C = cur_chunk_idx_to_store s in
      store_rest s = store_rest s' @ [(L, C)] \<and> store_taken s' = (L, C) # store_taken s \<and>
      (\<forall>i j. chunk_ix s i j \<longrightarrow> chunk_view cd s' i j = chunk_view cd s i j))"

definition store_pre :: "'m kv_state \<Rightarrow> nat \<Rightarrow> chunk_mem \<Rightarrow> nat \<Rightarrow> filedata \<Rightarrow> bool" where
  "store_pre s a m off f \<longleftrightarrow>
     (let L = cur_layer_idx_to_store s; C = cur_chunk_idx_to_store s in
     raw_chunks s L C = Some a \<and> svm_mem s a = Some m \<and>
     length (k_mem m) = rbytes s \<and> length (v_mem m) = rbytes s \<and>
     off = nat (C - chunk_bound s L) * (2 * rbytes s) \<and>
     f = kvf.put_pair (kv_file s L) off (k_mem m) (v_mem m))"

lemma store_cursors:
  assumes "cursors_ok s" "chunk_bound s (cur_layer_idx_to_store s) \<le> cur_chunk_idx_to_store s"
    and "s' = store_update s (cur_layer_idx_to_store s) (cur_chunk_idx_to_store s) a off f"
  shows "cursors_ok s'" "store_rest s = store_rest s' @ [(cur_layer_idx_to_store s, cur_chunk_idx_to_store s)]"
    "store_taken s' = (cur_layer_idx_to_store s, cur_chunk_idx_to_store s) # store_taken s"
proof -
  have p: "plan_ok s" using assms(1) by (simp add: cursors_ok_def)
  have e: "plan_ok s' = plan_ok s" using assms(3) by (simp add: plan_ok_def)
  note t = sreg.take_chunk [OF p, of "cur_layer_idx_to_store s" "cur_chunk_idx_to_store s"]
  from assms t p e show "cursors_ok s'"
    "store_rest s = store_rest s' @ [(cur_layer_idx_to_store s, cur_chunk_idx_to_store s)]"
    "store_taken s' = (cur_layer_idx_to_store s, cur_chunk_idx_to_store s) # store_taken s"
    by (simp_all add: cursors_ok_def store_update_sel)
qed

lemma store_states:
  assumes "cursors_ok s" "states_ok s"
    "chunk_bound s (cur_layer_idx_to_store s) \<le> cur_chunk_idx_to_store s"
    and "s' = store_update s (cur_layer_idx_to_store s) (cur_chunk_idx_to_store s) a off f"
  shows "states_ok s'"
proof -
  let ?x = "(cur_layer_idx_to_store s, cur_chunk_idx_to_store s)"
  have "?x \<notin> set (comp_taken s)"
    using assms(1,3) by (auto simp: taken_def cursors_ok_def cursor_ok_def)
  with store_cursors(3) [OF assms(1,3,4)] assms(2) show ?thesis
    by (auto simp: states_ok_def expected_state_def chunk_ix_def assms(4) store_update_sel)
qed

text \<open>What a chunk other than the one under the cursor looks like after the step.\<close>

lemma store_other_raw:
  assumes "addrs_ok s" "chunk_ix s i j" "chunk_ix s L C" "states s L C = Raw" "states s i j = Raw"
    "raw_chunks s L C = Some a" "\<not> (i = L \<and> j = C)"
  shows "raw_chunks s i j \<noteq> Some a"
  using assms unfolding addrs_ok_def by metis

lemma store_other_stored:
  assumes pre: "store_pre s a m off f" and ok: "stored_ok s i j"
    and ij: "chunk_bound s i \<le> j" "\<not> (i = cur_layer_idx_to_store s \<and> j = cur_chunk_idx_to_store s)"
    and c: "chunk_bound s (cur_layer_idx_to_store s) \<le> cur_chunk_idx_to_store s"
    and s': "s' = store_update s (cur_layer_idx_to_store s) (cur_chunk_idx_to_store s) a off f"
  shows "read_at (kv_file s' i) (file_offset (k_stored s i j)) (rbytes s)
      = read_at (kv_file s i) (file_offset (k_stored s i j)) (rbytes s)"
    "read_at (kv_file s' i) (file_offset (v_stored s i j)) (rbytes s)
      = read_at (kv_file s i) (file_offset (v_stored s i j)) (rbytes s)"
proof -
  let ?L = "cur_layer_idx_to_store s" and ?C = "cur_chunk_idx_to_store s"
  have "nat (j - chunk_bound s i) \<noteq> nat (?C - chunk_bound s ?L)" if "i = ?L"
    using ij c that by auto
  with pre ok read_other_slot [of "nat (j - chunk_bound s i)" "nat (?C - chunk_bound s ?L)"
      "k_mem m" "rbytes s" "v_mem m" _ "kv_file s ?L"]
  show "read_at (kv_file s' i) (file_offset (k_stored s i j)) (rbytes s)
      = read_at (kv_file s i) (file_offset (k_stored s i j)) (rbytes s)"
    "read_at (kv_file s' i) (file_offset (v_stored s i j)) (rbytes s)
      = read_at (kv_file s i) (file_offset (v_stored s i j)) (rbytes s)"
    by (force simp: s' store_update_sel store_pre_def stored_ok_def Let_def)+
qed

lemma store_data:
  assumes inv: "kv_inv cd s"
    and c: "chunk_bound s (cur_layer_idx_to_store s) \<le> cur_chunk_idx_to_store s"
    and pre: "store_pre s a m off f"
    and s': "s' = store_update s (cur_layer_idx_to_store s) (cur_chunk_idx_to_store s) a off f"
  shows "data_ok cd s'" "addrs_ok s'"
    "\<forall>i j. chunk_ix s i j \<longrightarrow> chunk_view cd s' i j = chunk_view cd s i j"
proof -
  let ?L = "cur_layer_idx_to_store s" and ?C = "cur_chunk_idx_to_store s"
  have i: "cursors_ok s" "states_ok s" "data_ok cd s" "addrs_ok s" using inv by (auto simp: kv_inv_def)
  note ix = store_cursor_ix [OF i(1) c] and raw = store_cursor_raw [OF i(1,2) c]
  have a: "raw_chunks s ?L ?C = Some a" using pre by (simp add: store_pre_def Let_def)
  have ix': "chunk_ix s' i j = chunk_ix s i j" for i j by (simp add: chunk_ix_def s')
  have st: "states s' i j = (if i = ?L \<and> j = ?C then Stored else states s i j)" for i j
    by (simp add: s' store_update_sel)
  show "addrs_ok s'"
    using i(4) unfolding addrs_ok_def ix' st by (auto simp: s' split: if_splits)
  have step: "(case states s' i j of Raw \<Rightarrow> raw_ok s' i j
      | Compressed \<Rightarrow> svm_chunk_ptrs s' i j = None \<and> comp_ok cd s' i j
      | Stored \<Rightarrow> svm_chunk_ptrs s' i j = None \<and> stored_ok s' i j) \<and>
      chunk_view cd s' i j = chunk_view cd s i j" if ij: "chunk_ix s i j" for i j
  proof (cases "i = ?L \<and> j = ?C")
    case True
    have "stored_ok s' i j" using True pre c
      by (simp add: stored_ok_def s' store_update_sel store_pre_def Let_def)
    moreover have "chunk_view cd s i j = Some (k_mem m, v_mem m)"
      using True pre raw by (simp add: chunk_view_def store_pre_def Let_def)
    moreover have "chunk_view cd s' i j = Some (k_mem m, v_mem m)"
      using True pre kvf.pair_roundtrip [of "kv_file s ?L" off "k_mem m" "v_mem m"]
      by (simp add: chunk_view_def s' store_update_sel store_pre_def Let_def)
    ultimately show ?thesis using True by (simp add: st) (simp add: s' store_update_sel)
  next
    case False
    then have other: "states s' i j = states s i j" "svm_chunk_ptrs s' i j = svm_chunk_ptrs s i j"
      "k_stored s' i j = k_stored s i j" "v_stored s' i j = v_stored s i j"
      by (auto simp: s' store_update_sel)
    show ?thesis
    proof (cases "states s i j")
      case Raw
      note na = store_other_raw [OF i(4) ij ix raw Raw a False]
      with data_okD(1) [OF i(3) ij Raw] Raw other show ?thesis
        by (auto simp: raw_ok_def chunk_view_def s' store_update_sel)
    next
      case Compressed
      with data_okD(2) [OF i(3) ij Compressed] other show ?thesis
        by (simp add: comp_ok_def chunk_view_def s')
    next
      case Stored
      have ok: "stored_ok s i j" using data_okD(3) [OF i(3) ij Stored] by simp
      then have "chunk_bound s i \<le> j" by (simp add: stored_ok_def)
      from store_other_stored [OF pre ok this False c s'] Stored other ok data_okD(3) [OF i(3) ij Stored]
      show ?thesis by (simp add: stored_ok_def chunk_view_def) (simp add: s')
    qed
  qed
  from step show "data_ok cd s'" by (simp add: data_ok_def ix')
  from step show "\<forall>i j. chunk_ix s i j \<longrightarrow> chunk_view cd s' i j = chunk_view cd s i j" by simp
qed

lemma store_one_ok:
  assumes inv: "kv_inv cd s" and io: "io_writes env"
    and c: "chunk_bound s (cur_layer_idx_to_store s) \<le> cur_chunk_idx_to_store s"
  obtains s0 s' a off f where "store_one env s = Ok (s', True)" "kv_inv cd s'" "store_step_spec cd s s'"
    "s0 = s\<lparr>layer_fds := (layer_fds s)(cur_layer_idx_to_store s := WrOnly)\<rparr>"
    "s' = store_update s0 (cur_layer_idx_to_store s) (cur_chunk_idx_to_store s) a off f"
proof -
  let ?L = "cur_layer_idx_to_store s" and ?C = "cur_chunk_idx_to_store s"
  have i: "cursors_ok s" "states_ok s" "data_ok cd s" "addrs_ok s" "arenas_ok s" "fds_ok s"
    using inv by (auto simp: kv_inv_def)
  note ix = store_cursor_ix [OF i(1) c] and raw = store_cursor_raw [OF i(1,2) c]
  have p: "plan_ok s" using i(1) by (simp add: cursors_ok_def)
  from data_okD(1) [OF i(3) ix raw] obtain a m where am: "raw_chunks s ?L ?C = Some a" "svm_mem s a = Some m"
    "length (k_mem m) = rbytes s" "length (v_mem m) = rbytes s" by (auto simp: raw_ok_def)
  define off where "off = nat (?C - chunk_bound s ?L) * (2 * rbytes s)"
  define f where "f = kvf.put_pair (kv_file s ?L) off (k_mem m) (v_mem m)"
  define s0 where "s0 = s\<lparr>layer_fds := (layer_fds s)(?L := WrOnly)\<rparr>"
  define s' where "s' = store_update s0 ?L ?C a off f"
  have off: "nat ((?C - chunk_bound s ?L) * (int (rbytes s) * 2)) = off"
    using c by (simp add: off_def nat_mult_distrib mult.commute)
  have fd: "layer_fds s ?L = Closed \<or> layer_fds s ?L = WrOnly"
    using i(6) fd.exhaust unfolding fds_ok_def by metis
  have sd: "same_data s s0"
    unfolding same_data_def s0_def by (intro conjI layer_pools_cong) simp_all
  have inv0: "kv_inv cd s0"
  proof (rule kv_inv_same [OF inv sd])
    show "cursors_ok s0" using i(1) same_dataD(3) [OF sd] by (simp add: cursors_ok_def) (simp add: s0_def)
    have "arenas_ok s0 = arenas_ok s" by (simp add: arenas_ok_def s0_def)
    with i(5) show "arenas_ok s0" by simp
    show "fds_ok s0" using i(6) ix by (simp add: fds_ok_def s0_def chunk_ix_def)
  qed (simp_all add: s0_def)
  have pre: "store_pre s0 a m off f"
    using am by (simp add: store_pre_def Let_def s0_def off_def f_def)
  have sel: "cur_layer_idx_to_store s0 = ?L" "cur_chunk_idx_to_store s0 = ?C" "chunk_bound s0 = chunk_bound s"
    by (simp_all add: s0_def)
  have c0: "chunk_bound s0 (cur_layer_idx_to_store s0) \<le> cur_chunk_idx_to_store s0" using c sel by simp
  have s'0: "s' = store_update s0 (cur_layer_idx_to_store s0) (cur_chunk_idx_to_store s0) a off f"
    by (simp add: s'_def sel)
  have i0: "cursors_ok s0" "states_ok s0" "arenas_ok s0" "fds_ok s0" using inv0 by (auto simp: kv_inv_def)
  note cu = store_cursors [OF i0(1) c0 s'0] and da = store_data [OF inv0 c0 pre s'0]
  show thesis
  proof (rule that [OF _ _ _ s0_def s'_def])
    have w: "length bs \<le> rbytes s \<Longrightarrow> pwrite g o' bs (pwrite_n env ?L o' (rbytes s)) = write_at g o' bs" for g o' bs
      using io by (intro pwrite_full) (auto simp: io_writes_def intro: order_trans)
    have fdL: "(if layer_fds s ?L = Closed then WrOnly else layer_fds s ?L) = WrOnly" using fd by auto
    show "store_one env s = Ok (s', True)"
      using chunk_ix_idx_ok [OF p ix] io am fdL
      by (simp add: store_one_def Let_def off s'_def s0_def f_def kvf.put_pair_def w io_writes_def)
    have "arenas_ok s' = arenas_ok s0" by (simp add: arenas_ok_def s'_def)
    with cu(1) store_states [OF i0(1,2) c0 s'0] da(1,2) i0(3,4) show "kv_inv cd s'"
      by (simp add: kv_inv_def fds_ok_def) (simp add: s'_def)
    show "store_step_spec cd s s'"
      using cu(2,3) da(3) same_dataD(1,2) [OF sd]
      by (simp add: store_step_spec_def Let_def) (simp add: s0_def)
  qed
qed

subsection \<open>Many chunks\<close>

definition store_spec :: "'m codec \<Rightarrow> nat \<Rightarrow> 'm kv_state \<Rightarrow> 'm kv_state \<Rightarrow> bool" where
  "store_spec cd n s s' \<longleftrightarrow>
     plan_frame s s' \<and> comp_taken s' = comp_taken s \<and> comp_rest s' = comp_rest s \<and>
     next_layer_to_offload s' = next_layer_to_offload s \<and>
     n_cur_arena_offload_bytes s' = n_cur_arena_offload_bytes s \<and>
     n_cur_comp_saved_bytes s' = n_cur_comp_saved_bytes s \<and>
     (\<exists>xs. length xs = n \<and> store_rest s = store_rest s' @ xs \<and> store_taken s' = xs @ store_taken s) \<and>
     (\<forall>i j. chunk_ix s i j \<longrightarrow> chunk_view cd s' i j = chunk_view cd s i j)"

lemma store_spec_trans:
  assumes "store_spec cd m s t" "store_spec cd n t u"
  shows "store_spec cd (m + n) s u"
proof -
  obtain xs ys where "length xs = m" "store_rest s = store_rest t @ xs" "store_taken t = xs @ store_taken s"
    "length ys = n" "store_rest t = store_rest u @ ys" "store_taken u = ys @ store_taken t"
    using assms unfolding store_spec_def by auto
  then have "\<exists>xs. length xs = m + n \<and> store_rest s = store_rest u @ xs \<and> store_taken u = xs @ store_taken s"
    by (intro exI [of _ "ys @ xs"]) simp
  moreover have "plan_frame s t" "plan_frame s u"
    using assms by (auto simp: store_spec_def intro: plan_frame_trans)
  ultimately show ?thesis
    using assms plan_frame_ix [OF \<open>plan_frame s t\<close>] by (simp add: store_spec_def)
qed

lemma kv_inv_store_cursor:
  assumes "kv_inv cd s"
    "cursor_ok (chunk_bound s) (\<lambda>i. num_chunks_per_tensor s) (num_layers s) l c"
    "taken (chunk_bound s) (\<lambda>i. num_chunks_per_tensor s) (num_layers s) l c = store_taken s"
    "\<forall>x. fds x = layer_fds s x \<or> fds x = Closed"
  shows "kv_inv cd (s\<lparr>layer_fds := fds, cur_layer_idx_to_store := l, cur_chunk_idx_to_store := c\<rparr>)"
proof (rule kv_inv_same [OF assms(1) same_data_cursor(2)])
  let ?t = "s\<lparr>layer_fds := fds, cur_layer_idx_to_store := l, cur_chunk_idx_to_store := c\<rparr>"
  have i: "cursors_ok s" "arenas_ok s" "fds_ok s" using assms(1) by (simp_all add: kv_inv_def)
  have "plan_ok ?t = plan_ok s" by (rule same_dataD(3) [OF same_data_cursor(2)])
  with i(1) assms(2-3) show "cursors_ok ?t" by (simp add: cursors_ok_def)
  have "arenas_ok ?t = arenas_ok s" by (simp add: arenas_ok_def)
  with i(2) show "arenas_ok ?t" by simp
  from assms(4) i(3) show "fds_ok ?t" unfolding fds_ok_def by (simp, metis fd.distinct(1))
qed (use assms(3) in simp_all)

lemma store_loop_ok:
  assumes "kv_inv cd s" "io_writes env" "n \<le> length (store_rest s)"
  shows "\<exists>s'. store_loop env n s = Ok s' \<and> kv_inv cd s' \<and> store_spec cd n s s'"
  using assms
proof (induction n arbitrary: s)
  case 0
  then show ?case by (simp add: store_spec_def)
next
  case (Suc n)
  obtain fds l c where seek: "store_seek (chunk_bound s) (num_chunks_per_tensor s) (layer_fds s)
      (cur_layer_idx_to_store s) (cur_chunk_idx_to_store s) = (fds, l, c)" by (metis prod_cases3)
  define s0 where "s0 = s\<lparr>layer_fds := fds, cur_layer_idx_to_store := l, cur_chunk_idx_to_store := c\<rparr>"
  have i: "cursors_ok s" "fds_ok s" using Suc.prems(1) by (simp_all add: kv_inv_def)
  from Suc.prems(3) have ne: "store_rest s \<noteq> []" by auto
  have sk: "chunk_bound s l \<le> c"
    "cursor_ok (chunk_bound s) (\<lambda>i. num_chunks_per_tensor s) (num_layers s) l c"
    "rest (chunk_bound s) (\<lambda>i. num_chunks_per_tensor s) l c = store_rest s"
    "taken (chunk_bound s) (\<lambda>i. num_chunks_per_tensor s) (num_layers s) l c = store_taken s"
    "\<forall>x. fds x = layer_fds s x \<or> fds x = Closed"
    using store_seek_ok [OF _ _ ne seek] i by (auto simp: cursors_ok_def fds_ok_def)
  then have l: "0 \<le> l" by (simp add: cursor_ok_def)
  have s0: "kv_inv cd s0" "store_spec cd 0 s s0"
    "chunk_bound s0 (cur_layer_idx_to_store s0) \<le> cur_chunk_idx_to_store s0"
    using kv_inv_store_cursor [OF Suc.prems(1) sk(2,4,5)] sk
    by (simp_all add: s0_def store_spec_def plan_frame_def same_dataD(2) [OF same_data_cursor(2)])
  obtain s00 s1 a off f where one: "store_one env s0 = Ok (s1, True)" "kv_inv cd s1"
    "store_step_spec cd s0 s1"
    "s00 = s0\<lparr>layer_fds := (layer_fds s0)(cur_layer_idx_to_store s0 := WrOnly)\<rparr>"
    "s1 = store_update s00 (cur_layer_idx_to_store s0) (cur_chunk_idx_to_store s0) a off f"
    by (rule store_one_ok [OF s0(1) Suc.prems(2) s0(3)])
  have "store_spec cd 1 s0 s1"
    using one(3) unfolding store_spec_def store_step_spec_def Let_def
    by (auto simp: one(5) one(4) plan_frame_def)
  then have sp: "store_spec cd 1 s s1" using store_spec_trans [OF s0(2)] by fastforce
  then have "n \<le> length (store_rest s1)" using Suc.prems(3) by (auto simp: store_spec_def)
  with Suc.IH [OF one(2) Suc.prems(2)] obtain s' where "store_loop env n s1 = Ok s'"
    "kv_inv cd s'" "store_spec cd n s1 s'" by auto
  moreover have "store_loop env (Suc n) s = store_loop env n s1"
    using seek l one(1) by (simp add: s0_def [symmetric])
  ultimately show ?case using store_spec_trans [OF sp] by fastforce
qed

subsection \<open>Closing the files\<close>

lemma close_fds_inv:
  assumes "kv_inv cd s"
  shows "kv_inv cd (mzcache_close_stored_files s)" "same_data s (mzcache_close_stored_files s)"
    "layer_fds (mzcache_close_stored_files s) l = Closed"
proof -
  let ?t = "mzcache_close_stored_files s"
  have e: "?t = s\<lparr>layer_fds := (\<lambda>l. if 0 \<le> l \<and> l < num_layers s then Closed else layer_fds s l)\<rparr>"
    by (simp add: mzcache_close_stored_files_def close_fds_def)
  have lp: "layer_pools ?t = layer_pools s" by (intro layer_pools_cong) (simp_all add: e)
  show sd: "same_data s ?t" unfolding same_data_def lp by (simp add: e)
  have i: "cursors_ok s" "arenas_ok s" "fds_ok s" using assms by (simp_all add: kv_inv_def)
  have "cursors_ok ?t" using i(1) same_dataD(3) [OF sd] by (simp add: cursors_ok_def e)
  moreover have "arenas_ok ?t = arenas_ok s" by (simp add: arenas_ok_def e)
  moreover have "fds_ok ?t" using i(3) by (auto simp: fds_ok_def e)
  ultimately show "kv_inv cd ?t" using i by (intro kv_inv_same [OF assms sd]) (simp_all add: e)
  show "layer_fds ?t l = Closed" using i(3) by (auto simp: fds_ok_def e)
qed

end
