(* ===== verification/Layer_Sync.thy ===== *)
theory Layer_Sync
  imports Mz_Prelude
begin

text \<open>
  \<open>struct LayerSync\<close> of \<open>mzcache/include/mzcache_core.h\<close>: a counter of restore tasks that are
  still to run for one layer and the promise that the decode thread waits on. The promise is a
  one-shot: a second \<open>set_value\<close> throws.
\<close>

record layer_sync =
  remaining :: int
  prom_set :: bool

definition set_value :: "layer_sync \<Rightarrow> layer_sync result" where
  "set_value s = (if prom_set s then Err PromiseAlreadySatisfied else Ok (s\<lparr>prom_set := True\<rparr>))"

definition LayerSync :: "int \<Rightarrow> layer_sync result" where
  "LayerSync init =
     (let s = \<lparr>remaining = init, prom_set = False\<rparr>
      in if init = 0 then set_value s else Ok s)"

definition taskDone :: "layer_sync \<Rightarrow> layer_sync result" where
  "taskDone s =
     (let old = remaining s; s' = s\<lparr>remaining := old - 1\<rparr>
      in if old = 1 then set_value s' else Ok s')"

definition getRemaining :: "layer_sync \<Rightarrow> int" where
  "getRemaining s = remaining s"

definition waitPolling_done :: "layer_sync \<Rightarrow> bool" where
  "waitPolling_done s \<longleftrightarrow> \<not> getRemaining s > 0"

definition wait_returns :: "layer_sync \<Rightarrow> bool" where
  "wait_returns s \<longleftrightarrow> prom_set s"

fun tasksDone :: "nat \<Rightarrow> layer_sync \<Rightarrow> layer_sync result" where
  "tasksDone 0 s = Ok s"
| "tasksDone (Suc k) s = bind_result (taskDone s) (tasksDone k)"

definition sync_after :: "nat \<Rightarrow> nat \<Rightarrow> layer_sync" where
  "sync_after n k = \<lparr>remaining = int n - int k, prom_set = (n \<le> k)\<rparr>"

lemma LayerSync_after: "LayerSync (int n) = Ok (sync_after n 0)"
  by (simp add: LayerSync_def set_value_def sync_after_def Let_def)

lemma taskDone_after: "taskDone (sync_after n k) = Ok (sync_after n (Suc k))"
  by (auto simp: taskDone_def set_value_def sync_after_def Let_def)

lemma tasksDone_after: "tasksDone j (sync_after n k) = Ok (sync_after n (k + j))"
  by (induction j arbitrary: k) (simp_all add: taskDone_after)


end
