(* ===== verification/Thread_Pool.thy ===== *)
theory Thread_Pool
  imports Mz_Prelude "HOL-Library.Multiset"
begin

text \<open>
  \<open>class ThreadPool\<close> of \<open>mzcache/include/mzcache_threadpool.h\<close>: one FIFO queue and a fixed number of
  worker threads per core type. A group holds the queued tasks, the tasks its workers are executing
  and the number of workers; \<open>grp.active\<close> of the source is the number of executing tasks. The
  interleaving of workers is the client's step relation over \<open>take_task\<close> and \<open>finish_task\<close>.
\<close>

datatype CoreType = ALLOC | READ | DECOMP | DECOMP_KERNEL | FREE

record 't group =
  queued :: "'t list"
  active :: "'t list"
  workers :: nat

record 't pool =
  groups :: "CoreType \<Rightarrow> 't group option"
  stop :: bool

definition ThreadPool :: "(CoreType \<Rightarrow> nat list option) \<Rightarrow> 't pool" where
  "ThreadPool cfg =
     \<lparr>groups = (\<lambda>ty. map_option (\<lambda>cores. \<lparr>queued = [], active = [], workers = length cores\<rparr>) (cfg ty)),
      stop = False\<rparr>"

definition group_enqueue :: "'t \<Rightarrow> 't group \<Rightarrow> 't group" where
  "group_enqueue t g = g\<lparr>queued := queued g @ [t]\<rparr>"

definition pool_enqueue :: "CoreType \<Rightarrow> 't \<Rightarrow> 't pool \<Rightarrow> 't pool result" where
  "pool_enqueue ty t p =
     (case groups p ty of
        None \<Rightarrow> Err (RuntimeError ''map::at'')
      | Some g \<Rightarrow> if stop p then Err (RuntimeError ''stopped'')
                  else Ok (p\<lparr>groups := (groups p)(ty \<mapsto> group_enqueue t g)\<rparr>))"

text \<open>The locked section at the top of \<open>worker_loop\<close>: an idle worker takes the front of the queue.\<close>

definition group_take :: "'t group \<Rightarrow> ('t \<times> 't group) option" where
  "group_take g =
     (case queued g of
        [] \<Rightarrow> None
      | t # ts \<Rightarrow> if length (active g) < workers g
                  then Some (t, g\<lparr>queued := ts, active := t # active g\<rparr>) else None)"

definition take_task :: "CoreType \<Rightarrow> 't pool \<Rightarrow> ('t \<times> 't pool) option" where
  "take_task ty p =
     (case groups p ty of None \<Rightarrow> None
      | Some g \<Rightarrow> (case group_take g of None \<Rightarrow> None
          | Some (t, g') \<Rightarrow> Some (t, p\<lparr>groups := (groups p)(ty \<mapsto> g')\<rparr>)))"

definition group_finish :: "'t \<Rightarrow> 't group \<Rightarrow> 't group" where
  "group_finish t g = g\<lparr>active := remove1 t (active g)\<rparr>"

definition finish_task :: "CoreType \<Rightarrow> 't \<Rightarrow> 't pool \<Rightarrow> 't pool" where
  "finish_task ty t p = p\<lparr>groups := (groups p)(ty := map_option (group_finish t) (groups p ty))\<rparr>"

text \<open>A worker thread leaves \<open>worker_loop\<close> only when the pool stops and the queue is drained.\<close>

definition worker_exits :: "'t pool \<Rightarrow> CoreType \<Rightarrow> bool" where
  "worker_exits p ty \<longleftrightarrow> stop p \<and> (case groups p ty of None \<Rightarrow> True | Some g \<Rightarrow> queued g = [])"

definition group_idle :: "'t group \<Rightarrow> bool" where
  "group_idle g \<longleftrightarrow> queued g = [] \<and> active g = []"

definition idle :: "'t pool \<Rightarrow> CoreType \<Rightarrow> bool" where
  "idle p ty \<longleftrightarrow> (case groups p ty of None \<Rightarrow> True | Some g \<Rightarrow> group_idle g)"

definition wait_idle :: "'t pool \<Rightarrow> CoreType \<Rightarrow> bool result" where
  "wait_idle p ty = (case groups p ty of None \<Rightarrow> Err (RuntimeError ''map::at'') | Some g \<Rightarrow> Ok (group_idle g))"

definition wait_idle_all :: "'t pool \<Rightarrow> bool" where
  "wait_idle_all p \<longleftrightarrow> list_all (idle p) [ALLOC, READ, DECOMP, DECOMP_KERNEL, FREE]"

subsection \<open>Pending tasks\<close>

definition group_pending :: "'t group \<Rightarrow> 't multiset" where
  "group_pending g = mset (queued g) + mset (active g)"

datatype 't group_event = Enqueue 't | Start | Finish 't

definition enqueued :: "'t group_event list \<Rightarrow> 't list" where
  "enqueued es = concat (map (\<lambda>e. case e of Enqueue t \<Rightarrow> [t] | _ \<Rightarrow> []) es)"

definition finished :: "'t group_event list \<Rightarrow> 't list" where
  "finished es = concat (map (\<lambda>e. case e of Finish t \<Rightarrow> [t] | _ \<Rightarrow> []) es)"

text \<open>The contract the swap code relies on: a queued task is started exactly once and in order, and
  it stays pending until a worker has finished it.\<close>

locale work_group =
  fixes enq :: "'t \<Rightarrow> 'g \<Rightarrow> 'g"
    and start :: "'g \<Rightarrow> ('t \<times> 'g) option"
    and finish :: "'t \<Rightarrow> 'g \<Rightarrow> 'g"
    and waiting :: "'g \<Rightarrow> 't list"
    and running :: "'g \<Rightarrow> 't multiset"
  assumes enq_waiting: "waiting (enq t g) = waiting g @ [t]"
    and enq_running: "running (enq t g) = running g"
    and start_front: "start g = Some (t, g') \<Longrightarrow> waiting g = t # waiting g'"
    and start_running: "start g = Some (t, g') \<Longrightarrow> running g' = running g + {#t#}"
    and finish_waiting: "waiting (finish t g) = waiting g"
    and finish_running: "running (finish t g) = running g - {#t#}"
begin

definition pend :: "'g \<Rightarrow> 't multiset" where
  "pend g = mset (waiting g) + running g"

lemma pend_enq: "pend (enq t g) = pend g + {#t#}"
  by (simp add: pend_def enq_waiting enq_running)

lemma pend_start: "start g = Some (t, g') \<Longrightarrow> pend g' = pend g"
  by (simp add: pend_def start_front start_running)

lemma pend_finish: "t \<in># running g \<Longrightarrow> pend (finish t g) = pend g - {#t#}"
  by (simp add: pend_def finish_waiting finish_running)

text \<open>Any sequence of operations: a start that finds no task or no idle worker does not happen.\<close>

fun run :: "'t group_event list \<Rightarrow> 'g \<Rightarrow> ('t list \<times> 'g) option" where
  "run [] g = Some ([], g)"
| "run (Enqueue t # es) g = run es (enq t g)"
| "run (Start # es) g =
     (case start g of None \<Rightarrow> None
      | Some (t, g') \<Rightarrow> map_option (\<lambda>(ts, g''). (t # ts, g'')) (run es g'))"
| "run (Finish t # es) g = (if t \<in># running g then run es (finish t g) else None)"

lemma run_fifo:
  "run es g = Some (ts, g') \<Longrightarrow>
     ts @ waiting g' = waiting g @ enqueued es \<and> running g' + mset (finished es) = running g + mset ts"
proof (induction es g arbitrary: ts rule: run.induct)
  case (3 es g)
  then obtain t h us where t: "start g = Some (t, h)" "run es h = Some (us, g')" "ts = t # us"
    by (auto split: option.splits)
  with "3.IH" [OF t(1) HOL.refl t(2)] show ?case
    by (simp add: start_front [OF t(1)] start_running [OF t(1)] enqueued_def finished_def)
next
  case (4 t es g)
  then have "t \<in># running g" "run es (finish t g) = Some (ts, g')" by (simp_all split: if_splits)
  with "4.IH" show ?case by (simp add: finish_waiting finish_running enqueued_def finished_def)
qed (auto simp: enq_waiting enq_running enqueued_def finished_def)

lemma pend_empty: "pend g = {#} \<longleftrightarrow> waiting g = [] \<and> running g = {#}"
  by (simp add: pend_def)

end

interpretation wg: work_group group_enqueue group_take group_finish queued "\<lambda>g. mset (active g)"
  by unfold_locales
    (auto simp: group_enqueue_def group_take_def group_finish_def split: list.splits if_splits)

definition group_run :: "'t group_event list \<Rightarrow> 't group \<Rightarrow> ('t list \<times> 't group) option" where
  "group_run = wg.run"

lemma group_pending_eq: "group_pending = wg.pend"
  by (simp add: fun_eq_iff group_pending_def wg.pend_def)

definition pending_of :: "'t group option \<Rightarrow> 't multiset" where
  "pending_of go = (case go of None \<Rightarrow> {#} | Some g \<Rightarrow> group_pending g)"

definition pool_pending :: "'t pool \<Rightarrow> 't multiset" where
  "pool_pending p = pending_of (groups p ALLOC) + pending_of (groups p READ) + pending_of (groups p DECOMP)
     + pending_of (groups p DECOMP_KERNEL) + pending_of (groups p FREE)"

lemma CoreType_all: "(\<forall>ty. P ty) \<longleftrightarrow> P ALLOC \<and> P READ \<and> P DECOMP \<and> P DECOMP_KERNEL \<and> P FREE"
  by (auto intro: CoreType.induct)

lemma pool_pending_upd:
  "pool_pending (p\<lparr>groups := (groups p)(ty := go)\<rparr>)
     = pool_pending p - pending_of (groups p ty) + pending_of go"
  by (cases ty) (simp_all add: pool_pending_def)

lemma pending_of_subset: "pending_of (groups p ty) \<subseteq># pool_pending p"
  by (cases ty) (simp_all add: pool_pending_def)

lemma pool_pending_enqueue:
  assumes "pool_enqueue ty t p = Ok p'"
  shows "pool_pending p' = pool_pending p + {#t#}"
proof -
  obtain g where g: "groups p ty = Some g" "p' = p\<lparr>groups := (groups p)(ty \<mapsto> group_enqueue t g)\<rparr>"
    using assms by (auto simp: pool_enqueue_def split: option.splits if_splits)
  have "pending_of (Some g) \<subseteq># pool_pending p" using pending_of_subset [of p ty] g by simp
  then show ?thesis
    by (simp add: g pool_pending_upd pending_of_def group_pending_eq wg.pend_enq)
qed

lemma pool_pending_take:
  assumes "take_task ty p = Some (t, p')"
  shows "pool_pending p' = pool_pending p"
proof -
  obtain g g' where g: "groups p ty = Some g" "group_take g = Some (t, g')"
    "p' = p\<lparr>groups := (groups p)(ty \<mapsto> g')\<rparr>"
    using assms by (auto simp: take_task_def split: option.splits prod.splits)
  have "pending_of (Some g) \<subseteq># pool_pending p" using pending_of_subset [of p ty] g by simp
  then show ?thesis
    by (simp add: g pool_pending_upd pending_of_def group_pending_eq wg.pend_start [OF g(2)])
qed

lemma pool_pending_finish:
  assumes "groups p ty = Some g" "t \<in> set (active g)"
  shows "pool_pending (finish_task ty t p) = pool_pending p - {#t#}" "t \<in># pool_pending p"
proof -
  have s: "pending_of (Some g) \<subseteq># pool_pending p" using pending_of_subset [of p ty] assms by simp
  have t: "{#t#} \<subseteq># group_pending g" using assms by (simp add: group_pending_def)
  with s show "t \<in># pool_pending p"
    by (auto simp: pending_of_def dest: mset_subset_eqD)
  obtain M where M: "pool_pending p = group_pending g + M"
    using s by (auto simp: pending_of_def subset_mset.le_iff_add)
  obtain N where N: "group_pending g = {#t#} + N" using t by (auto simp: subset_mset.le_iff_add)
  have "pool_pending (finish_task ty t p) = pool_pending p - group_pending g + group_pending (group_finish t g)"
    by (simp add: finish_task_def pool_pending_upd pending_of_def assms)
  also have "group_pending (group_finish t g) = group_pending g - {#t#}"
    using assms by (simp add: group_pending_eq wg.pend_finish)
  finally show "pool_pending (finish_task ty t p) = pool_pending p - {#t#}" by (simp add: M N)
qed

text \<open>\<open>wait_idle_all\<close> returns exactly when nothing is pending anywhere.\<close>

lemma wait_idle_all_iff: "wait_idle_all p \<longleftrightarrow> pool_pending p = {#}"
  by (auto simp: wait_idle_all_def idle_def pool_pending_def pending_of_def group_pending_def
      group_idle_def split: option.splits)

end
