(* ===== verification/Core_State.thy ===== *)
theory Core_State
  imports Kv_Store_Correct Layer_Sync Thread_Pool
begin

text \<open>
  The object graph of the engine. In the sources \<open>mzcache_core\<close> owns \<open>mzcache_kv_state\<close> and
  \<open>mzcache_weight\<close>, both of which point back to it for the allocation futures, the layer syncs and the
  thread pool; one record holds them all, so that every method is a function on it.
\<close>

text \<open>The worker tasks: each constructor is one \<open>std::bind\<close> handed to \<open>ThreadPool::enqueue\<close>.\<close>

datatype task =
    KvAlloc int int
  | KvRead int int
  | KvDecomp int int
  | FreeArenas int
  | WAlloc int
  | WRead int

text \<open>\<open>class mzcache_weight\<close>. \<open>w_buf\<close> is the device buffer of a layer (\<open>None\<close>: unloaded), \<open>w_dump\<close> the
  contents of \<open>./layers/<model>_layer_<i>.bin\<close> if it is readable.\<close>

record weight =
  w_num_layers :: int
  cur_layer_idx_to_unload :: int
  n_cur_unload_layers :: int
  w_fds :: "int \<Rightarrow> fd"
  w_buf :: "int \<Rightarrow> bytes option"
  w_dump :: "int \<Rightarrow> bytes option"

record w_env =
  w_unload_ok :: "int \<Rightarrow> bool"     \<comment> \<open>\<open>model->unload_buffers\<close>\<close>
  w_alloc_ok :: "int \<Rightarrow> bool"      \<comment> \<open>\<open>model->alloc_weight_layer\<close>\<close>
  w_open_ok :: "int \<Rightarrow> bool"
  w_read_ok :: "int \<Rightarrow> bool"       \<comment> \<open>the read transfers the whole padded layer\<close>
  w_aligned :: bool                 \<comment> \<open>\<open>padded_num_bytes_per_layer % 4096 == 0\<close>\<close>
  w_fresh :: "int \<Rightarrow> bytes"

record 'm core =
  core_num_layers :: int
  core_num_chunks :: int
  decomp_num_chunks :: int
  load_num_chunks :: int
  weight_layer_bytes :: int
  full_bytes :: int
  kv :: "'m kv_state"
  wt :: weight
  syncs :: "layer_sync list"
  kv_alloc_done :: "int \<times> int \<Rightarrow> bool option"
  weight_alloc_done :: "int \<Rightarrow> bool option"
  pool_of :: "task pool"

subsection \<open>Allocation futures\<close>

text \<open>An entry \<open>Some False\<close> is a registered future, \<open>Some True\<close> one whose promise is satisfied.\<close>

definition register_kv_allocation :: "int \<Rightarrow> int \<Rightarrow> 'm core \<Rightarrow> 'm core" where
  "register_kv_allocation L C st = st\<lparr>kv_alloc_done := (kv_alloc_done st)((L, C) \<mapsto> False)\<rparr>"

text \<open>\<open>Ok True\<close>: the wait returns; \<open>Ok False\<close>: it blocks.\<close>

definition wait_for_kv_allocation :: "int \<Rightarrow> int \<Rightarrow> 'm core \<Rightarrow> bool result" where
  "wait_for_kv_allocation L C st =
     (case kv_alloc_done st (L, C) of
        None \<Rightarrow> Err (RuntimeError ''Allocation future not found'')
      | Some d \<Rightarrow> Ok d)"

definition register_weight_allocation :: "int \<Rightarrow> 'm core \<Rightarrow> 'm core" where
  "register_weight_allocation L st = st\<lparr>weight_alloc_done := (weight_alloc_done st)(L \<mapsto> False)\<rparr>"

definition wait_for_weight_allocation :: "int \<Rightarrow> 'm core \<Rightarrow> bool result" where
  "wait_for_weight_allocation L st =
     (case weight_alloc_done st L of
        None \<Rightarrow> Err (RuntimeError ''Weight allocation future not found'')
      | Some d \<Rightarrow> Ok d)"

definition enqueue :: "CoreType \<Rightarrow> task \<Rightarrow> 'm core \<Rightarrow> 'm core result" where
  "enqueue ty t st = bind_result (pool_enqueue ty t (pool_of st)) (\<lambda>p. Ok (st\<lparr>pool_of := p\<rparr>))"

text \<open>The last lines of every restore worker: \<open>taskDone\<close> on the layer's sync, if syncs are set up.\<close>

definition layer_task_done :: "int \<Rightarrow> int \<Rightarrow> 'm core \<Rightarrow> 'm core result" where
  "layer_task_done nl L st =
     (if int (length (syncs st)) = nl then
        if 0 \<le> L \<and> L < nl then
          bind_result (taskDone (syncs st ! nat L)) (\<lambda>y. Ok (st\<lparr>syncs := (syncs st)[nat L := y]\<rparr>))
        else Err OutOfBounds
      else Ok st)"

definition wait_for_layer_sync :: "int \<Rightarrow> 'm core \<Rightarrow> bool" where
  "wait_for_layer_sync L st \<longleftrightarrow>
     (0 \<le> L \<and> L < int (length (syncs st)) \<longrightarrow> wait_returns (syncs st ! nat L))"

end
