(* ===== verification/Kv_Swapin.thy ===== *)
theory Kv_Swapin
  imports Core_State
begin

text \<open>
  The swap-in half of \<open>mzcache_kv_state\<close>: the worker tasks that restore one chunk, the loops that walk
  the cursors back and enqueue those tasks, the arena reload, and the bookkeeping at the end of a
  cycle. Blocking waits are boolean-valued: they say whether the call returns in a given state.
\<close>

subsection \<open>Workers\<close>

definition kv_alloc_worker :: "io_env \<Rightarrow> int \<Rightarrow> int \<Rightarrow> 'm core \<Rightarrow> 'm core result" where
  "kv_alloc_worker env L C st =
     (let s = kv st; a = svm_next s; rb = raw_chunk_bytes (kv_hidden_dim s) in
      if \<not> idx_ok L C then Err OutOfBounds
      else if \<not> svm_alloc_ok env L C then Err (Abort ''SVM alloc failed'')
      else Ok (st\<lparr>kv := s\<lparr>svm_next := a + 1,
                         svm_mem := (svm_mem s)(a \<mapsto>
                           \<lparr>k_mem = take rb (fresh_mem env a @ replicate rb 0),
                            v_mem = take rb (drop rb (fresh_mem env a) @ replicate rb 0),
                            contiguous = True\<rparr>),
                         raw_chunks := upd2 (raw_chunks s) L C (Some a),
                         svm_chunk_ptrs := upd2 (svm_chunk_ptrs s) L C (Some a)\<rparr>,
                  kv_alloc_done := (kv_alloc_done st)((L, C) \<mapsto> True)\<rparr>))"

text \<open>One \<open>pread\<close> over both buffers when they and the file ranges are contiguous, else two.\<close>

definition read_pair :: "io_env \<Rightarrow> fd \<Rightarrow> filedata \<Rightarrow> int \<Rightarrow> nat \<Rightarrow> nat \<Rightarrow> nat \<Rightarrow> chunk_mem \<Rightarrow> chunk_mem" where
  "read_pair env d f L rb off_k off_v m =
     (let n = (\<lambda>off cnt. if d = RdOnly then pread_n env L off cnt else 0) in
      if contiguous m \<and> off_v = off_k + rb then
        let b = pread f off_k (k_mem m @ v_mem m) (n off_k (rb * 2))
        in m\<lparr>k_mem := take rb b, v_mem := drop rb b\<rparr>
      else m\<lparr>k_mem := pread f off_k (k_mem m) (n off_k rb),
             v_mem := pread f off_v (v_mem m) (n off_v rb)\<rparr>)"

definition kv_read_worker :: "io_env \<Rightarrow> int \<Rightarrow> int \<Rightarrow> 'm core \<Rightarrow> 'm core result" where
  "kv_read_worker env L C st =
     (let s = kv st; rb = raw_chunk_bytes (kv_hidden_dim s) in
      bind_result (wait_for_kv_allocation L C st) (\<lambda>_.
      if \<not> idx_ok L C then Err OutOfBounds
      else case svm_chunk_ptrs s L C of
        None \<Rightarrow> Err UseAfterFree
      | Some a \<Rightarrow> (case svm_mem s a of
          None \<Rightarrow> Err UseAfterFree
        | Some m \<Rightarrow>
            let m' = read_pair env (layer_fds s L) (kv_file s L) L rb
                       (file_offset (k_stored s L C)) (file_offset (v_stored s L C)) m
            in layer_task_done (num_layers s) L
                 (st\<lparr>kv := s\<lparr>svm_mem := (svm_mem s)(a \<mapsto> m'),
                             states := upd2 (states s) L C Raw\<rparr>\<rparr>))))"

definition free_layer_arenas :: "int \<Rightarrow> 'm core \<Rightarrow> 'm core" where
  "free_layer_arenas L st = st\<lparr>kv := (kv st)\<lparr>arenas := (arenas (kv st))(L := [])\<rparr>\<rparr>"

definition kv_decomp_worker :: "'m codec \<Rightarrow> int \<Rightarrow> int \<Rightarrow> 'm core \<Rightarrow> 'm core result" where
  "kv_decomp_worker cd L C st =
     (let s = kv st; kc = k_comp s L C; vc = v_comp s L C in
      bind_result (wait_for_kv_allocation L C st) (\<lambda>_.
      if \<not> idx_ok L C \<or> \<not> stack_id kc < length (arenas s L) then Err OutOfBounds
      else case svm_chunk_ptrs s L C of
        None \<Rightarrow> Err UseAfterFree
      | Some a \<Rightarrow> (case svm_mem s a of
          None \<Rightarrow> Err UseAfterFree
        | Some m \<Rightarrow>
            let p = pool (arenas s L ! stack_id kc);
                m' = m\<lparr>k_mem := dec cd True L C (drop (offset kc) p) (meta kc),
                       v_mem := dec cd False L C (drop (offset vc) p) (meta vc)\<rparr>;
                s' = s\<lparr>svm_mem := (svm_mem s)(a \<mapsto> m'), states := upd2 (states s) L C Raw,
                       comp_left := (comp_left s)(L := comp_left s L - 1)\<rparr>
            in bind_result
                 (if comp_left s L = 1 then enqueue FREE (FreeArenas L) (st\<lparr>kv := s'\<rparr>)
                  else Ok (st\<lparr>kv := s'\<rparr>))
                 (layer_task_done (num_layers s) L))))"

subsection \<open>Walking the cursors back\<close>

text \<open>\<open>None\<close>: the cursor ran past the last layer (the loops report an error and return, or break).\<close>

definition comp_next :: "(int \<Rightarrow> int) \<Rightarrow> int \<Rightarrow> int \<times> int \<Rightarrow> (int \<times> int) \<times> bool" where
  "comp_next cb nl lc =
     (let (l, c) = lc; c' = c + 1 in
      if c' \<ge> cb l then ((l + 1, 0), l + 1 < nl) else ((l, c'), True))"

definition store_next :: "(int \<Rightarrow> int) \<Rightarrow> int \<Rightarrow> int \<Rightarrow> int \<times> int \<Rightarrow> (int \<times> int) \<times> bool" where
  "store_next cb N nl lc =
     (let (l, c) = lc; c' = c + 1 in
      if c' = N then
        if l + 1 \<ge> nl then ((l + 1, c'), False) else ((l + 1, cb (l + 1)), True)
      else ((l, c'), True))"

definition enqueue_kv :: "bool \<Rightarrow> CoreType \<Rightarrow> task \<Rightarrow> int \<Rightarrow> int \<Rightarrow> 'm core \<Rightarrow> 'm core result" where
  "enqueue_kv with_alloc ty t L C st =
     bind_result
       (if with_alloc then enqueue ALLOC (KvAlloc L C) (register_kv_allocation L C st) else Ok st)
       (enqueue ty t)"

definition open_kv_file :: "io_env \<Rightarrow> int \<Rightarrow> 'm core \<Rightarrow> 'm core result" where
  "open_kv_file env L st =
     (if L < 0 \<or> num_layers (kv st) \<le> L then Err OutOfBounds
      else if \<not> open_r env L then Err (RuntimeError ''open failed'')
      else Ok (st\<lparr>kv := (kv st)\<lparr>layer_fds := (layer_fds (kv st))(L := RdOnly)\<rparr>\<rparr>))"

text \<open>The file of a partially stored layer is opened before the loop.\<close>

definition open_first :: "io_env \<Rightarrow> 'm core \<Rightarrow> 'm core result" where
  "open_first env st =
     (if cur_chunk_idx_to_store (kv st) < num_chunks_per_tensor (kv st) - 1
      then open_kv_file env (cur_layer_idx_to_store (kv st)) st else Ok st)"

fun load_loop :: "io_env \<Rightarrow> bool \<Rightarrow> nat \<Rightarrow> 'm core \<Rightarrow> 'm core result" where
  "load_loop env with_alloc 0 st = Ok st"
| "load_loop env with_alloc (Suc n) st =
     (let s = kv st;
          ((l, c), more_chunks) = store_next (chunk_bound s) (num_chunks_per_tensor s) (num_layers s)
              (cur_layer_idx_to_store s, cur_chunk_idx_to_store s);
          st' = st\<lparr>kv := s\<lparr>cur_layer_idx_to_store := l, cur_chunk_idx_to_store := c\<rparr>\<rparr>
      in if \<not> more_chunks then Ok st'
         else bind_result
           (if l \<noteq> cur_layer_idx_to_store s \<and> layer_fds s l = Closed then open_kv_file env l st' else Ok st')
           (\<lambda>st''. bind_result (enqueue_kv with_alloc READ (KvRead l c) l c st'')
                     (load_loop env with_alloc n)))"

text \<open>\<open>False\<close>: the loop ran out of layers and the function returned early.\<close>

fun decomp_loop :: "bool \<Rightarrow> nat \<Rightarrow> 'm core \<Rightarrow> ('m core \<times> bool) result" where
  "decomp_loop with_alloc 0 st = Ok (st, True)"
| "decomp_loop with_alloc (Suc n) st =
     (let s = kv st;
          ((l, c), more_chunks) = comp_next (chunk_bound s) (num_layers s)
              (cur_layer_idx_to_compress s, cur_chunk_idx_to_compress s);
          st' = st\<lparr>kv := s\<lparr>cur_layer_idx_to_compress := l, cur_chunk_idx_to_compress := c\<rparr>\<rparr>
      in if cur_layer_idx_to_compress s < 0 \<or> MAX_NUM_LAYERS \<le> cur_layer_idx_to_compress s
         then Err OutOfBounds
         else if \<not> more_chunks then Ok (st', False)
         else bind_result (enqueue_kv with_alloc DECOMP (KvDecomp l c) l c st')
                (decomp_loop with_alloc n))"

definition mzcache_enqueue_decomp_load_chunks :: "io_env \<Rightarrow> int \<Rightarrow> int \<Rightarrow> 'm core \<Rightarrow> 'm core result" where
  "mzcache_enqueue_decomp_load_chunks env decomp_num load_num st =
     bind_result (open_first env st) (\<lambda>st1.
     bind_result (load_loop env True (nat load_num) st1) (\<lambda>st2.
     bind_result (decomp_loop True (nat decomp_num) st2) (\<lambda>(st3, _). Ok st3)))"

definition mzcache_enqueue_load_chunks :: "io_env \<Rightarrow> int \<Rightarrow> 'm core \<Rightarrow> 'm core result" where
  "mzcache_enqueue_load_chunks env load_num st =
     bind_result (open_first env st) (load_loop env True (nat load_num))"

definition mzcache_enqueue_decomp_chunks :: "int \<Rightarrow> 'm core \<Rightarrow> 'm core result" where
  "mzcache_enqueue_decomp_chunks decomp_num st =
     bind_result (decomp_loop True (nat decomp_num) st) (\<lambda>(st', _). Ok st')"

definition mzcache_enqueue_kv_decomp_read_only :: "io_env \<Rightarrow> int \<Rightarrow> int \<Rightarrow> 'm core \<Rightarrow> ('m core \<times> bool) result" where
  "mzcache_enqueue_kv_decomp_read_only env decomp_num load_num st =
     bind_result (decomp_loop False (nat decomp_num) st) (\<lambda>(st1, ok).
     if \<not> ok then Ok (st1, False)
     else bind_result (open_first env st1) (\<lambda>st2.
          bind_result (load_loop env False (nat load_num) st2) (\<lambda>st3. Ok (st3, True))))"

text \<open>The chunks a local copy of a cursor visits in \<open>n\<close> steps, and whether it stayed in range.\<close>

fun walk :: "(int \<times> int \<Rightarrow> (int \<times> int) \<times> bool) \<Rightarrow> nat \<Rightarrow> int \<times> int \<Rightarrow> (int \<times> int) list \<times> bool" where
  "walk nx 0 lc = ([], True)"
| "walk nx (Suc n) lc =
     (let (lc', ok) = nx lc in
      if \<not> ok then ([], False)
      else let (xs, ok') = walk nx n lc' in (lc' # xs, ok'))"

definition comp_ahead :: "nat \<Rightarrow> 'm kv_state \<Rightarrow> (int \<times> int) list \<times> bool" where
  "comp_ahead n s = walk (comp_next (chunk_bound s) (num_layers s)) n
     (cur_layer_idx_to_compress s, cur_chunk_idx_to_compress s)"

definition store_ahead :: "nat \<Rightarrow> 'm kv_state \<Rightarrow> (int \<times> int) list \<times> bool" where
  "store_ahead n s = walk (store_next (chunk_bound s) (num_chunks_per_tensor s) (num_layers s)) n
     (cur_layer_idx_to_store s, cur_chunk_idx_to_store s)"

fun alloc_all :: "(int \<times> int) list \<Rightarrow> 'm core \<Rightarrow> 'm core result" where
  "alloc_all [] st = Ok st"
| "alloc_all ((L, C) # xs) st =
     bind_result (enqueue ALLOC (KvAlloc L C) (register_kv_allocation L C st)) (alloc_all xs)"

text \<open>The enqueueing part of \<open>mzcache_enqueue_kv_alloc_only\<close>; the waits that follow are
  \<open>mzcache_wait_for_kv\<close>.\<close>

definition mzcache_enqueue_kv_alloc_only :: "int \<Rightarrow> int \<Rightarrow> 'm core \<Rightarrow> ('m core \<times> bool) result" where
  "mzcache_enqueue_kv_alloc_only decomp_num load_num st =
     (let (xs, ok) = comp_ahead (nat decomp_num) (kv st); (ys, ok') = store_ahead (nat load_num) (kv st) in
      bind_result (alloc_all xs st) (\<lambda>st1.
      if \<not> ok then Ok (st1, False)
      else bind_result (alloc_all ys st1) (\<lambda>st2. Ok (st2, ok'))))"

fun wait_all :: "(int \<times> int) list \<Rightarrow> 'm core \<Rightarrow> bool result" where
  "wait_all [] st = Ok True"
| "wait_all ((L, C) # xs) st =
     bind_result (wait_for_kv_allocation L C st) (\<lambda>d. if d then wait_all xs st else Ok False)"

definition mzcache_wait_for_kv :: "int \<Rightarrow> int \<Rightarrow> 'm core \<Rightarrow> bool result" where
  "mzcache_wait_for_kv decomp_num load_num st =
     wait_all (fst (comp_ahead (nat decomp_num) (kv st)) @ fst (store_ahead (nat load_num) (kv st))) st"

subsection \<open>Reloading arenas\<close>

text \<open>\<open>None\<close>: a size check or a read failed.\<close>

fun reload_pools :: "io_env \<Rightarrow> int \<Rightarrow> nat \<Rightarrow> bytes \<Rightarrow> nat \<Rightarrow> nat list \<Rightarrow> arena list option" where
  "reload_pools env layer abytes f off [] = Some []"
| "reload_pools env layer abytes f off (used # us) =
     (if used > abytes then None
      else if used = 0 then map_option ((#) (Arena env abytes False)) (reload_pools env layer abytes f off us)
      else if swap_pread_ok env layer off (round_up_4k used) then
        map_option ((#) ((Arena env abytes False)\<lparr>pool := take used (drop off f)\<rparr>))
          (reload_pools env layer abytes f (off + round_up_4k used) us)
      else None)"

definition mzcache_reload_arenas :: "io_env \<Rightarrow> 'm kv_state \<Rightarrow> 'm kv_state" where
  "mzcache_reload_arenas env s =
     (let layer = (if next_layer_to_offload s < 0 then 0 else next_layer_to_offload s + 1) in
      if layer \<ge> num_layers s then s
      else if offload_used_bytes s layer = [] then s
      else
        let s1 = s\<lparr>arenas := (arenas s)(layer := [])\<rparr> in
        case swap_file s layer of
          None \<Rightarrow> s1
        | Some f \<Rightarrow>
            if \<not> swap_r env layer then s1
            else (case reload_pools env layer (arena_bytes s) f 0 (offload_used_bytes s layer) of
                None \<Rightarrow> s1
              | Some as \<Rightarrow>
                  let off = n_cur_arena_offload_bytes s - int (sum_list (map round_up_4k (offload_used_bytes s layer)));
                      nx = next_layer_to_offload s + 1
                  in s\<lparr>arenas := (arenas s)(layer := as), swap_file := (swap_file s)(layer := None),
                       n_cur_arena_offload_bytes := max 0 off,
                       next_layer_to_offload := (if nx \<ge> num_layers s then num_layers s - 1 else nx)\<rparr>))"

definition reload_layer :: "io_env \<Rightarrow> int \<Rightarrow> 'm kv_state \<Rightarrow> 'm kv_state" where
  "reload_layer env layer s =
     (if offload_used_bytes s layer = [] then s
      else
        let s1 = s\<lparr>arenas := (arenas s)(layer := [])\<rparr> in
        case swap_file s layer of
          None \<Rightarrow> s1
        | Some f \<Rightarrow>
            if \<not> swap_r env layer then s1
            else (case reload_pools env layer (arena_bytes s) f 0 (offload_used_bytes s layer) of
                None \<Rightarrow> s1\<lparr>swap_file := (swap_file s)(layer := None)\<rparr>
              | Some as \<Rightarrow> s\<lparr>arenas := (arenas s)(layer := as), swap_file := (swap_file s)(layer := None)\<rparr>))"

fun reload_layers :: "io_env \<Rightarrow> nat \<Rightarrow> int \<Rightarrow> 'm kv_state \<Rightarrow> 'm kv_state" where
  "reload_layers env 0 layer s = s"
| "reload_layers env (Suc k) layer s = reload_layers env k (layer + 1) (reload_layer env layer s)"

definition mzcache_reload_all_arenas :: "io_env \<Rightarrow> 'm kv_state \<Rightarrow> 'm kv_state" where
  "mzcache_reload_all_arenas env s =
     (let start = (if next_layer_to_offload s < 0 then 0 else next_layer_to_offload s + 1) in
      if start \<ge> num_layers s then s
      else (reload_layers env (nat (num_layers s - start)) start s)
             \<lparr>next_layer_to_offload := num_layers s - 1, n_cur_arena_offload_bytes := 0\<rparr>)"

subsection \<open>The end of a cycle\<close>

text \<open>The furthest end of the chunks of a layer that are still compressed.\<close>

definition update_last_used :: "'m compressed_chunk \<Rightarrow> int \<times> nat \<Rightarrow> int \<times> nat" where
  "update_last_used cc acc =
     (let (last_stack_id, last_end) = acc; chunk_end = offset cc + comp_size cc in
      if int (stack_id cc) > last_stack_id \<or> int (stack_id cc) = last_stack_id \<and> chunk_end > last_end
      then (int (stack_id cc), chunk_end) else acc)"

definition last_used :: "'m kv_state \<Rightarrow> int \<Rightarrow> int \<times> nat" where
  "last_used s L =
     fold (\<lambda>C acc. if states s L C \<noteq> Compressed then acc
                   else update_last_used (v_comp s L C) (update_last_used (k_comp s L C) acc))
       [0..num_chunks_per_tensor s - 1] (- 1, 0)"

text \<open>\<open>last_end\<close> never exceeds the top of the arena it belongs to.\<close>

definition trim_arenas :: "int \<times> nat \<Rightarrow> arena list \<Rightarrow> arena list" where
  "trim_arenas lu as =
     (let (last_stack_id, last_end) = lu in
      if last_stack_id < 0 then []
      else if as = [] then []
      else let k = min (nat last_stack_id) (length as - 1)
           in take k as @ [(as ! k)\<lparr>pool := take last_end (pool (as ! k))\<rparr>])"

definition clean_after_decompress :: "int \<Rightarrow> 'm kv_state \<Rightarrow> 'm kv_state" where
  "clean_after_decompress decomp_chunks s =
     (if decomp_chunks \<le> 0 then s
      else
        let n = n_cur_comp_chunks s;
            n' = (if decomp_chunks > n then 0 else n - decomp_chunks);
            saved = (if decomp_chunks > n then n_cur_comp_saved_bytes s
                     else c_div (n_cur_comp_saved_bytes s * (n - decomp_chunks)) n)
        in s\<lparr>arenas := (\<lambda>L. if 0 \<le> L \<and> L < num_layers s then trim_arenas (last_used s L) (arenas s L)
                           else arenas s L),
             n_cur_comp_chunks := n',
             n_cur_comp_saved_bytes := (if n' = 0 then 0 else saved)\<rparr>)"

definition clean_after_read :: "int \<Rightarrow> 'm kv_state \<Rightarrow> 'm kv_state" where
  "clean_after_read read_chunks s =
     (close_fds s)\<lparr>n_cur_store_chunks :=
        (if read_chunks > n_cur_store_chunks s then 0 else n_cur_store_chunks s - read_chunks)\<rparr>"

end
