(* ===== verification/Weight.thy ===== *)
theory Weight
  imports Core_State
begin

text \<open>
  \<open>class mzcache_weight\<close> (\<open>mzcache/src/mzcache_weight.cpp\<close>): unloading weight layers from the last to
  the first and the tasks that bring them back from the dump files. What \<open>llama_model\<close> does to the
  device buffers is reached through \<open>w_env\<close>.
\<close>

definition mzcache_weight :: "int \<Rightarrow> (int \<Rightarrow> bytes option) \<Rightarrow> (int \<Rightarrow> bytes option) \<Rightarrow> weight" where
  "mzcache_weight nl bufs dumps =
     \<lparr>w_num_layers = nl, cur_layer_idx_to_unload = nl - 1, n_cur_unload_layers = 0,
      w_fds = (\<lambda>_. Closed), w_buf = bufs, w_dump = dumps\<rparr>"

definition mzcache_weight_dtor :: "weight \<Rightarrow> weight" where
  "mzcache_weight_dtor w =
     w\<lparr>w_fds := (\<lambda>i. if 0 \<le> i \<and> i < w_num_layers w then Closed else w_fds w i)\<rparr>"

text \<open>A layer whose dump cannot be read back is never unloaded.\<close>

fun unload_loop :: "w_env \<Rightarrow> nat \<Rightarrow> weight \<Rightarrow> weight \<times> bool" where
  "unload_loop we 0 w = (w, True)"
| "unload_loop we (Suc k) w =
     (let L = cur_layer_idx_to_unload w in
      if w_dump w L = None then (w, False)
      else if w_unload_ok we L then
        unload_loop we k (w\<lparr>w_buf := (w_buf w)(L := None), cur_layer_idx_to_unload := L - 1,
                            n_cur_unload_layers := n_cur_unload_layers w + 1\<rparr>)
      else (w, False))"

definition mzcache_unload_layers :: "w_env \<Rightarrow> int \<Rightarrow> weight \<Rightarrow> weight \<times> bool" where
  "mzcache_unload_layers we layer_num w = unload_loop we (nat layer_num) w"

text \<open>A failed allocation satisfies the promise with an exception; waiting on it returns.\<close>

definition weight_alloc_worker :: "w_env \<Rightarrow> int \<Rightarrow> 'm core \<Rightarrow> 'm core" where
  "weight_alloc_worker we L st =
     st\<lparr>wt := (if w_alloc_ok we L then (wt st)\<lparr>w_buf := (w_buf (wt st))(L \<mapsto> w_fresh we L)\<rparr> else wt st),
        weight_alloc_done := (weight_alloc_done st)(L \<mapsto> True)\<rparr>"

text \<open>\<open>mzcache::read_weight_layer\<close>: a misaligned layer size is reported by the return value, a short read
  (or a missing buffer) throws. The descriptor is closed on every path.\<close>

definition read_weight_layer :: "w_env \<Rightarrow> int \<Rightarrow> weight \<Rightarrow> (weight \<times> bool) result" where
  "read_weight_layer we L w =
     (if \<not> w_aligned we then Ok (w\<lparr>w_fds := (w_fds w)(L := Closed)\<rparr>, False)
      else case (w_buf w L, w_dump w L) of
        (Some _, Some d) \<Rightarrow>
          if w_read_ok we L
          then Ok (w\<lparr>w_buf := (w_buf w)(L \<mapsto> d), w_fds := (w_fds w)(L := Closed)\<rparr>, True)
          else Err (RuntimeError ''Failed to read layer'')
      | _ \<Rightarrow> Err (RuntimeError ''Failed to read layer''))"

definition weight_read_worker :: "w_env \<Rightarrow> int \<Rightarrow> 'm core \<Rightarrow> 'm core result" where
  "weight_read_worker we L st =
     (if \<not> w_open_ok we L \<or> w_dump (wt st) L = None then Err (RuntimeError ''open failed'')
      else if L < 0 \<or> w_num_layers (wt st) \<le> L then Err OutOfBounds
      else
        let st1 = st\<lparr>wt := (wt st)\<lparr>w_fds := (w_fds (wt st))(L := RdOnly)\<rparr>\<rparr> in
        bind_result (wait_for_weight_allocation L st1) (\<lambda>_.
        bind_result (read_weight_layer we L (wt st1)) (\<lambda>(w, _).
        bind_result (layer_task_done (w_num_layers w) L (st1\<lparr>wt := w\<rparr>)) (\<lambda>st2.
        Ok (st2\<lparr>wt := (wt st2)\<lparr>w_fds := (w_fds (wt st2))(L := Closed)\<rparr>\<rparr>)))))"

fun reload_w_loop :: "nat \<Rightarrow> int \<Rightarrow> 'm core \<Rightarrow> 'm core result" where
  "reload_w_loop 0 L st = Ok st"
| "reload_w_loop (Suc k) L st =
     bind_result (enqueue ALLOC (WAlloc L) (register_weight_allocation L st)) (\<lambda>st1.
     bind_result (enqueue READ (WRead L) st1) (reload_w_loop k (L + 1)))"

definition reset_unload_cursor :: "'m core \<Rightarrow> 'm core" where
  "reset_unload_cursor st = st\<lparr>wt := (wt st)\<lparr>cur_layer_idx_to_unload := w_num_layers (wt st) - 1\<rparr>\<rparr>"

definition mzcache_reload_w_layers :: "'m core \<Rightarrow> 'm core result" where
  "mzcache_reload_w_layers st =
     (let prev = cur_layer_idx_to_unload (wt st) in
      bind_result (reload_w_loop (nat (w_num_layers (wt st) - (prev + 1))) (prev + 1) st)
        (\<lambda>st1. Ok (reset_unload_cursor st1)))"

fun w_alloc_loop :: "nat \<Rightarrow> int \<Rightarrow> 'm core \<Rightarrow> 'm core result" where
  "w_alloc_loop 0 L st = Ok st"
| "w_alloc_loop (Suc k) L st =
     bind_result (enqueue ALLOC (WAlloc L) (register_weight_allocation L st)) (w_alloc_loop k (L + 1))"

definition mzcache_reload_w_layers_alloc_only :: "'m core \<Rightarrow> 'm core result" where
  "mzcache_reload_w_layers_alloc_only st =
     (let prev = cur_layer_idx_to_unload (wt st) in
      w_alloc_loop (nat (w_num_layers (wt st) - (prev + 1))) (prev + 1) st)"

fun w_read_loop :: "nat \<Rightarrow> int \<Rightarrow> 'm core \<Rightarrow> 'm core result" where
  "w_read_loop 0 L st = Ok st"
| "w_read_loop (Suc k) L st = bind_result (enqueue READ (WRead L) st) (w_read_loop k (L + 1))"

definition mzcache_reload_w_layers_reload_only :: "'m core \<Rightarrow> 'm core result" where
  "mzcache_reload_w_layers_reload_only st =
     (let prev = cur_layer_idx_to_unload (wt st) in
      bind_result (w_read_loop (nat (w_num_layers (wt st) - (prev + 1))) (prev + 1) st)
        (\<lambda>st1. Ok (reset_unload_cursor st1)))"

subsection \<open>Unloading\<close>

text \<open>The weight invariant: the layers above the cursor are exactly the unloaded ones, each of them has a
  dump, and the resident layers have their buffers.\<close>

definition weight_inv :: "(int \<Rightarrow> bytes) \<Rightarrow> weight \<Rightarrow> bool" where
  "weight_inv orig w \<longleftrightarrow>
     - 1 \<le> cur_layer_idx_to_unload w \<and> cur_layer_idx_to_unload w < w_num_layers w \<and>
     n_cur_unload_layers w = w_num_layers w - 1 - cur_layer_idx_to_unload w \<and>
     w_dump w (- 1) = None \<and>
     (\<forall>i. 0 \<le> i \<and> i < w_num_layers w \<longrightarrow> (w_dump w i = None \<or> w_dump w i = Some (orig i)) \<and>
        (if i \<le> cur_layer_idx_to_unload w then w_buf w i = Some (orig i)
         else w_buf w i = None \<and> w_dump w i = Some (orig i)))"

lemma unload_loop_inv:
  assumes "weight_inv orig w" "unload_loop we k w = (w', ok)"
  shows "weight_inv orig w' \<and> w_num_layers w' = w_num_layers w \<and> w_dump w' = w_dump w \<and>
    (ok \<longrightarrow> n_cur_unload_layers w' = n_cur_unload_layers w + int k) \<and>
    n_cur_unload_layers w \<le> n_cur_unload_layers w'"
  using assms
proof (induction k arbitrary: w)
  case (Suc k)
  let ?L = "cur_layer_idx_to_unload w"
  let ?w = "w\<lparr>w_buf := (w_buf w)(?L := None), cur_layer_idx_to_unload := ?L - 1,
              n_cur_unload_layers := n_cur_unload_layers w + 1\<rparr>"
  show ?case
  proof (cases "w_dump w ?L = None \<or> \<not> w_unload_ok we ?L")
    case True
    with Suc.prems have "w' = w" "\<not> ok" by (auto simp: Let_def split: if_splits)
    with Suc.prems(1) show ?thesis by simp
  next
    case False
    then have "?L \<noteq> - 1" using Suc.prems(1) by (auto simp: weight_inv_def)
    then have L: "0 \<le> ?L" "?L < w_num_layers w" using Suc.prems(1) by (auto simp: weight_inv_def)
    have "weight_inv orig ?w"
      using Suc.prems(1) L False unfolding weight_inv_def by auto
    moreover have "unload_loop we k ?w = (w', ok)"
      using Suc.prems(2) False by (auto simp: Let_def)
    ultimately show ?thesis using Suc.IH [of ?w] by auto
  qed
qed auto

end
