(* ===== verification/Core.thy ===== *)
theory Core
  imports Kv_Swapin Weight
begin

text \<open>
  \<open>class mzcache_core\<close> (\<open>mzcache/src/mzcache_core.cpp\<close>): the layer syncs, the swap-in flows and the
  swap-out ladder. A swap-in flow is the sequence of calls up to the point where the caller waits;
  the worker tasks then run in the interleavings of the swap-in machine, and
  \<open>finish_swapin_cycle\<close> closes the cycle.
\<close>

subsection \<open>Layer syncs\<close>

definition compress_init :: "'m kv_state \<Rightarrow> int \<Rightarrow> int" where
  "compress_init s i =
     (if i < cur_layer_idx_to_compress s then 0
      else if i = cur_layer_idx_to_compress s then chunk_bound s i - (cur_chunk_idx_to_compress s + 1)
      else chunk_bound s i)"

definition store_init :: "'m kv_state \<Rightarrow> int \<Rightarrow> int" where
  "store_init s i =
     (if i < cur_layer_idx_to_store s then 0
      else if i = cur_layer_idx_to_store s then num_chunks_per_tensor s - (cur_chunk_idx_to_store s + 1)
      else num_chunks_per_tensor s - chunk_bound s i)"

definition total_init :: "'m core \<Rightarrow> int \<Rightarrow> int" where
  "total_init st i =
     compress_init (kv st) i + store_init (kv st) i + (if i > cur_layer_idx_to_unload (wt st) then 1 else 0)"

fun layer_sync_loop :: "nat \<Rightarrow> int \<Rightarrow> 'm core \<Rightarrow> 'm core result" where
  "layer_sync_loop 0 i st = Ok st"
| "layer_sync_loop (Suc k) i st =
     bind_result (LayerSync (total_init st i)) (\<lambda>y.
       layer_sync_loop k (i + 1)
         (st\<lparr>decomp_num_chunks := decomp_num_chunks st + compress_init (kv st) i,
             load_num_chunks := load_num_chunks st + store_init (kv st) i,
             kv := (kv st)\<lparr>comp_left := (comp_left (kv st))(i := compress_init (kv st) i)\<rparr>,
             syncs := syncs st @ [y]\<rparr>))"

definition initialize_layer_sync :: "'m core \<Rightarrow> 'm core result" where
  "initialize_layer_sync st =
     layer_sync_loop (nat (core_num_layers st)) 0
       (st\<lparr>decomp_num_chunks := 0, load_num_chunks := 0, kv_alloc_done := (\<lambda>_. None),
           weight_alloc_done := (\<lambda>_. None), syncs := []\<rparr>)"

subsection \<open>Swap-in\<close>

text \<open>\<open>finish_swapin_cycle\<close>: \<open>None\<close> while one of its waits blocks.\<close>

definition finish_swapin_cycle :: "int \<Rightarrow> int \<Rightarrow> 'm core \<Rightarrow> 'm core option" where
  "finish_swapin_cycle decomp_chunks load_chunks st =
     (if list_all (\<lambda>i. wait_for_layer_sync i st) [0..core_num_layers st - 1] \<and> wait_idle_all (pool_of st)
      then Some (st\<lparr>kv := clean_after_read load_chunks (clean_after_decompress decomp_chunks (kv st)),
                    wt := (wt st)\<lparr>cur_layer_idx_to_unload := core_num_layers st - 1,
                                  n_cur_unload_layers := 0\<rparr>\<rparr>)
      else None)"

text \<open>The calls of \<open>swapin_generate\<close> (and of the variant without prefill overlap, which only waits
  earlier for the syncs) up to the decode.\<close>

definition swapin_begin :: "io_env \<Rightarrow> 'm core \<Rightarrow> 'm core result" where
  "swapin_begin env st =
     bind_result (initialize_layer_sync st) (\<lambda>st1.
     bind_result (mzcache_enqueue_decomp_load_chunks env (decomp_num_chunks st1) (load_num_chunks st1)
                    (st1\<lparr>kv := mzcache_reload_all_arenas env (kv st1)\<rparr>))
       mzcache_reload_w_layers)"

text \<open>The variants without allocation overlap: first all allocations, then, once
  \<open>mzcache_wait_for_kv\<close> and the weight waits return, the decompressions and reads.\<close>

definition swapin_begin_alloc :: "io_env \<Rightarrow> 'm core \<Rightarrow> 'm core result" where
  "swapin_begin_alloc env st =
     bind_result (initialize_layer_sync st) (\<lambda>st1.
     bind_result (mzcache_reload_w_layers_alloc_only (st1\<lparr>kv := mzcache_reload_all_arenas env (kv st1)\<rparr>)) (\<lambda>st2.
     bind_result (mzcache_enqueue_kv_alloc_only (decomp_num_chunks st2) (load_num_chunks st2) st2)
       (\<lambda>(st3, _). Ok st3)))"

definition swapin_begin_restore :: "io_env \<Rightarrow> 'm core \<Rightarrow> 'm core result" where
  "swapin_begin_restore env st =
     bind_result (mzcache_enqueue_kv_decomp_read_only env (decomp_num_chunks st) (load_num_chunks st) st)
       (\<lambda>(st1, _). mzcache_reload_w_layers_reload_only st1)"

end
