(* ===== verification/Swapin_Machine.thy ===== *)
theory Swapin_Machine
  imports Core
begin

text \<open>
  The concurrent phase of a swap-in as a transition system. A worker of any group may take the front
  task of its queue at any time; a taken task runs as one step as soon as the future it waits for is
  ready. Tasks of different chunks touch different memory and share only the atomic counters, so a
  task is one step.
\<close>

definition abort_on_throw :: "'a result \<Rightarrow> 'a result" where
  "abort_on_throw r = (case r of Inl (RuntimeError m) \<Rightarrow> Inl (Abort m) | _ \<Rightarrow> r)"

definition run_task :: "io_env \<Rightarrow> w_env \<Rightarrow> 'm codec \<Rightarrow> task \<Rightarrow> 'm core \<Rightarrow> 'm core result" where
  "run_task env we cd t st = abort_on_throw
     (case t of
        KvAlloc L C \<Rightarrow> kv_alloc_worker env L C st
      | KvRead L C \<Rightarrow> kv_read_worker env L C st
      | KvDecomp L C \<Rightarrow> kv_decomp_worker cd L C st
      | FreeArenas L \<Rightarrow> Ok (free_layer_arenas L st)
      | WAlloc L \<Rightarrow> Ok (weight_alloc_worker we L st)
      | WRead L \<Rightarrow> weight_read_worker we L st)"

text \<open>A task that waits for an unsatisfied future blocks its worker.\<close>

definition task_ready :: "'m core \<Rightarrow> task \<Rightarrow> bool" where
  "task_ready st t =
     (case t of
        KvRead L C \<Rightarrow> kv_alloc_done st (L, C) \<noteq> Some False
      | KvDecomp L C \<Rightarrow> kv_alloc_done st (L, C) \<noteq> Some False
      | WRead L \<Rightarrow> weight_alloc_done st L \<noteq> Some False
      | _ \<Rightarrow> True)"

definition active_in :: "'m core \<Rightarrow> CoreType \<Rightarrow> task \<Rightarrow> bool" where
  "active_in st ty t \<longleftrightarrow> (case groups (pool_of st) ty of None \<Rightarrow> False | Some g \<Rightarrow> t \<in> set (active g))"

definition finish_in :: "CoreType \<Rightarrow> task \<Rightarrow> 'm core \<Rightarrow> 'm core" where
  "finish_in ty t st = st\<lparr>pool_of := finish_task ty t (pool_of st)\<rparr>"

inductive sw_step :: "io_env \<Rightarrow> w_env \<Rightarrow> 'm codec \<Rightarrow> 'm core \<Rightarrow> 'm core result \<Rightarrow> bool"
  for env :: io_env and we :: w_env and cd :: "'m codec" where
  sw_take: "take_task ty (pool_of st) = Some (t, p) \<Longrightarrow> sw_step env we cd st (Ok (st\<lparr>pool_of := p\<rparr>))"
| sw_run: "active_in st ty t \<Longrightarrow> task_ready st t \<Longrightarrow> run_task env we cd t st = Ok st' \<Longrightarrow>
    sw_step env we cd st (Ok (finish_in ty t st'))"
| sw_fail: "active_in st ty t \<Longrightarrow> task_ready st t \<Longrightarrow> run_task env we cd t st = Err e \<Longrightarrow>
    sw_step env we cd st (Err e)"

inductive_cases sw_stepE: "sw_step env we cd st r"
inductive_simps sw_step_ErrI: "sw_step env we cd st (Err e)"

inductive sw_reach :: "io_env \<Rightarrow> w_env \<Rightarrow> 'm codec \<Rightarrow> 'm core \<Rightarrow> 'm core \<Rightarrow> bool"
  for env :: io_env and we :: w_env and cd :: "'m codec" and st :: "'m core" where
  sw_start: "sw_reach env we cd st st"
| sw_more: "sw_reach env we cd st st' \<Longrightarrow> sw_step env we cd st' (Ok st'') \<Longrightarrow> sw_reach env we cd st st''"

abbreviation pending :: "'m core \<Rightarrow> task multiset" where
  "pending st \<equiv> pool_pending (pool_of st)"

subsection \<open>Invariant\<close>

definition unrestored :: "'m kv_state \<Rightarrow> int \<Rightarrow> int set" where
  "unrestored s i = {j. 0 \<le> j \<and> j < num_chunks_per_tensor s \<and> states s i j \<noteq> Raw}"

definition compressed_in :: "'m kv_state \<Rightarrow> int \<Rightarrow> int set" where
  "compressed_in s i = {j. 0 \<le> j \<and> j < num_chunks_per_tensor s \<and> states s i j = Compressed}"

definition w_unread :: "'m core \<Rightarrow> int \<Rightarrow> nat" where
  "w_unread st i = count (pending st) (WRead i)"

definition left_count :: "'m core \<Rightarrow> int \<Rightarrow> nat" where
  "left_count st i = card (unrestored (kv st) i) + w_unread st i"

text \<open>Every layer's sync counts what is left to do for it; its promise is set once nothing is left.\<close>

definition sync_inv :: "'m core \<Rightarrow> bool" where
  "sync_inv st \<longleftrightarrow>
     int (length (syncs st)) = num_layers (kv st) \<and> w_num_layers (wt st) = num_layers (kv st) \<and>
     (\<forall>i. 0 \<le> i \<and> i < num_layers (kv st) \<longrightarrow>
        syncs st ! nat i = \<lparr>remaining = int (left_count st i), prom_set = (left_count st i = 0)\<rparr>)"

text \<open>The pending tasks are exactly those the chunk states and the futures ask for, once each.\<close>

definition tasks_inv :: "'m core \<Rightarrow> bool" where
  "tasks_inv st \<longleftrightarrow>
     (\<forall>i j. count (pending st) (KvDecomp i j) =
        (if chunk_ix (kv st) i j \<and> states (kv st) i j = Compressed then 1 else 0)) \<and>
     (\<forall>i j. count (pending st) (KvRead i j) =
        (if chunk_ix (kv st) i j \<and> states (kv st) i j = Stored then 1 else 0)) \<and>
     (\<forall>i j. count (pending st) (KvAlloc i j) = (if kv_alloc_done st (i, j) = Some False then 1 else 0)) \<and>
     (\<forall>i j. kv_alloc_done st (i, j) \<noteq> None \<longrightarrow> chunk_ix (kv st) i j) \<and>
     (\<forall>i j. chunk_ix (kv st) i j \<and> states (kv st) i j \<noteq> Raw \<longrightarrow> kv_alloc_done st (i, j) \<noteq> None) \<and>
     (\<forall>i j. kv_alloc_done st (i, j) = Some False \<longrightarrow> states (kv st) i j \<noteq> Raw) \<and>
     (\<forall>i. FreeArenas i \<in># pending st \<longrightarrow> compressed_in (kv st) i = {}) \<and>
     (\<forall>i. 0 \<le> i \<and> i < num_layers (kv st) \<longrightarrow> comp_left (kv st) i = int (card (compressed_in (kv st) i)))"

definition w_inv :: "(int \<Rightarrow> bytes) \<Rightarrow> 'm core \<Rightarrow> bool" where
  "w_inv orig st \<longleftrightarrow>
     (\<forall>i. count (pending st) (WRead i) \<le> 1 \<and>
        count (pending st) (WAlloc i) = (if weight_alloc_done st i = Some False then 1 else 0) \<and>
        (WRead i \<in># pending st \<longrightarrow> 0 \<le> i \<and> i < num_layers (kv st) \<and> weight_alloc_done st i \<noteq> None \<and>
           w_dump (wt st) i = Some (orig i) \<and>
           (weight_alloc_done st i = Some True \<longrightarrow> w_buf (wt st) i \<noteq> None)) \<and>
        (weight_alloc_done st i = Some False \<longrightarrow> WRead i \<in># pending st) \<and>
        (0 \<le> i \<and> i < num_layers (kv st) \<and> WRead i \<notin># pending st \<longrightarrow> w_buf (wt st) i = Some (orig i)))"

text \<open>A chunk whose allocation is done owns memory of the right size; owned addresses differ.\<close>

definition owns :: "'m core \<Rightarrow> int \<Rightarrow> int \<Rightarrow> bool" where
  "owns st i j \<longleftrightarrow> chunk_ix (kv st) i j \<and>
     (states (kv st) i j = Raw \<or> kv_alloc_done st (i, j) = Some True)"

definition mem_inv :: "'m codec \<Rightarrow> 'm core \<Rightarrow> bool" where
  "mem_inv cd st \<longleftrightarrow>
     next_layer_to_offload (kv st) = num_layers (kv st) - 1 \<and>
     (\<forall>i j. owns st i j \<longrightarrow> raw_ok (kv st) i j) \<and>
     (\<forall>i j i' j'. owns st i j \<and> owns st i' j' \<and> raw_chunks (kv st) i j = raw_chunks (kv st) i' j' \<longrightarrow>
        i = i' \<and> j = j') \<and>
     (\<forall>i j. chunk_ix (kv st) i j \<and> states (kv st) i j = Compressed \<longrightarrow> comp_ok cd (kv st) i j) \<and>
     (\<forall>i j. chunk_ix (kv st) i j \<and> states (kv st) i j = Stored \<longrightarrow>
        stored_ok (kv st) i j \<and> layer_fds (kv st) i = RdOnly)"

definition pool_ok :: "'m core \<Rightarrow> bool" where
  "pool_ok st \<longleftrightarrow> \<not> stop (pool_of st) \<and>
     (\<forall>ty\<in>{ALLOC, READ, DECOMP, FREE}. \<exists>g. groups (pool_of st) ty = Some g \<and> 0 < workers g)"

definition sw_inv :: "'m codec \<Rightarrow> (int \<Rightarrow> int \<Rightarrow> (bytes \<times> bytes) option) \<Rightarrow> (int \<Rightarrow> bytes) \<Rightarrow> 'm core \<Rightarrow> bool" where
  "sw_inv cd V orig st \<longleftrightarrow>
     plan_ok (kv st) \<and> sync_inv st \<and> tasks_inv st \<and> w_inv orig st \<and> mem_inv cd st \<and> pool_ok st \<and>
     (\<forall>i j. chunk_ix (kv st) i j \<longrightarrow> chunk_view cd (kv st) i j = V i j)"

text \<open>What the environment has to deliver for a swap-in to go through.\<close>

definition io_reads :: "io_env \<Rightarrow> bool" where
  "io_reads env \<longleftrightarrow> (\<forall>L. open_r env L) \<and> (\<forall>L off n. n \<le> pread_n env L off n) \<and>
     (\<forall>L C. svm_alloc_ok env L C)"

definition w_io_ok :: "w_env \<Rightarrow> bool" where
  "w_io_ok we \<longleftrightarrow> w_aligned we \<and> (\<forall>L. w_alloc_ok we L \<and> w_open_ok we L \<and> w_read_ok we L)"

end
