(* ===== verification/Swapin_Safe.thy ===== *)
theory Swapin_Safe
  imports Swapin_Machine
begin

text \<open>
  Safety of the concurrent phase: in every interleaving each task finds the memory, the arenas, the
  descriptors and the futures it needs, no promise is set twice, and the content of every chunk is
  the one the chunk had when the swap-in started.
\<close>

subsection \<open>The pool\<close>

lemma active_inD:
  assumes "active_in st ty t"
  obtains g where "groups (pool_of st) ty = Some g" "t \<in> set (active g)"
  using assms by (auto simp: active_in_def split: option.splits)

lemma active_pending: "active_in st ty t \<Longrightarrow> t \<in># pending st"
  by (elim active_inD) (rule pool_pending_finish(2))

lemma finish_pending: "active_in st ty t \<Longrightarrow> pending (finish_in ty t st) = pending st - {#t#}"
  by (elim active_inD) (simp add: finish_in_def pool_pending_finish(1))

lemma finish_in_sel [simp]:
  "kv (finish_in ty t st) = kv st" "wt (finish_in ty t st) = wt st" "syncs (finish_in ty t st) = syncs st"
  "kv_alloc_done (finish_in ty t st) = kv_alloc_done st"
  "weight_alloc_done (finish_in ty t st) = weight_alloc_done st"
  by (simp_all add: finish_in_def)

lemma finish_task_workers:
  "groups p ty' = Some g \<Longrightarrow> \<exists>g'. groups (finish_task ty t p) ty' = Some g' \<and> workers g' = workers g"
  by (cases "ty' = ty") (auto simp: finish_task_def group_finish_def)

lemma pool_ok_finish:
  assumes "pool_ok st"
  shows "pool_ok (finish_in ty t st)"
  unfolding pool_ok_def
proof (intro conjI ballI)
  show "\<not> stop (pool_of (finish_in ty t st))"
    using assms by (simp add: pool_ok_def finish_in_def finish_task_def)
  fix ty' assume "ty' \<in> {ALLOC, READ, DECOMP, FREE}"
  with assms obtain g where "groups (pool_of st) ty' = Some g" "0 < workers g"
    unfolding pool_ok_def by blast
  with finish_task_workers [OF this(1), of ty t]
  show "\<exists>g. groups (pool_of (finish_in ty t st)) ty' = Some g \<and> 0 < workers g"
    by (auto simp: finish_in_def)
qed

lemma pool_ok_cong: "pool_of st' = pool_of st \<Longrightarrow> pool_ok st' = pool_ok st"
  by (simp add: pool_ok_def)

lemma pool_enqueue_ok:
  fixes st :: "'m core"
  assumes "pool_ok st" "ty \<in> {ALLOC, READ, DECOMP, FREE}"
  obtains p where "pool_enqueue ty t (pool_of st) = Ok p" "pool_pending p = pending st + {#t#}"
    "\<And>st' :: 'm core. pool_of st' = p \<Longrightarrow> pool_ok st'"
    "\<And>(st' :: 'm core) ty' t'. pool_of st' = p \<Longrightarrow> active_in st' ty' t' = active_in st ty' t'"
proof -
  obtain g where g: "groups (pool_of st) ty = Some g" "0 < workers g" "\<not> stop (pool_of st)"
    using assms unfolding pool_ok_def by blast
  let ?p = "(pool_of st)\<lparr>groups := (groups (pool_of st))(ty \<mapsto> group_enqueue t g)\<rparr>"
  have e: "pool_enqueue ty t (pool_of st) = Ok ?p" using g by (simp add: pool_enqueue_def)
  show thesis
  proof (rule that [OF e pool_pending_enqueue [OF e]])
    show "pool_of st' = ?p \<Longrightarrow> pool_ok st'" for st' :: "'m core"
      using assms g unfolding pool_ok_def by (auto simp: group_enqueue_def)
    show "pool_of st' = ?p \<Longrightarrow> active_in st' ty' t' = active_in st ty' t'" for st' :: "'m core" and ty' t'
      using g by (simp add: active_in_def group_enqueue_def)
  qed
qed

subsection \<open>Counting\<close>

lemma finite_unrestored [simp]: "finite (unrestored s i)" "finite (compressed_in s i)"
  by (rule finite_subset [of _ "{0..<num_chunks_per_tensor s}"]; auto simp: unrestored_def compressed_in_def)+

lemma unrestored_raw:
  assumes "states s' = upd2 (states s) L C Raw" "num_chunks_per_tensor s' = num_chunks_per_tensor s"
  shows "unrestored s' i = (if i = L then unrestored s i - {C} else unrestored s i)"
    "compressed_in s' i = (if i = L then compressed_in s i - {C} else compressed_in s i)"
  using assms by (auto simp: unrestored_def compressed_in_def)

lemma unrestored_mem: "chunk_ix s i j \<Longrightarrow> states s i j \<noteq> Raw \<Longrightarrow> j \<in> unrestored s i"
  by (simp add: unrestored_def chunk_ix_def)

lemma compressed_mem: "chunk_ix s i j \<Longrightarrow> j \<in> compressed_in s i \<longleftrightarrow> states s i j = Compressed"
  by (simp add: compressed_in_def chunk_ix_def)

lemma layer_task_done_ok:
  assumes "sync_inv st" "nl = num_layers (kv st)" "0 \<le> L" "L < nl" "left_count st L = Suc n"
    and "syncs st' = syncs st"
  shows "layer_task_done nl L st' =
    Ok (st'\<lparr>syncs := (syncs st)[nat L := \<lparr>remaining = int n, prom_set = (n = 0)\<rparr>]\<rparr>)"
  using assms by (simp add: layer_task_done_def sync_inv_def taskDone_def set_value_def Let_def)

lemma sync_inv_dec:
  assumes "sync_inv st" "num_layers (kv st') = num_layers (kv st)" "w_num_layers (wt st') = w_num_layers (wt st)"
    and "0 \<le> L" "L < num_layers (kv st)"
    and "syncs st' = (syncs st)[nat L := \<lparr>remaining = int n, prom_set = (n = 0)\<rparr>]"
    and "left_count st' L = n" "\<And>i. i \<noteq> L \<Longrightarrow> left_count st' i = left_count st i"
  shows "sync_inv st'"
  unfolding sync_inv_def
proof (intro conjI allI impI)
  fix i assume i: "0 \<le> i \<and> i < num_layers (kv st')"
  show "syncs st' ! nat i = \<lparr>remaining = int (left_count st' i), prom_set = left_count st' i = 0\<rparr>"
  proof (cases "i = L")
    case False
    then have "nat i \<noteq> nat L" using i assms(4) by (simp add: nat_eq_iff)
    with False assms i show ?thesis by (simp add: sync_inv_def)
  qed (use assms in \<open>simp add: sync_inv_def nat_less_iff\<close>)
qed (use assms in \<open>simp_all add: sync_inv_def\<close>)

lemma sync_inv_cong:
  assumes "num_layers (kv st') = num_layers (kv st)" "w_num_layers (wt st') = w_num_layers (wt st)"
    "syncs st' = syncs st" "\<And>i. left_count st' i = left_count st i"
  shows "sync_inv st' = sync_inv st"
  using assms by (simp add: sync_inv_def)

lemma pending_in_count: "t \<in># M \<longleftrightarrow> count M t \<noteq> 0"
  by (simp add: not_in_iff)

lemma w_inv_cong:
  assumes "w_inv orig st" "wt u = wt st" "weight_alloc_done u = weight_alloc_done st"
    "num_layers (kv u) = num_layers (kv st)"
    and "\<And>i. count (pending u) (WRead i) = count (pending st) (WRead i)"
    "\<And>i. count (pending u) (WAlloc i) = count (pending st) (WAlloc i)"
  shows "w_inv orig u"
  using assms unfolding w_inv_def pending_in_count by simp

subsection \<open>Allocation\<close>

lemma sw_invD:
  assumes "sw_inv cd V orig st"
  shows "plan_ok (kv st)" "sync_inv st" "tasks_inv st" "w_inv orig st" "mem_inv cd st" "pool_ok st"
    "chunk_ix (kv st) i j \<Longrightarrow> chunk_view cd (kv st) i j = V i j"
  using assms by (auto simp: sw_inv_def)

lemma tasks_invD:
  assumes "tasks_inv st"
  shows "count (pending st) (KvDecomp i j) =
        (if chunk_ix (kv st) i j \<and> states (kv st) i j = Compressed then 1 else 0)"
    "count (pending st) (KvRead i j) =
        (if chunk_ix (kv st) i j \<and> states (kv st) i j = Stored then 1 else 0)"
    "count (pending st) (KvAlloc i j) = (if kv_alloc_done st (i, j) = Some False then 1 else 0)"
    "kv_alloc_done st (i, j) \<noteq> None \<Longrightarrow> chunk_ix (kv st) i j"
    "chunk_ix (kv st) i j \<Longrightarrow> states (kv st) i j \<noteq> Raw \<Longrightarrow> kv_alloc_done st (i, j) \<noteq> None"
    "kv_alloc_done st (i, j) = Some False \<Longrightarrow> states (kv st) i j \<noteq> Raw"
    "FreeArenas i \<in># pending st \<Longrightarrow> compressed_in (kv st) i = {}"
    "0 \<le> i \<Longrightarrow> i < num_layers (kv st) \<Longrightarrow> comp_left (kv st) i = int (card (compressed_in (kv st) i))"
  using assms unfolding tasks_inv_def by blast+

lemma mem_invD:
  assumes "mem_inv cd st"
  shows "next_layer_to_offload (kv st) = num_layers (kv st) - 1"
    "owns st i j \<Longrightarrow> raw_ok (kv st) i j"
    "owns st i j \<Longrightarrow> owns st i' j' \<Longrightarrow> raw_chunks (kv st) i j = raw_chunks (kv st) i' j' \<Longrightarrow> i = i' \<and> j = j'"
    "chunk_ix (kv st) i j \<Longrightarrow> states (kv st) i j = Compressed \<Longrightarrow> comp_ok cd (kv st) i j"
    "chunk_ix (kv st) i j \<Longrightarrow> states (kv st) i j = Stored \<Longrightarrow> stored_ok (kv st) i j \<and> layer_fds (kv st) i = RdOnly"
  using assms unfolding mem_inv_def by blast+

lemma alloc_task_facts:
  assumes "tasks_inv st" "KvAlloc L C \<in># pending st"
  shows "kv_alloc_done st (L, C) = Some False" "chunk_ix (kv st) L C" "states (kv st) L C \<noteq> Raw"
  using assms tasks_invD(1-6) [OF assms(1), of L C] by (auto simp: pending_in_count split: if_splits)

definition alloc_mem :: "io_env \<Rightarrow> 'm kv_state \<Rightarrow> chunk_mem" where
  "alloc_mem env s = \<lparr>k_mem = take (rbytes s) (fresh_mem env (svm_next s) @ replicate (rbytes s) 0),
     v_mem = take (rbytes s) (drop (rbytes s) (fresh_mem env (svm_next s)) @ replicate (rbytes s) 0),
     contiguous = True\<rparr>"

lemma kv_alloc_worker_eq:
  assumes "plan_ok (kv st)" "chunk_ix (kv st) L C" "io_reads env"
  shows "kv_alloc_worker env L C st = Ok (st\<lparr>kv := (kv st)\<lparr>svm_next := svm_next (kv st) + 1,
      svm_mem := (svm_mem (kv st))(svm_next (kv st) \<mapsto> alloc_mem env (kv st)),
      raw_chunks := upd2 (raw_chunks (kv st)) L C (Some (svm_next (kv st))),
      svm_chunk_ptrs := upd2 (svm_chunk_ptrs (kv st)) L C (Some (svm_next (kv st)))\<rparr>,
    kv_alloc_done := (kv_alloc_done st)((L, C) \<mapsto> True)\<rparr>)"
  using chunk_ix_idx_ok [OF assms(1,2)] assms(3)
  by (simp add: kv_alloc_worker_def Let_def alloc_mem_def io_reads_def)

lemma alloc_tasks:
  assumes inv: "tasks_inv st" and f: "kv_alloc_done st (L, C) = Some False"
    and u: "states (kv u) = states (kv st)" "chunk_ix (kv u) = chunk_ix (kv st)"
      "num_layers (kv u) = num_layers (kv st)"
      "num_chunks_per_tensor (kv u) = num_chunks_per_tensor (kv st)"
      "comp_left (kv u) = comp_left (kv st)" "kv_alloc_done u = (kv_alloc_done st)((L, C) \<mapsto> True)"
    and pend: "pending u = pending st - {#KvAlloc L C#}"
  shows "tasks_inv u"
  unfolding tasks_inv_def
proof (intro conjI allI impI)
  note t = tasks_invD [OF inv]
  have ci: "compressed_in (kv u) = compressed_in (kv st)" by (simp add: compressed_in_def fun_eq_iff u)
  fix i j
  show "count (pending u) (KvDecomp i j) =
      (if chunk_ix (kv u) i j \<and> states (kv u) i j = Compressed then 1 else 0)"
    using t(1) [of i j] by (simp add: pend u)
  show "count (pending u) (KvRead i j) =
      (if chunk_ix (kv u) i j \<and> states (kv u) i j = Stored then 1 else 0)"
    using t(2) [of i j] by (simp add: pend u)
  show "count (pending u) (KvAlloc i j) = (if kv_alloc_done u (i, j) = Some False then 1 else 0)"
    using t(3) [of i j] f by (auto simp: pend u)
  { assume "kv_alloc_done u (i, j) \<noteq> None" then show "chunk_ix (kv u) i j"
      using t(4) [of i j] f by (auto simp: u split: if_splits) }
  { assume "chunk_ix (kv u) i j \<and> states (kv u) i j \<noteq> Raw"
    then show "kv_alloc_done u (i, j) \<noteq> None" using t(5) [of i j] by (auto simp: u) }
  { assume "kv_alloc_done u (i, j) = Some False"
    then show "states (kv u) i j \<noteq> Raw" using t(6) [of i j] by (simp add: u split: if_splits) }
  { assume "FreeArenas i \<in># pending u" then show "compressed_in (kv u) i = {}"
      using t(7) [of i] unfolding pend ci by (auto dest: in_diffD) }
  { assume "0 \<le> i \<and> i < num_layers (kv u)"
    then show "comp_left (kv u) i = int (card (compressed_in (kv u) i))"
      using t(8) [of i] by (simp add: u ci) }
qed

lemma alloc_preserves:
  assumes inv: "sw_inv cd V orig st" and io: "io_reads env" and act: "active_in st ty (KvAlloc L C)"
  shows "\<exists>st'. kv_alloc_worker env L C st = Ok st' \<and> sw_inv cd V orig (finish_in ty (KvAlloc L C) st')"
proof -
  note i = sw_invD [OF inv]
  note f = alloc_task_facts [OF i(3) active_pending [OF act]]
  let ?s = "kv st" and ?a = "svm_next (kv st)"
  define s' where "s' = ?s\<lparr>svm_next := ?a + 1,
      svm_mem := (svm_mem ?s)(?a \<mapsto> alloc_mem env ?s),
      raw_chunks := upd2 (raw_chunks ?s) L C (Some ?a),
      svm_chunk_ptrs := upd2 (svm_chunk_ptrs ?s) L C (Some ?a)\<rparr>"
  define st' where "st' = st\<lparr>kv := s', kv_alloc_done := (kv_alloc_done st)((L, C) \<mapsto> True)\<rparr>"
  define u where "u = finish_in ty (KvAlloc L C) st'"
  have run: "kv_alloc_worker env L C st = Ok st'"
    using kv_alloc_worker_eq [OF i(1) f(2) io] by (simp add: st'_def s'_def)
  have act': "active_in st' ty (KvAlloc L C)" using act by (simp add: active_in_def st'_def)
  have pend: "pending u = pending st - {#KvAlloc L C#}"
    using finish_pending [OF act'] by (simp add: u_def st'_def)
  have sel: "kv u = s'" "wt u = wt st" "syncs u = syncs st" "weight_alloc_done u = weight_alloc_done st"
    "kv_alloc_done u = (kv_alloc_done st)((L, C) \<mapsto> True)"
    by (simp_all add: u_def st'_def)
  have s'sel: "states s' = states ?s" "num_layers s' = num_layers ?s" "num_chunks_per_tensor s' = num_chunks_per_tensor ?s"
    "kv_hidden_dim s' = kv_hidden_dim ?s" "chunk_bound s' = chunk_bound ?s" "comp_left s' = comp_left ?s"
    "k_comp s' = k_comp ?s" "v_comp s' = v_comp ?s" "k_stored s' = k_stored ?s" "v_stored s' = v_stored ?s"
    "kv_file s' = kv_file ?s" "layer_fds s' = layer_fds ?s" "next_layer_to_offload s' = next_layer_to_offload ?s"
    by (simp_all add: s'_def)
  have lp: "layer_pools s' = layer_pools ?s" by (intro layer_pools_cong) (simp_all add: s'_def)
  have ix: "chunk_ix s' = chunk_ix ?s" by (simp add: chunk_ix_def fun_eq_iff s'_def)
  have old: "raw_chunks s' i j = raw_chunks ?s i j \<and> raw_ok s' i j" if raw: "raw_ok ?s i j" "\<not> (i = L \<and> j = C)" for i j
  proof -
    obtain a m where "raw_chunks ?s i j = Some a" "svm_chunk_ptrs ?s i j = Some a" "a < ?a"
      "svm_mem ?s a = Some m" "length (k_mem m) = rbytes ?s" "length (v_mem m) = rbytes ?s"
      using raw(1) by (auto simp: raw_ok_def)
    with raw(2) show ?thesis unfolding raw_ok_def
      by (intro conjI exI [of _ a] exI [of _ m]) (auto simp: s'_def)
  qed
  have new: "raw_ok s' L C" by (simp add: raw_ok_def s'_def alloc_mem_def min_def)
  have ow: "owns u i j \<longleftrightarrow> owns st i j \<or> i = L \<and> j = C" for i j
    using f by (auto simp: owns_def sel ix s'sel)
  have below: "raw_chunks ?s i j \<noteq> Some ?a" if "owns st i j" for i j
    using mem_invD(2) [OF i(5) that] by (auto simp: raw_ok_def)
  have notL: "\<not> owns st L C" using f by (simp add: owns_def)
  have "sw_inv cd V orig u"
    unfolding sw_inv_def
  proof (intro conjI allI impI)
    show "plan_ok (kv u)" using i(1) plan_ok_cong [of s' ?s] by (simp add: sel s'sel)
    show "sync_inv u"
      using i(2) by (subst sync_inv_cong [of u st])
        (simp_all add: sel s'sel left_count_def w_unread_def pend unrestored_def)
    show "tasks_inv u" by (rule alloc_tasks [OF i(3) f(1)]) (simp_all add: sel s'sel ix pend)
    show "w_inv orig u" by (rule w_inv_cong [OF i(4)]) (simp_all add: sel s'sel pend)
    show "pool_ok u"
      using i(6) unfolding u_def by (intro pool_ok_finish) (simp add: pool_ok_def st'_def)
    show "mem_inv cd u"
      unfolding mem_inv_def sel ix ow
    proof (intro conjI allI impI)
      fix i j assume "owns st i j \<or> i = L \<and> j = C"
      then show "raw_ok s' i j" using mem_invD(2) [OF i(5), of i j] old new by blast
    next
      fix i j i' j' assume a: "(owns st i j \<or> i = L \<and> j = C) \<and> (owns st i' j' \<or> i' = L \<and> j' = C) \<and>
        raw_chunks s' i j = raw_chunks s' i' j'"
      show "i = i'" "j = j'"
        using a mem_invD(3) [OF i(5), of i j i' j'] below notL by (auto simp: s'_def split: if_splits)
    qed (use mem_invD [OF i(5)] in \<open>auto simp: s'sel comp_ok_def stored_ok_def lp\<close>)
    fix i j assume "chunk_ix (kv u) i j"
    then have ij: "chunk_ix ?s i j" by (simp add: sel ix)
    have "chunk_view cd s' i j = chunk_view cd ?s i j"
    proof (cases "states ?s i j")
      case Raw
      then have "owns st i j" using ij by (simp add: owns_def)
      with below [of i j] Raw f(3) show ?thesis
        by (auto simp: chunk_view_def s'_def split: option.splits)
    qed (simp_all add: chunk_view_def s'sel lp)
    then show "chunk_view cd (kv u) i j = V i j" using i(7) [OF ij] by (simp add: sel)
  qed
  with run show ?thesis by (auto simp: u_def)
qed

subsection \<open>Restoring a chunk\<close>

text \<open>The common part of the read and the decompression worker: the chunk's memory receives its
  content, its state becomes \<open>Raw\<close>, its task is done and the layer's sync is decremented.\<close>

definition restored_state ::
  "int \<Rightarrow> int \<Rightarrow> nat \<Rightarrow> chunk_mem \<Rightarrow> (int \<Rightarrow> int) \<Rightarrow> 'm kv_state \<Rightarrow> 'm kv_state" where
  "restored_state L C a m' cl s =
     s\<lparr>svm_mem := (svm_mem s)(a \<mapsto> m'), states := upd2 (states s) L C Raw, comp_left := cl\<rparr>"

lemma restored_state_frame [simp]:
  "num_layers (restored_state L C a m cl s) = num_layers s"
  "num_chunks_per_tensor (restored_state L C a m cl s) = num_chunks_per_tensor s"
  "kv_hidden_dim (restored_state L C a m cl s) = kv_hidden_dim s"
  "chunk_bound (restored_state L C a m cl s) = chunk_bound s"
  "k_comp (restored_state L C a m cl s) = k_comp s" "v_comp (restored_state L C a m cl s) = v_comp s"
  "k_stored (restored_state L C a m cl s) = k_stored s" "v_stored (restored_state L C a m cl s) = v_stored s"
  "kv_file (restored_state L C a m cl s) = kv_file s" "layer_fds (restored_state L C a m cl s) = layer_fds s"
  "next_layer_to_offload (restored_state L C a m cl s) = next_layer_to_offload s"
  "raw_chunks (restored_state L C a m cl s) = raw_chunks s"
  "svm_chunk_ptrs (restored_state L C a m cl s) = svm_chunk_ptrs s"
  "svm_next (restored_state L C a m cl s) = svm_next s"
  "arenas (restored_state L C a m cl s) = arenas s"
  "svm_mem (restored_state L C a m cl s) = (svm_mem s)(a \<mapsto> m)"
  "states (restored_state L C a m cl s) = upd2 (states s) L C Raw"
  "comp_left (restored_state L C a m cl s) = cl"
  "layer_pools (restored_state L C a m cl s) = layer_pools s"
  "chunk_ix (restored_state L C a m cl s) = chunk_ix s"
  by (simp_all add: restored_state_def chunk_ix_def fun_eq_iff layer_pools_def split: option.splits)

definition restores :: "'m core \<Rightarrow> int \<Rightarrow> int \<Rightarrow> nat \<Rightarrow> chunk_mem \<Rightarrow> bool" where
  "restores st L C a m' \<longleftrightarrow>
     chunk_ix (kv st) L C \<and> states (kv st) L C \<noteq> Raw \<and> kv_alloc_done st (L, C) = Some True \<and>
     svm_chunk_ptrs (kv st) L C = Some a \<and>
     length (k_mem m') = rbytes (kv st) \<and> length (v_mem m') = rbytes (kv st)"

lemma restores_owns: "restores st L C a m' \<Longrightarrow> owns st L C"
  by (simp add: restores_def owns_def)

lemma restore_mem:
  assumes inv: "mem_inv cd st" and r: "restores st L C a m'"
    and u: "kv u = restored_state L C a m' cl (kv st)" "kv_alloc_done u = kv_alloc_done st"
  shows "mem_inv cd u"
    and "chunk_ix (kv st) i j \<Longrightarrow> chunk_view cd (kv u) i j =
      (if i = L \<and> j = C then Some (k_mem m', v_mem m') else chunk_view cd (kv st) i j)"
proof -
  let ?s = "kv st"
  note m = mem_invD [OF inv] and o = restores_owns [OF r]
  obtain b where "raw_chunks ?s L C = Some b" "svm_chunk_ptrs ?s L C = Some b" "b < svm_next ?s"
    using m(2) [OF o] by (auto simp: raw_ok_def)
  then have a: "raw_chunks ?s L C = Some a" "a < svm_next ?s" using r by (auto simp: restores_def)
  have ow: "owns u i j \<longleftrightarrow> owns st i j" for i j
    using r by (auto simp: owns_def u restores_def)
  have na: "raw_chunks ?s i j \<noteq> Some a" if "owns st i j" "\<not> (i = L \<and> j = C)" for i j
    using m(3) [OF that(1) o] that(2) a by auto
  have ro: "raw_ok (kv u) i j" if "owns st i j" for i j
  proof (cases "i = L \<and> j = C")
    case True
    with a r show ?thesis by (simp add: raw_ok_def u restores_def)
  next
    case False
    from m(2) [OF that] na [OF that False] show ?thesis by (auto simp: raw_ok_def u)
  qed
  show "mem_inv cd u"
    unfolding mem_inv_def ow
  proof (intro conjI allI impI)
    show "next_layer_to_offload (kv u) = num_layers (kv u) - 1" using m(1) by (simp add: u)
    fix i j assume "owns st i j" then show "raw_ok (kv u) i j" by (rule ro)
  next
    fix i j i' j' assume "owns st i j \<and> owns st i' j' \<and> raw_chunks (kv u) i j = raw_chunks (kv u) i' j'"
    then show "i = i'" "j = j'" using m(3) [of i j i' j'] by (auto simp: u)
  next
    fix i j assume a: "chunk_ix (kv u) i j \<and> states (kv u) i j = Compressed"
    then show "comp_ok cd (kv u) i j" using m(4) [of i j] by (auto simp: u comp_ok_def split: if_splits)
  next
    fix i j assume a: "chunk_ix (kv u) i j \<and> states (kv u) i j = Stored"
    then show "stored_ok (kv u) i j" "layer_fds (kv u) i = RdOnly"
      using m(5) [of i j] by (auto simp: u stored_ok_def split: if_splits)
  qed
  assume ij: "chunk_ix ?s i j"
  show "chunk_view cd (kv u) i j =
      (if i = L \<and> j = C then Some (k_mem m', v_mem m') else chunk_view cd ?s i j)"
  proof (cases "i = L \<and> j = C")
    case True
    then show ?thesis using a by (simp add: chunk_view_def u)
  next
    case False
    have "states ?s i j = Raw \<Longrightarrow> raw_chunks ?s i j \<noteq> Some a"
      using na [of i j] False ij by (simp add: owns_def)
    with False show ?thesis
      by (auto simp: chunk_view_def u split: KVstate.splits option.splits)
  qed
qed

text \<open>\<open>t\<close> is the task of the chunk: every other counted task keeps its multiplicity.\<close>

definition chunk_task :: "'m kv_state \<Rightarrow> int \<Rightarrow> int \<Rightarrow> task" where
  "chunk_task s L C = (if states s L C = Compressed then KvDecomp L C else KvRead L C)"

lemma restore_sync:
  assumes inv: "sync_inv st" and ix: "chunk_ix (kv st) L C" "states (kv st) L C \<noteq> Raw"
    and left: "left_count st L = Suc n"
    and u: "kv u = restored_state L C a m' cl (kv st)" "wt u = wt st"
      "syncs u = (syncs st)[nat L := \<lparr>remaining = int n, prom_set = (n = 0)\<rparr>]"
    and w: "\<And>i. count (pending u) (WRead i) = count (pending st) (WRead i)"
  shows "sync_inv u"
proof -
  have un: "unrestored (kv u) i = (if i = L then unrestored (kv st) i - {C} else unrestored (kv st) i)" for i
    by (rule unrestored_raw) (simp_all add: u)
  have "C \<in> unrestored (kv st) L" using ix by (rule unrestored_mem)
  then have "card (unrestored (kv st) L) = Suc (card (unrestored (kv u) L))"
    using card_Suc_Diff1 [OF finite_unrestored(1) [of "kv st" L], of C]
    by (simp add: un del: card_Diff_singleton)
  with left have l: "left_count u L = n" "\<And>i. i \<noteq> L \<Longrightarrow> left_count u i = left_count st i"
    by (simp_all add: left_count_def w_unread_def w un)
  show ?thesis
    by (rule sync_inv_dec [OF inv _ _ _ _ u(3) l]) (use ix in \<open>simp_all add: u chunk_ix_def\<close>)
qed

lemma restore_tasks:
  assumes inv: "tasks_inv st" and r: "restores st L C a m'"
    and u: "kv u = restored_state L C a m' cl (kv st)" "kv_alloc_done u = kv_alloc_done st"
    and cnt: "\<And>x. (\<forall>i. x \<noteq> FreeArenas i) \<Longrightarrow>
      count (pending u) x = (if x = chunk_task (kv st) L C then 0 else count (pending st) x)"
    and free: "\<And>i. FreeArenas i \<in># pending u \<Longrightarrow> compressed_in (kv u) i = {}"
    and cl: "\<And>i. 0 \<le> i \<Longrightarrow> i < num_layers (kv st) \<Longrightarrow> cl i = int (card (compressed_in (kv u) i))"
  shows "tasks_inv u"
  unfolding tasks_inv_def
proof (intro conjI allI impI)
  note t = tasks_invD [OF inv]
  fix i j
  show "count (pending u) (KvDecomp i j) =
      (if chunk_ix (kv u) i j \<and> states (kv u) i j = Compressed then 1 else 0)"
    using t(1) [of i j] r by (auto simp: cnt u chunk_task_def restores_def)
  show "count (pending u) (KvRead i j) =
      (if chunk_ix (kv u) i j \<and> states (kv u) i j = Stored then 1 else 0)"
    using t(2) [of i j] r by (cases "states (kv st) L C") (auto simp: cnt u chunk_task_def restores_def)
  show "count (pending u) (KvAlloc i j) = (if kv_alloc_done u (i, j) = Some False then 1 else 0)"
    using t(3) [of i j] by (auto simp: cnt u chunk_task_def)
  { assume "kv_alloc_done u (i, j) \<noteq> None" then show "chunk_ix (kv u) i j" using t(4) [of i j] by (simp add: u) }
  { assume "chunk_ix (kv u) i j \<and> states (kv u) i j \<noteq> Raw"
    then show "kv_alloc_done u (i, j) \<noteq> None" using t(5) [of i j] by (auto simp: u split: if_splits) }
  { assume "kv_alloc_done u (i, j) = Some False"
    then show "states (kv u) i j \<noteq> Raw" using t(6) [of i j] r by (auto simp: u restores_def) }
next
  fix i assume "FreeArenas i \<in># pending u" then show "compressed_in (kv u) i = {}" by (rule free)
next
  fix i assume "0 \<le> i \<and> i < num_layers (kv u)"
  then show "comp_left (kv u) i = int (card (compressed_in (kv u) i))" using cl by (simp add: u)
qed

lemma sw_inv_restore:
  assumes inv: "sw_inv cd V orig st" and r: "restores st L C a m'" and left: "left_count st L = Suc n"
    and content: "V L C = Some (k_mem m', v_mem m')"
    and u: "kv u = restored_state L C a m' cl (kv st)" "kv_alloc_done u = kv_alloc_done st" "wt u = wt st"
      "weight_alloc_done u = weight_alloc_done st" "pool_ok u"
      "syncs u = (syncs st)[nat L := \<lparr>remaining = int n, prom_set = (n = 0)\<rparr>]"
    and cnt: "\<And>x. (\<forall>i. x \<noteq> FreeArenas i) \<Longrightarrow>
      count (pending u) x = (if x = chunk_task (kv st) L C then 0 else count (pending st) x)"
    and free: "\<And>i. FreeArenas i \<in># pending u \<Longrightarrow> compressed_in (kv u) i = {}"
    and cl: "\<And>i. 0 \<le> i \<Longrightarrow> i < num_layers (kv st) \<Longrightarrow> cl i = int (card (compressed_in (kv u) i))"
  shows "sw_inv cd V orig u"
  unfolding sw_inv_def
proof (intro conjI allI impI)
  note i = sw_invD [OF inv]
  have ix: "chunk_ix (kv st) L C" "states (kv st) L C \<noteq> Raw" using r by (simp_all add: restores_def)
  have w: "count (pending u) (WRead i) = count (pending st) (WRead i)"
    "count (pending u) (WAlloc i) = count (pending st) (WAlloc i)" for i
    by (simp_all add: cnt chunk_task_def)
  show "plan_ok (kv u)" using i(1) plan_ok_cong [of "kv u" "kv st"] by (simp add: u)
  show "sync_inv u" by (rule restore_sync [OF i(2) ix left u(1,3,6) w(1)])
  show "tasks_inv u" by (rule restore_tasks [OF i(3) r u(1,2) cnt free cl])
  show "w_inv orig u" by (rule w_inv_cong [OF i(4) u(3,4) _ w]) (simp add: u)
  show "mem_inv cd u" by (rule restore_mem(1) [OF i(5) r u(1,2)])
  show "pool_ok u" by (rule u(5))
  fix p q assume "chunk_ix (kv u) p q"
  then have pq: "chunk_ix (kv st) p q" by (simp add: u)
  from restore_mem(2) [OF i(5) r u(1,2) pq] i(7) [OF pq] content
  show "chunk_view cd (kv u) p q = V p q" by auto
qed

lemma left_pos:
  assumes "chunk_ix (kv st) L C" "states (kv st) L C \<noteq> Raw"
  obtains n where "left_count st L = Suc n"
proof -
  have "card (unrestored (kv st) L) \<noteq> 0" using unrestored_mem [OF assms] by auto
  with that show thesis by (cases "left_count st L") (auto simp: left_count_def)
qed

text \<open>The memory a chunk task finds once its allocation is done.\<close>

lemma chunk_task_mem:
  assumes "sw_inv cd V orig st" "chunk_ix (kv st) L C" "states (kv st) L C \<noteq> Raw"
    "kv_alloc_done st (L, C) \<noteq> Some False"
  obtains a m where "kv_alloc_done st (L, C) = Some True" "svm_chunk_ptrs (kv st) L C = Some a"
    "svm_mem (kv st) a = Some m" "length (k_mem m) = rbytes (kv st)" "length (v_mem m) = rbytes (kv st)"
    "idx_ok L C"
proof -
  note i = sw_invD [OF assms(1)]
  have d: "kv_alloc_done st (L, C) = Some True" using tasks_invD(5) [OF i(3) assms(2,3)] assms(4) by auto
  then have "owns st L C" using assms(2) by (simp add: owns_def)
  from mem_invD(2) [OF i(5) this] d chunk_ix_idx_ok [OF i(1) assms(2)] that show thesis
    by (auto simp: raw_ok_def)
qed

subsection \<open>Reading\<close>

lemma read_pair_full:
  assumes "io_reads env" "length (k_mem m) = rb" "length (v_mem m) = rb"
  shows "k_mem (read_pair env RdOnly f L rb ok ov m) = read_at f ok rb"
    "v_mem (read_pair env RdOnly f L rb ok ov m) = read_at f ov rb"
proof -
  have n: "cnt \<le> pread_n env L off cnt" for off cnt using assms(1) by (simp add: io_reads_def)
  have "pread f ok (k_mem m @ v_mem m) (pread_n env L ok (rb * 2)) = read_at f ok (rb + rb)"
    using n [of "rb * 2" ok] assms(2,3) by (subst pread_full) (simp_all add: mult_2_right)
  then have p: "pread f ok (k_mem m @ v_mem m) (pread_n env L ok (rb * 2))
      = read_at f ok rb @ read_at f (ok + rb) rb" by (simp add: read_at_add)
  have q: "pread f ok (k_mem m) (pread_n env L ok rb) = read_at f ok rb"
    "pread f ov (v_mem m) (pread_n env L ov rb) = read_at f ov rb"
    using n [of rb] assms(2,3) by (simp_all add: pread_full)
  show "k_mem (read_pair env RdOnly f L rb ok ov m) = read_at f ok rb"
    "v_mem (read_pair env RdOnly f L rb ok ov m) = read_at f ov rb"
    using p q by (simp_all add: read_pair_def Let_def)
qed

lemma read_preserves:
  assumes inv: "sw_inv cd V orig st" and io: "io_reads env" and act: "active_in st ty (KvRead L C)"
    and ready: "task_ready st (KvRead L C)"
  shows "\<exists>st'. kv_read_worker env L C st = Ok st' \<and> sw_inv cd V orig (finish_in ty (KvRead L C) st')"
proof -
  note i = sw_invD [OF inv]
  let ?s = "kv st"
  have c1: "count (pending st) (KvRead L C) \<noteq> 0" using active_pending [OF act] unfolding pending_in_count .
  then have st: "chunk_ix ?s L C" "states ?s L C = Stored"
    using tasks_invD(2) [OF i(3), of L C] by (auto split: if_splits)
  then have nr: "states ?s L C \<noteq> Raw" by simp
  obtain a m where m: "kv_alloc_done st (L, C) = Some True" "svm_chunk_ptrs ?s L C = Some a"
    "svm_mem ?s a = Some m" "length (k_mem m) = rbytes ?s" "length (v_mem m) = rbytes ?s" "idx_ok L C"
    using chunk_task_mem [OF inv st(1) nr] ready by (auto simp: task_ready_def)
  define m' where "m' = read_pair env (layer_fds ?s L) (kv_file ?s L) L (rbytes ?s)
      (file_offset (k_stored ?s L C)) (file_offset (v_stored ?s L C)) m"
  have fd: "layer_fds ?s L = RdOnly" using mem_invD(5) [OF i(5) st] by simp
  have mem: "k_mem m' = read_at (kv_file ?s L) (file_offset (k_stored ?s L C)) (rbytes ?s)"
    "v_mem m' = read_at (kv_file ?s L) (file_offset (v_stored ?s L C)) (rbytes ?s)"
    using read_pair_full [OF io m(4,5)] by (simp_all add: m'_def fd)
  then have content: "V L C = Some (k_mem m', v_mem m')"
    using i(7) [OF st(1)] st(2) by (simp add: chunk_view_def)
  obtain n where n: "left_count st L = Suc n" by (rule left_pos [OF st(1) nr])
  define st1 where "st1 = st\<lparr>kv := restored_state L C a m' (comp_left ?s) ?s\<rparr>"
  define st' where "st' = st1\<lparr>syncs := (syncs st)[nat L := \<lparr>remaining = int n, prom_set = (n = 0)\<rparr>]\<rparr>"
  have L: "0 \<le> L" "L < num_layers ?s" using st(1) by (auto simp: chunk_ix_def)
  have "st\<lparr>kv := ?s\<lparr>svm_mem := (svm_mem ?s)(a \<mapsto> m'), states := upd2 (states ?s) L C Raw\<rparr>\<rparr> = st1"
    by (simp add: st1_def restored_state_def)
  then have run: "kv_read_worker env L C st = Ok st'"
    using m layer_task_done_ok [OF i(2) refl L n, of st1]
    by (simp add: kv_read_worker_def Let_def wait_for_kv_allocation_def m'_def [symmetric] st'_def)
      (simp add: st1_def)
  have r: "restores st L C a m'" using st(1) nr m mem by (simp add: restores_def)
  have act': "active_in st' ty (KvRead L C)" using act by (simp add: active_in_def st'_def st1_def)
  have pend: "pending (finish_in ty (KvRead L C) st') = pending st - {#KvRead L C#}"
    using finish_pending [OF act'] by (simp add: st'_def st1_def)
  have ci: "compressed_in (restored_state L C a m' cl ?s) k = compressed_in ?s k" for k cl
    using st(2) by (auto simp: compressed_in_def)
  have one: "count (pending st) (KvRead L C) = 1" using tasks_invD(2) [OF i(3), of L C] st by simp
  have "sw_inv cd V orig (finish_in ty (KvRead L C) st')"
  proof (rule sw_inv_restore [where cl = "comp_left ?s", OF inv r n content])
    show "pool_ok (finish_in ty (KvRead L C) st')"
      using i(6) by (intro pool_ok_finish) (simp add: pool_ok_def st'_def st1_def)
    show "count (pending (finish_in ty (KvRead L C) st')) x =
        (if x = chunk_task ?s L C then 0 else count (pending st) x)" for x
      using one by (simp add: pend chunk_task_def st(2))
    show "compressed_in (kv (finish_in ty (KvRead L C) st')) k = {}"
      if "FreeArenas k \<in># pending (finish_in ty (KvRead L C) st')" for k
      using that tasks_invD(7) [OF i(3), of k] unfolding pend
      by (auto simp: st'_def st1_def ci dest: in_diffD)
  qed (use tasks_invD(8) [OF i(3)] in \<open>simp_all add: st'_def st1_def ci\<close>)
  with run show ?thesis by blast
qed

subsection \<open>Freeing arenas and loading weights\<close>

lemma free_preserves:
  assumes inv: "sw_inv cd V orig st" and act: "active_in st ty (FreeArenas L)"
  shows "sw_inv cd V orig (finish_in ty (FreeArenas L) (free_layer_arenas L st))"
proof -
  note i = sw_invD [OF inv]
  let ?s = "kv st"
  define st' where "st' = free_layer_arenas L st"
  define u where "u = finish_in ty (FreeArenas L) st'"
  have act': "active_in st' ty (FreeArenas L)" using act by (simp add: active_in_def st'_def free_layer_arenas_def)
  have pend: "pending u = pending st - {#FreeArenas L#}"
    using finish_pending [OF act'] by (simp add: u_def st'_def free_layer_arenas_def)
  have none: "compressed_in ?s L = {}" using tasks_invD(7) [OF i(3) active_pending [OF act]] .
  have sel: "kv u = ?s\<lparr>arenas := (arenas ?s)(L := [])\<rparr>" "wt u = wt st" "syncs u = syncs st"
    "kv_alloc_done u = kv_alloc_done st" "weight_alloc_done u = weight_alloc_done st"
    by (simp_all add: u_def st'_def free_layer_arenas_def)
  have ix: "chunk_ix (kv u) = chunk_ix ?s" by (simp add: chunk_ix_def fun_eq_iff sel)
  have nl: "next_layer_to_offload ?s = num_layers ?s - 1" by (rule mem_invD(1) [OF i(5)])
  have lp: "layer_pools (kv u) i = layer_pools ?s i" if "chunk_ix ?s i j" "states ?s i j = Compressed" for i j
  proof -
    have "i \<noteq> L" using that none compressed_mem [OF that(1)] by auto
    then show ?thesis by (simp add: layer_pools_def sel split: option.splits)
  qed
  have sets: "unrestored (kv u) = unrestored ?s" "compressed_in (kv u) = compressed_in ?s"
    by (simp_all add: unrestored_def compressed_in_def fun_eq_iff sel)
  have ow: "owns u = owns st" by (intro ext) (simp only: owns_def ix, simp add: sel)
  have rw: "raw_ok (kv u) = raw_ok ?s" by (simp add: raw_ok_def fun_eq_iff sel)
  have "sw_inv cd V orig u"
    unfolding sw_inv_def
  proof (intro conjI allI impI)
    show "plan_ok (kv u)" using i(1) plan_ok_cong [of "kv u" ?s] by (simp add: sel)
    show "sync_inv u"
      using i(2) by (subst sync_inv_cong [of u st]) (simp_all add: sel left_count_def w_unread_def pend unrestored_def)
    show "w_inv orig u" by (rule w_inv_cong [OF i(4)]) (simp_all add: sel pend)
    show "pool_ok u" using i(6) unfolding u_def st'_def
      by (intro pool_ok_finish) (simp add: pool_ok_def free_layer_arenas_def)
    show "mem_inv cd u"
      using i(5) lp unfolding mem_inv_def ow rw ix by (auto simp: sel(1) comp_ok_def stored_ok_def)
    show "tasks_inv u"
      using i(3) unfolding tasks_inv_def ix sets pend by (auto simp: sel(1) sel(4) dest: in_diffD)
    fix p q assume "chunk_ix (kv u) p q"
    then have pq: "chunk_ix ?s p q" by (simp add: ix)
    then have "chunk_view cd (kv u) p q = chunk_view cd ?s p q"
      using lp [OF pq] by (simp add: chunk_view_def sel(1) split: KVstate.splits option.splits)
    with i(7) [OF pq] show "chunk_view cd (kv u) p q = V p q" by simp
  qed
  then show ?thesis by (simp add: u_def st'_def)
qed

lemma sw_inv_kv:
  assumes inv: "sw_inv cd V orig st"
    and u: "kv u = kv st" "kv_alloc_done u = kv_alloc_done st" "pool_ok u"
    and cnt: "\<And>x. (\<forall>i. x \<noteq> WRead i \<and> x \<noteq> WAlloc i) \<Longrightarrow> count (pending u) x = count (pending st) x"
    and "sync_inv u" "w_inv orig u"
  shows "sw_inv cd V orig u"
  unfolding sw_inv_def
proof (intro conjI allI impI)
  note i = sw_invD [OF inv]
  show "plan_ok (kv u)" "sync_inv u" "w_inv orig u" "pool_ok u" using i u assms(6,7) by simp_all
  show "tasks_inv u" using i(3) unfolding tasks_inv_def pending_in_count u by (simp add: cnt)
  have "owns u = owns st" by (simp add: owns_def fun_eq_iff u)
  then show "mem_inv cd u" using i(5) by (simp add: mem_inv_def u)
  show "chunk_ix (kv u) p q \<Longrightarrow> chunk_view cd (kv u) p q = V p q" for p q using i(7) by (simp add: u)
qed

lemma w_alloc_preserves:
  assumes inv: "sw_inv cd V orig st" and io: "w_io_ok we" and act: "active_in st ty (WAlloc L)"
  shows "sw_inv cd V orig (finish_in ty (WAlloc L) (weight_alloc_worker we L st))"
proof -
  note i = sw_invD [OF inv]
  define st' where "st' = weight_alloc_worker we L st"
  define u where "u = finish_in ty (WAlloc L) st'"
  have sel: "kv u = kv st" "wt u = (wt st)\<lparr>w_buf := (w_buf (wt st))(L \<mapsto> w_fresh we L)\<rparr>" "syncs u = syncs st"
    "kv_alloc_done u = kv_alloc_done st" "weight_alloc_done u = (weight_alloc_done st)(L \<mapsto> True)"
    using io by (simp_all add: u_def st'_def weight_alloc_worker_def w_io_ok_def)
  have act': "active_in st' ty (WAlloc L)" using act by (simp add: active_in_def st'_def weight_alloc_worker_def)
  have pend: "pending u = pending st - {#WAlloc L#}"
    using finish_pending [OF act'] by (simp add: u_def st'_def weight_alloc_worker_def)
  have "count (pending st) (WAlloc L) \<noteq> 0" using active_pending [OF act] unfolding pending_in_count .
  with i(4) have wf: "weight_alloc_done st L = Some False" unfolding w_inv_def by (metis (full_types))
  then have rd: "WRead L \<in># pending st" using i(4) unfolding w_inv_def by blast
  have mem: "WRead k \<in># pending u \<longleftrightarrow> WRead k \<in># pending st" for k by (simp add: pend in_diff_count not_in_iff) 
  have "sw_inv cd V orig u"
  proof (rule sw_inv_kv [OF inv])
    show "pool_ok u" using i(6) unfolding u_def st'_def
      by (intro pool_ok_finish) (simp add: pool_ok_def weight_alloc_worker_def)
    show "sync_inv u"
      using i(2) by (subst sync_inv_cong [of u st]) (simp_all add: sel left_count_def w_unread_def pend)
    show "w_inv orig u"
      using i(4) wf rd unfolding w_inv_def sel mem by (auto simp: pend)
    show "count (pending u) x = count (pending st) x" if "\<forall>i. x \<noteq> WRead i \<and> x \<noteq> WAlloc i" for x
      using that by (auto simp: pend)
  qed (simp_all add: sel)
  then show ?thesis by (simp add: u_def st'_def)
qed

lemma w_read_preserves:
  assumes inv: "sw_inv cd V orig st" and io: "w_io_ok we" and act: "active_in st ty (WRead L)"
    and ready: "task_ready st (WRead L)"
  shows "\<exists>st'. weight_read_worker we L st = Ok st' \<and> sw_inv cd V orig (finish_in ty (WRead L) st')"
proof -
  note i = sw_invD [OF inv]
  have rd: "WRead L \<in># pending st" by (rule active_pending [OF act])
  have L: "0 \<le> L" "L < num_layers (kv st)" "w_dump (wt st) L = Some (orig L)" "weight_alloc_done st L \<noteq> None"
    "weight_alloc_done st L = Some True \<longrightarrow> w_buf (wt st) L \<noteq> None" "count (pending st) (WRead L) \<le> 1"
    using i(4) rd unfolding w_inv_def by blast+
  then have d: "weight_alloc_done st L = Some True" using ready by (auto simp: task_ready_def)
  with L obtain b where b: "w_buf (wt st) L = Some b" by auto
  have one: "count (pending st) (WRead L) = 1" using L(6) rd by (simp add: le_antisym Suc_leI)
  have nl: "w_num_layers (wt st) = num_layers (kv st)" using i(2) by (simp add: sync_inv_def)
  obtain n where n: "left_count st L = Suc n" using one by (simp add: left_count_def w_unread_def)
  define w where "w = (wt st)\<lparr>w_buf := (w_buf (wt st))(L \<mapsto> orig L),
      w_fds := (w_fds (wt st))(L := Closed)\<rparr>"
  define st1 where "st1 = st\<lparr>wt := w\<rparr>"
  define st' where "st' = st1\<lparr>syncs := (syncs st)[nat L := \<lparr>remaining = int n, prom_set = (n = 0)\<rparr>]\<rparr>"
  have run: "weight_read_worker we L st = Ok st'"
    using layer_task_done_ok [OF i(2) refl L(1,2) n, of st1] io L b d nl
    by (simp add: weight_read_worker_def read_weight_layer_def wait_for_weight_allocation_def w_io_ok_def
        st'_def st1_def w_def Let_def)
  define u where "u = finish_in ty (WRead L) st'"
  have sel: "kv u = kv st" "wt u = w" "kv_alloc_done u = kv_alloc_done st"
    "weight_alloc_done u = weight_alloc_done st"
    "syncs u = (syncs st)[nat L := \<lparr>remaining = int n, prom_set = (n = 0)\<rparr>]"
    by (simp_all add: u_def st'_def st1_def)
  have act': "active_in st' ty (WRead L)" using act by (simp add: active_in_def st'_def st1_def)
  have pend: "pending u = pending st - {#WRead L#}"
    using finish_pending [OF act'] by (simp add: u_def st'_def st1_def)
  have mem: "WRead k \<in># pending u \<longleftrightarrow> WRead k \<in># pending st \<and> k \<noteq> L" for k
    using one by (auto simp: pend in_diff_count)
  have wsel: "w_buf w = (w_buf (wt st))(L \<mapsto> orig L)" "w_dump w = w_dump (wt st)"
    "w_num_layers w = w_num_layers (wt st)" by (simp_all add: w_def)
  have "sw_inv cd V orig u"
  proof (rule sw_inv_kv [OF inv])
    show "pool_ok u" using i(6) unfolding u_def
      by (intro pool_ok_finish) (simp add: pool_ok_def st'_def st1_def)
    show "sync_inv u"
      by (rule sync_inv_dec [OF i(2) _ _ L(1,2) sel(5)])
        (use one n in \<open>simp_all add: sel wsel left_count_def w_unread_def pend\<close>)
    show "w_inv orig u"
      using i(4) one d unfolding w_inv_def sel mem wsel by (auto simp: pend)
    show "count (pending u) x = count (pending st) x" if "\<forall>i. x \<noteq> WRead i \<and> x \<noteq> WAlloc i" for x
      using that by (auto simp: pend)
  qed (simp_all add: sel)
  with run show ?thesis by (auto simp: u_def)
qed

subsection \<open>Decompressing\<close>

text \<open>Decompressing after the last chunk of the layer also queues the release of its arenas.\<close>

lemma decomp_finish:
  fixes st st1 :: "'m core"
  assumes p: "pool_ok st" and act: "active_in st ty (KvDecomp L C)"
    and sel: "pool_of st1 = pool_of st"
  obtains st2 where
    "(if fin then enqueue FREE (FreeArenas L) st1 else Ok st1) = Ok st2"
    "\<exists>q. st2 = st1\<lparr>pool_of := q\<rparr>" "pool_ok (finish_in ty (KvDecomp L C) st2)"
    "\<And>x. count (pending (finish_in ty (KvDecomp L C) st2)) x = count (pending st) x
        - (if x = KvDecomp L C then 1 else 0) + (if fin \<and> x = FreeArenas L then 1 else 0)"
    "\<And>y. pending (finish_in ty (KvDecomp L C) (st2\<lparr>syncs := y\<rparr>)) = pending (finish_in ty (KvDecomp L C) st2)"
proof -
  have p1: "pool_ok st1" using p by (simp add: pool_ok_def sel)
  have act1: "active_in st1 ty (KvDecomp L C)" using act by (simp add: active_in_def sel)
  have same: "pending (finish_in ty t (st2\<lparr>syncs := y\<rparr>)) = pending (finish_in ty t st2)" for st2 :: "'m core" and t y
    by (simp add: finish_in_def)
  show thesis
  proof (cases fin)
    case False
    show thesis
    proof (rule that [of st1])
      show "pool_ok (finish_in ty (KvDecomp L C) st1)" by (rule pool_ok_finish [OF p1])
      show "\<exists>q. st1 = st1\<lparr>pool_of := q\<rparr>" by (rule exI [of _ "pool_of st1"]) simp
      show "count (pending (finish_in ty (KvDecomp L C) st1)) x = count (pending st) x
        - (if x = KvDecomp L C then 1 else 0) + (if fin \<and> x = FreeArenas L then 1 else 0)" for x
        using False by (simp add: finish_pending [OF act1] sel)
    qed (use False same in simp_all)
  next
    case True
    obtain q where q: "pool_enqueue FREE (FreeArenas L) (pool_of st1) = Ok q"
      "pool_pending q = pending st1 + {#FreeArenas L#}"
      "\<And>st' :: 'm core. pool_of st' = q \<Longrightarrow> pool_ok st'"
      "\<And>(st' :: 'm core) ty' t'. pool_of st' = q \<Longrightarrow> active_in st' ty' t' = active_in st1 ty' t'"
      by (rule pool_enqueue_ok [OF p1, of FREE "FreeArenas L"]) auto
    define st2 where "st2 = st1\<lparr>pool_of := q\<rparr>"
    have act2: "active_in st2 ty (KvDecomp L C)" using q(4) [of st2] act1 by (simp add: st2_def)
    have pend2: "pending (finish_in ty (KvDecomp L C) st2) = pending st + {#FreeArenas L#} - {#KvDecomp L C#}"
      using finish_pending [OF act2] q(2) by (simp add: st2_def sel)
    show thesis
    proof (rule that [of st2])
      show "pool_ok (finish_in ty (KvDecomp L C) st2)" by (intro pool_ok_finish q(3)) (simp add: st2_def)
      show "count (pending (finish_in ty (KvDecomp L C) st2)) x = count (pending st) x
        - (if x = KvDecomp L C then 1 else 0) + (if fin \<and> x = FreeArenas L then 1 else 0)" for x
        using True by (simp add: pend2)
    qed (use True same q(1) in \<open>auto simp: st2_def enqueue_def\<close>)
  qed
qed

lemma take_preserves:
  assumes inv: "sw_inv cd V orig st" and t: "take_task ty (pool_of st) = Some (t, p)"
  shows "sw_inv cd V orig (st\<lparr>pool_of := p\<rparr>)"
proof (rule sw_inv_kv [OF inv])
  note i = sw_invD [OF inv]
  have pend: "pool_pending p = pending st" by (rule pool_pending_take [OF t])
  obtain g g' where g: "groups (pool_of st) ty = Some g" "group_take g = Some (t, g')"
    "p = (pool_of st)\<lparr>groups := (groups (pool_of st))(ty \<mapsto> g')\<rparr>"
    using t by (auto simp: take_task_def split: option.splits prod.splits)
  have "workers g' = workers g" using g(2) by (auto simp: group_take_def split: list.splits if_splits)
  with i(6) g show "pool_ok (st\<lparr>pool_of := p\<rparr>)" by (auto simp: pool_ok_def)
  show "sync_inv (st\<lparr>pool_of := p\<rparr>)"
    using i(2) by (subst sync_inv_cong [of _ st]) (simp_all add: left_count_def w_unread_def pend)
  show "w_inv orig (st\<lparr>pool_of := p\<rparr>)" by (rule w_inv_cong [OF i(4)]) (simp_all add: pend)
qed (simp_all add: pool_pending_take [OF t])

lemma layer_task_done_kv: "layer_task_done nl L st = Ok st' \<Longrightarrow> kv st' = kv st"
  by (auto simp: layer_task_done_def bind_result_Ok_iff split: if_splits)

lemma enqueue_kv_same: "enqueue ty t st = Ok st' \<Longrightarrow> kv st' = kv st"
  by (auto simp: enqueue_def bind_result_Ok_iff)

lemma run_task_hidden_dim:
  assumes "run_task env we cd t st = Ok st'"
  shows "kv_hidden_dim (kv st') = kv_hidden_dim (kv st)"
proof -
  have ab: "abort_on_throw r = Ok x \<longleftrightarrow> r = Ok x" for r and x :: "'a core"
    by (auto simp: abort_on_throw_def split: sum.splits error.splits)
  show ?thesis
  proof (cases t)
    case (KvDecomp L C)
    with assms show ?thesis
      by (auto simp: run_task_def ab kv_decomp_worker_def Let_def bind_result_Ok_iff
          dest!: layer_task_done_kv enqueue_kv_same split: if_splits option.splits)
  next
    case (KvRead L C)
    with assms show ?thesis
      by (auto simp: run_task_def ab kv_read_worker_def Let_def bind_result_Ok_iff
          dest!: layer_task_done_kv split: if_splits option.splits)
  next
    case (KvAlloc L C)
    with assms show ?thesis by (auto simp: run_task_def ab kv_alloc_worker_def Let_def split: if_splits)
  next
    case (FreeArenas L)
    with assms show ?thesis by (auto simp: run_task_def ab free_layer_arenas_def)
  next
    case (WAlloc L)
    with assms show ?thesis by (auto simp: run_task_def ab weight_alloc_worker_def)
  next
    case (WRead L)
    with assms show ?thesis
      by (auto simp: run_task_def ab weight_read_worker_def Let_def bind_result_Ok_iff
          dest!: layer_task_done_kv split: if_splits)
  qed
qed

context kv_codec
begin

lemma decoded_length:
  assumes "fits b h" "encoded_at (cdc b h) (raw_chunk_bytes h) key i ps cc"
  shows "length (decoded (cdc b h) key i j ps cc) = raw_chunk_bytes h"
proof -
  obtain raw pre post where e: "length raw = raw_chunk_bytes h"
    "ps ! stack_id cc = pre @ fst (enc (cdc b h) key i raw) @ post" "offset cc = length pre"
    "meta cc = snd (enc (cdc b h) key i raw)"
    using assms(2) unfolding encoded_at_def by blast
  with dec_prefix [OF assms(1) e(1)] dec_length [OF assms(1) e(1)] show ?thesis by (simp add: decoded_def)
qed

lemma decomp_preserves:
  assumes inv: "sw_inv (cdc b h) V orig st" and fits: "fits b h" and h: "kv_hidden_dim (kv st) = h"
    and act: "active_in st ty (KvDecomp L C)" and ready: "task_ready st (KvDecomp L C)"
  shows "\<exists>st'. kv_decomp_worker (cdc b h) L C st = Ok st' \<and>
    sw_inv (cdc b h) V orig (finish_in ty (KvDecomp L C) st')"
proof -
  note i = sw_invD [OF inv]
  let ?s = "kv st" and ?cd = "cdc b h"
  have c1: "count (pending st) (KvDecomp L C) \<noteq> 0" using active_pending [OF act] unfolding pending_in_count .
  then have st: "chunk_ix ?s L C" "states ?s L C = Compressed"
    using tasks_invD(1) [OF i(3), of L C] by (auto split: if_splits)
  then have nr: "states ?s L C \<noteq> Raw" by simp
  have rdy: "kv_alloc_done st (L, C) \<noteq> Some False" using ready by (simp add: task_ready_def)
  obtain a m where m: "kv_alloc_done st (L, C) = Some True" "svm_chunk_ptrs ?s L C = Some a"
    "svm_mem ?s a = Some m" "length (k_mem m) = rbytes ?s" "length (v_mem m) = rbytes ?s" "idx_ok L C"
    by (rule chunk_task_mem [OF inv st(1) nr rdy])
  have L: "0 \<le> L" "L < num_layers ?s" using st(1) by (auto simp: chunk_ix_def)
  have co: "comp_ok ?cd ?s L C" by (rule mem_invD(4) [OF i(5) st])
  have lp: "layer_pools ?s L = map pool (arenas ?s L)"
    using mem_invD(1) [OF i(5)] L by (simp add: layer_pools_resident)
  have sid: "stack_id (k_comp ?s L C) < length (arenas ?s L)" "stack_id (v_comp ?s L C) = stack_id (k_comp ?s L C)"
    using co by (auto simp: comp_ok_def encoded_at_def lp)
  define m' where "m' = m\<lparr>k_mem := decoded ?cd True L C (layer_pools ?s L) (k_comp ?s L C),
    v_mem := decoded ?cd False L C (layer_pools ?s L) (v_comp ?s L C)\<rparr>"
  have content: "V L C = Some (k_mem m', v_mem m')"
    using i(7) [OF st(1)] st(2) by (simp add: chunk_view_def m'_def)
  have r: "restores st L C a m'"
    using st(1) nr m co decoded_length [OF fits, of _ L "layer_pools ?s L"]
    by (simp add: restores_def m'_def comp_ok_def h)
  obtain n where n: "left_count st L = Suc n" by (rule left_pos [OF st(1) nr])
  define cl where "cl = (comp_left ?s)(L := comp_left ?s L - 1)"
  define st1 where "st1 = st\<lparr>kv := restored_state L C a m' cl ?s\<rparr>"
  obtain st2 where st2: "(if comp_left ?s L = 1 then enqueue FREE (FreeArenas L) st1 else Ok st1) = Ok st2"
    "\<exists>q. st2 = st1\<lparr>pool_of := q\<rparr>" "pool_ok (finish_in ty (KvDecomp L C) st2)"
    "\<And>x. count (pending (finish_in ty (KvDecomp L C) st2)) x = count (pending st) x
        - (if x = KvDecomp L C then 1 else 0) + (if comp_left ?s L = 1 \<and> x = FreeArenas L then 1 else 0)"
    "\<And>y. pending (finish_in ty (KvDecomp L C) (st2\<lparr>syncs := y\<rparr>)) = pending (finish_in ty (KvDecomp L C) st2)"
    by (rule decomp_finish [where fin = "comp_left ?s L = 1" and ?st1.0 = st1, OF i(6) act])
      (simp_all add: st1_def)
  then obtain q where q: "st2 = st1\<lparr>pool_of := q\<rparr>" by blast
  define y where "y = (syncs st)[nat L := \<lparr>remaining = int n, prom_set = (n = 0)\<rparr>]"
  define st' where "st' = st2\<lparr>syncs := y\<rparr>"
  have e1: "st\<lparr>kv := ?s\<lparr>svm_mem := (svm_mem ?s)(a \<mapsto> m'), states := upd2 (states ?s) L C Raw,
      comp_left := (comp_left ?s)(L := comp_left ?s L - 1)\<rparr>\<rparr> = st1"
    by (simp add: st1_def restored_state_def cl_def)
  have em: "m\<lparr>k_mem := dec ?cd True L C (drop (offset (k_comp ?s L C)) (pool (arenas ?s L ! stack_id (k_comp ?s L C)))) (meta (k_comp ?s L C)),
     v_mem := dec ?cd False L C (drop (offset (v_comp ?s L C)) (pool (arenas ?s L ! stack_id (k_comp ?s L C)))) (meta (v_comp ?s L C))\<rparr> = m'"
    using sid by (simp add: m'_def decoded_def lp)
  have td: "layer_task_done (num_layers ?s) L st2 = Ok st'"
    using layer_task_done_ok [OF i(2) refl L n, of st2] by (simp add: st'_def y_def) (simp add: q st1_def)
  have "kv_decomp_worker ?cd L C st = bind_result
      (if comp_left ?s L = 1 then enqueue FREE (FreeArenas L) st1 else Ok st1)
      (layer_task_done (num_layers ?s) L)"
    using m sid(1) by (simp add: kv_decomp_worker_def Let_def wait_for_kv_allocation_def split del: if_split)
      (simp only: em e1)
  then have run: "kv_decomp_worker ?cd L C st = Ok st'" using st2(1) td by simp
  have ci: "compressed_in (kv st') k =
      (if k = L then compressed_in ?s k - {C} else compressed_in ?s k)" for k
    by (rule unrestored_raw) (simp_all add: st'_def q st1_def)
  have mem: "C \<in> compressed_in ?s L" using st by (simp add: compressed_mem)
  have card: "card (compressed_in ?s L) = Suc (card (compressed_in ?s L - {C}))"
    using card_Suc_Diff1 [OF finite_unrestored(2) [of ?s L] mem] by simp
  have left: "comp_left ?s k = int (card (compressed_in ?s k))" if "0 \<le> k" "k < num_layers ?s" for k
    using that tasks_invD(8) [OF i(3)] by simp
  have "sw_inv ?cd V orig (finish_in ty (KvDecomp L C) st')"
  proof (rule sw_inv_restore [where cl = cl, OF inv r n content])
    show "pool_ok (finish_in ty (KvDecomp L C) st')"
      using st2(3) by (simp add: pool_ok_def finish_in_def st'_def)
    show "count (pending (finish_in ty (KvDecomp L C) st')) x =
        (if x = chunk_task ?s L C then 0 else count (pending st) x)" if "\<forall>i. x \<noteq> FreeArenas i" for x
      using that tasks_invD(1) [OF i(3), of L C] st unfolding st'_def st2(5) st2(4)
      by (simp add: chunk_task_def)
    show "compressed_in (kv (finish_in ty (KvDecomp L C) st')) k = {}"
      if f: "FreeArenas k \<in># pending (finish_in ty (KvDecomp L C) st')" for k
    proof (cases "comp_left ?s L = 1 \<and> k = L")
      case True
      then have "card (compressed_in ?s L - {C}) = 0" using left [OF L] card by simp
      with True show ?thesis by (simp add: ci)
    next
      case False
      from f have "count (pending (finish_in ty (KvDecomp L C) st')) (FreeArenas k) \<noteq> 0"
        unfolding pending_in_count .
      with False have "count (pending st) (FreeArenas k) \<noteq> 0" unfolding st'_def st2(5) st2(4) by auto
      then have "FreeArenas k \<in># pending st" unfolding pending_in_count .
      from tasks_invD(7) [OF i(3) this] show ?thesis by (auto simp: ci)
    qed
    show "cl k = int (card (compressed_in (kv (finish_in ty (KvDecomp L C) st')) k))"
      if "0 \<le> k" "k < num_layers ?s" for k
      using left [OF that] card by (auto simp: cl_def ci)
  qed (simp_all add: st'_def q st1_def y_def)
  with run show ?thesis by blast
qed

subsection \<open>Every step\<close>

lemma run_preserves:
  assumes inv: "sw_inv (cdc b h) V orig st" "fits b h" "kv_hidden_dim (kv st) = h"
    and io: "io_reads env" "w_io_ok we"
    and act: "active_in st ty t" "task_ready st t"
  shows "\<exists>st'. run_task env we (cdc b h) t st = Ok st' \<and> sw_inv (cdc b h) V orig (finish_in ty t st')"
proof -
  have ab: "abort_on_throw (Ok x) = Ok x" for x :: "'a core" by (simp add: abort_on_throw_def)
  show ?thesis
  proof (cases t)
    case (KvAlloc L C)
    with alloc_preserves [OF inv(1) io(1), of ty L C] act show ?thesis by (auto simp: run_task_def ab)
  next
    case (KvRead L C)
    with read_preserves [OF inv(1) io(1), of ty L C] act show ?thesis by (auto simp: run_task_def ab)
  next
    case (KvDecomp L C)
    with decomp_preserves [OF inv, of ty L C] act show ?thesis by (auto simp: run_task_def ab)
  next
    case (FreeArenas L)
    with free_preserves [OF inv(1)] act show ?thesis by (auto simp: run_task_def ab)
  next
    case (WAlloc L)
    with w_alloc_preserves [OF inv(1) io(2)] act show ?thesis by (auto simp: run_task_def ab)
  next
    case (WRead L)
    with w_read_preserves [OF inv(1) io(2), of ty L] act show ?thesis by (auto simp: run_task_def ab)
  qed
qed

lemma sw_step_safe:
  assumes inv: "sw_inv (cdc b h) V orig st" "fits b h" "kv_hidden_dim (kv st) = h"
    and io: "io_reads env" "w_io_ok we" and step: "sw_step env we (cdc b h) st r"
  shows "\<exists>st'. r = Ok st' \<and> sw_inv (cdc b h) V orig st' \<and> kv_hidden_dim (kv st') = h"
  using step
proof (cases rule: sw_step.cases)
  case (sw_take ty t p)
  with take_preserves [OF inv(1)] inv(3) show ?thesis by auto
next
  case (sw_run ty t st')
  with run_preserves [OF inv io, of ty t] run_task_hidden_dim inv(3) show ?thesis by auto
next
  case (sw_fail ty t e)
  with run_preserves [OF inv io, of ty t] show ?thesis by auto
qed

lemma sw_reach_safe:
  assumes "sw_reach env we (cdc b h) st st'"
    and "sw_inv (cdc b h) V orig st" "fits b h" "kv_hidden_dim (kv st) = h" "io_reads env" "w_io_ok we"
  shows "sw_inv (cdc b h) V orig st' \<and> kv_hidden_dim (kv st') = h"
  using assms(1)
proof induction
  case (sw_more st' st'')
  with sw_step_safe [OF _ assms(3) _ assms(5,6)] show ?case by auto
qed (use assms in simp)

end

end
