(* ===== verification/Swapin_Live.thy ===== *)
theory Swapin_Live
  imports Swapin_Safe
begin

text \<open>
  Liveness of the concurrent phase. Allocation tasks never wait, and every wait is for an allocation
  that is still pending, so some worker can always move; each step lowers a potential, so the phase
  ends, and it ends with everything restored.
\<close>

subsection \<open>Routing\<close>

definition task_type :: "task \<Rightarrow> CoreType" where
  "task_type t = (case t of KvAlloc _ _ \<Rightarrow> ALLOC | WAlloc _ \<Rightarrow> ALLOC | KvRead _ _ \<Rightarrow> READ | WRead _ \<Rightarrow> READ
     | KvDecomp _ _ \<Rightarrow> DECOMP | FreeArenas _ \<Rightarrow> FREE)"

definition group_routed :: "CoreType \<Rightarrow> task group option \<Rightarrow> bool" where
  "group_routed ty go \<longleftrightarrow> (case go of None \<Rightarrow> True
     | Some g \<Rightarrow> (\<forall>t\<in>set (queued g) \<union> set (active g). task_type t = ty))"

definition routed :: "task pool \<Rightarrow> bool" where
  "routed p \<longleftrightarrow> (\<forall>ty. group_routed ty (groups p ty))"

lemma routed_upd:
  assumes "routed p" "group_routed ty go"
  shows "routed (p\<lparr>groups := (groups p)(ty := go)\<rparr>)"
  using assms by (simp add: routed_def)

lemma routed_group:
  assumes "routed p" "groups p ty = Some g"
  shows "group_routed ty (Some g)"
  using assms unfolding routed_def by metis

lemma routed_enqueue:
  assumes "routed p" "pool_enqueue (task_type t) t p = Ok p'"
  shows "routed p'"
proof -
  obtain g where g: "groups p (task_type t) = Some g"
    "p' = p\<lparr>groups := (groups p)(task_type t \<mapsto> group_enqueue t g)\<rparr>"
    using assms(2) by (auto simp: pool_enqueue_def split: option.splits if_splits)
  from routed_group [OF assms(1) g(1)] show ?thesis
    unfolding g(2) by (intro routed_upd [OF assms(1)]) (auto simp: group_routed_def group_enqueue_def)
qed

lemma routed_take:
  assumes "routed p" "take_task ty p = Some (t, p')"
  shows "routed p'"
proof -
  obtain g g' where g: "groups p ty = Some g" "group_take g = Some (t, g')"
    "p' = p\<lparr>groups := (groups p)(ty \<mapsto> g')\<rparr>"
    using assms(2) by (auto simp: take_task_def split: option.splits prod.splits)
  from routed_group [OF assms(1) g(1)] g(2) show ?thesis
    unfolding g(3) by (intro routed_upd [OF assms(1)])
      (auto simp: group_routed_def group_take_def split: list.splits if_splits)
qed

lemma routed_finish:
  assumes "routed p"
  shows "routed (finish_task ty t p)"
  unfolding finish_task_def
proof (rule routed_upd [OF assms])
  have "group_routed ty (groups p ty)" using assms by (simp add: routed_def)
  then show "group_routed ty (map_option (group_finish t) (groups p ty))"
    by (cases "groups p ty") (auto simp: group_routed_def group_finish_def dest: notin_set_remove1)
qed

lemma pending_cases:
  assumes "t \<in># pool_pending p" "routed p"
  obtains g where "groups p (task_type t) = Some g" "t \<in> set (queued g) \<or> t \<in> set (active g)"
proof -
  have "\<exists>ty. t \<in># pending_of (groups p ty)" using assms(1) by (auto simp: pool_pending_def)
  then obtain ty g where g: "groups p ty = Some g" "t \<in># group_pending g"
    by (auto simp: pending_of_def split: option.splits)
  then have "t \<in> set (queued g) \<or> t \<in> set (active g)" by (simp add: group_pending_def)
  with routed_group [OF assms(2) g(1)] g(1) that show thesis by (auto simp: group_routed_def)
qed

text \<open>What a task does to the pool: only a decompression may queue something.\<close>

lemma layer_task_done_pool: "layer_task_done nl L st = Ok st' \<Longrightarrow> pool_of st' = pool_of st"
  by (auto simp: layer_task_done_def bind_result_Ok_iff split: if_splits)

lemma abort_on_throw_Ok: "abort_on_throw r = Ok x \<longleftrightarrow> r = Ok x"
  by (auto simp: abort_on_throw_def split: sum.splits error.splits)

lemma enqueue_Ok: "enqueue ty t st = Ok st' \<longleftrightarrow>
    (\<exists>p. pool_enqueue ty t (pool_of st) = Ok p \<and> st' = st\<lparr>pool_of := p\<rparr>)"
  by (auto simp: enqueue_def bind_result_Ok_iff)

lemma run_task_pool:
  assumes "run_task env we cd t st = Ok st'"
  shows "pool_of st' = pool_of st \<or>
    (\<exists>L C. t = KvDecomp L C \<and> pool_enqueue FREE (FreeArenas L) (pool_of st) = Ok (pool_of st'))"
proof (cases t)
  case (KvDecomp L C)
  with assms show ?thesis
    by (auto simp: run_task_def abort_on_throw_Ok kv_decomp_worker_def Let_def bind_result_Ok_iff enqueue_Ok
        dest!: layer_task_done_pool split: if_splits option.splits)
next
  case (KvRead L C)
  with assms show ?thesis
    by (auto simp: run_task_def abort_on_throw_Ok kv_read_worker_def Let_def bind_result_Ok_iff
        dest!: layer_task_done_pool split: if_splits option.splits)
next
  case (WRead L)
  with assms show ?thesis
    by (auto simp: run_task_def abort_on_throw_Ok weight_read_worker_def Let_def bind_result_Ok_iff
        dest!: layer_task_done_pool split: if_splits)
qed (use assms in \<open>auto simp: run_task_def abort_on_throw_Ok kv_alloc_worker_def free_layer_arenas_def
      weight_alloc_worker_def Let_def split: if_splits\<close>)

lemma routed_step:
  assumes "sw_step env we cd st (Ok st')" "routed (pool_of st)"
  shows "routed (pool_of st')"
  using assms(1)
proof (cases rule: sw_step.cases)
  case (sw_take ty t p)
  with routed_take [OF assms(2)] show ?thesis by simp
next
  case (sw_run ty t st1)
  have "routed (pool_of st1)"
    using run_task_pool [OF sw_run(4)] assms(2) routed_enqueue [of "pool_of st" "FreeArenas L" for L]
    by (auto simp: task_type_def)
  with sw_run(1) routed_finish show ?thesis by (simp add: finish_in_def)
qed

subsection \<open>Progress\<close>

context kv_codec
begin

lemma ready_or_waiting:
  assumes "sw_inv cd V orig st" "t \<in># pending st" "\<not> task_ready st t"
  obtains t' where "t' \<in># pending st" "task_type t' = ALLOC"
proof -
  note i = sw_invD [OF assms(1)]
  from assms(3) consider L C where "kv_alloc_done st (L, C) = Some False"
    | L where "weight_alloc_done st L = Some False"
    by (cases t) (auto simp: task_ready_def)
  then show thesis
  proof cases
    case 1
    then have "count (pending st) (KvAlloc L C) \<noteq> 0" using tasks_invD(3) [OF i(3), of L C] by simp
    then show thesis using that [of "KvAlloc L C"] unfolding pending_in_count by (simp add: task_type_def)
  next
    case 2
    then have "count (pending st) (WAlloc L) \<noteq> 0" using i(4) unfolding w_inv_def by simp
    then show thesis using that [of "WAlloc L"] unfolding pending_in_count by (simp add: task_type_def)
  qed
qed

lemma alloc_ready: "task_type t = ALLOC \<Longrightarrow> task_ready st t"
  by (cases t) (auto simp: task_type_def task_ready_def)

lemma group_moves:
  assumes "pool_ok st" "routed (pool_of st)" "t \<in># pending st"
    and none: "\<And>ty t p. take_task ty (pool_of st) \<noteq> Some (t, p)"
  obtains t' where "active_in st (task_type t) t'" "task_type t' = task_type t"
proof -
  obtain g where g: "groups (pool_of st) (task_type t) = Some g" "t \<in> set (queued g) \<or> t \<in> set (active g)"
    by (rule pending_cases [OF assms(3,2)])
  have "task_type t \<in> {ALLOC, READ, DECOMP, FREE}" by (cases t) (simp_all add: task_type_def)
  with assms(1) g(1) have w: "0 < workers g" unfolding pool_ok_def by fastforce
  have "active g \<noteq> []"
  proof
    assume "active g = []"
    with g w have "\<exists>x q. take_task (task_type t) (pool_of st) = Some (x, q)"
      by (cases "queued g") (auto simp: take_task_def group_take_def)
    with none show False by blast
  qed
  then obtain t' where "t' \<in> set (active g)" by (cases "active g") auto
  with routed_group [OF assms(2) g(1)] g(1) that show thesis by (auto simp: active_in_def group_routed_def)
qed

lemma sw_progress:
  assumes inv: "sw_inv (cdc b h) V orig st" "fits b h" "kv_hidden_dim (kv st) = h"
    and io: "io_reads env" "w_io_ok we" and r: "routed (pool_of st)" and pend: "pending st \<noteq> {#}"
  shows "\<exists>st'. sw_step env we (cdc b h) st (Ok st')"
proof (cases "\<exists>ty t p. take_task ty (pool_of st) = Some (t, p)")
  case True
  then show ?thesis by (blast intro: sw_take)
next
  case False
  note i = sw_invD [OF inv(1)]
  obtain t where t: "t \<in># pending st" using pend by (meson multiset_nonemptyE)
  obtain t1 where t1: "active_in st (task_type t) t1"
    using group_moves [OF i(6) r t] False by metis
  have "\<exists>ty t. active_in st ty t \<and> task_ready st t"
  proof (cases "task_ready st t1")
    case True
    with t1 show ?thesis by blast
  next
    case False': False
    obtain t2 where t2: "t2 \<in># pending st" "task_type t2 = ALLOC"
      by (rule ready_or_waiting [OF inv(1) active_pending [OF t1] False'])
    obtain t3 where "active_in st (task_type t2) t3" "task_type t3 = task_type t2"
      using group_moves [OF i(6) r t2(1)] False by metis
    with t2 alloc_ready show ?thesis by metis
  qed
  then obtain ty t where a: "active_in st ty t" "task_ready st t" by blast
  from run_preserves [OF inv io a] show ?thesis using sw_run [OF a] by blast
qed

end

subsection \<open>Termination\<close>

definition cost :: "task \<Rightarrow> nat" where
  "cost t = (case t of KvDecomp _ _ \<Rightarrow> 3 | _ \<Rightarrow> 1)"

definition group_potential :: "task group option \<Rightarrow> nat" where
  "group_potential go = (case go of None \<Rightarrow> 0
     | Some g \<Rightarrow> sum_list (map (\<lambda>t. cost t + 1) (queued g)) + sum_list (map cost (active g)))"

definition potential :: "task pool \<Rightarrow> nat" where
  "potential p = group_potential (groups p ALLOC) + group_potential (groups p READ)
     + group_potential (groups p DECOMP) + group_potential (groups p DECOMP_KERNEL) + group_potential (groups p FREE)"

lemma potential_upd:
  "potential (p\<lparr>groups := (groups p)(ty := go)\<rparr>) + group_potential (groups p ty) = potential p + group_potential go"
  by (cases ty) (simp_all add: potential_def)

lemma potential_enqueue:
  assumes "pool_enqueue ty t p = Ok p'"
  shows "potential p' = potential p + cost t + 1"
proof -
  obtain g where g: "groups p ty = Some g" "p' = p\<lparr>groups := (groups p)(ty \<mapsto> group_enqueue t g)\<rparr>"
    using assms by (auto simp: pool_enqueue_def split: option.splits if_splits)
  with potential_upd [of p ty "Some (group_enqueue t g)"] show ?thesis
    by (simp add: group_potential_def group_enqueue_def)
qed

lemma potential_take:
  assumes "take_task ty p = Some (t, p')"
  shows "potential p' < potential p"
proof -
  obtain g g' where g: "groups p ty = Some g" "group_take g = Some (t, g')"
    "p' = p\<lparr>groups := (groups p)(ty \<mapsto> g')\<rparr>"
    using assms by (auto simp: take_task_def split: option.splits prod.splits)
  have "group_potential (Some g) = Suc (group_potential (Some g'))"
    using g(2) by (auto simp: group_potential_def group_take_def split: list.splits if_splits)
  with g potential_upd [of p ty "Some g'"] show ?thesis by simp
qed

lemma potential_finish:
  assumes "groups p ty = Some g" "t \<in> set (active g)"
  shows "potential (finish_task ty t p) + cost t = potential p"
proof -
  have "sum_list (map cost (active g)) = cost t + sum_list (map cost (remove1 t (active g)))"
    by (rule sum_list_map_remove1 [OF assms(2)])
  with potential_upd [of p ty "Some (group_finish t g)"] assms(1) show ?thesis
    by (simp add: finish_task_def group_potential_def group_finish_def)
qed

lemma sw_step_potential:
  assumes "sw_step env we cd st (Ok st')"
  shows "potential (pool_of st') < potential (pool_of st)"
  using assms
proof (cases rule: sw_step.cases)
  case (sw_take ty t p)
  with potential_take show ?thesis by simp
next
  case (sw_run ty t st1)
  obtain g where g: "groups (pool_of st) ty = Some g" "t \<in> set (active g)" by (rule active_inD [OF sw_run(2)])
  have fin: "potential (finish_task ty t (pool_of st)) + cost t = potential (pool_of st)"
    by (rule potential_finish [OF g])
  show ?thesis
  proof (cases "pool_of st1 = pool_of st")
    case True
    then show ?thesis using fin sw_run(1) by (simp add: finish_in_def cost_def split: task.splits)
  next
    case False
    then obtain L C where t: "t = KvDecomp L C" "pool_enqueue FREE (FreeArenas L) (pool_of st) = Ok (pool_of st1)"
      using run_task_pool [OF sw_run(4)] by auto
    obtain x where x: "groups (pool_of st) FREE = Some x"
      "pool_of st1 = (pool_of st)\<lparr>groups := (groups (pool_of st))(FREE \<mapsto> group_enqueue (FreeArenas L) x)\<rparr>"
      using t(2) by (auto simp: pool_enqueue_def split: option.splits if_splits)
    obtain g' where g': "groups (pool_of st1) ty = Some g'" "t \<in> set (active g')"
      using x g that by (cases "ty = FREE") (auto simp: group_enqueue_def)
    from potential_finish [OF g'] potential_enqueue [OF t(2)] show ?thesis
      using sw_run(1) by (simp add: finish_in_def cost_def t(1))
  qed
qed

text \<open>No run of the machine goes on forever.\<close>

lemma sw_terminates: "wfP (\<lambda>st' st. sw_step env we cd st (Ok st'))"
  by (rule wfp_if_convertible_to_nat [of _ "\<lambda>st. potential (pool_of st)"]) (rule sw_step_potential)

end
