(* ===== verification/Kv_Arena_Correct.thy ===== *)
theory Kv_Arena_Correct
  imports Kv_Swapin
begin

text \<open>
  Offloading a layer's arenas to its swap file and reloading them: the compressed bytes survive, so the
  content of every chunk does.
\<close>

lemma padded_pool_length: "length (padded_pool p) = round_up_4k (length p)"
  using round_up_4k_bounds(1) [of "length p"] by (simp add: padded_pool_def)

lemma round_up_4k_0 [simp]: "round_up_4k 0 = 0"
  by (simp add: round_up_4k_def)

lemma unpack_padded: "unpack_pools (concat (map padded_pool pls)) (map length pls) = pls"
proof (induction pls)
  case (Cons p pls)
  have "take (length p) (padded_pool p @ xs) = p" for xs by (simp add: padded_pool_def)
  with Cons show ?case by (simp flip: padded_pool_length)
qed simp

lemma arenas_okD:
  assumes "arenas_ok s"
  shows "- 1 \<le> next_layer_to_offload s" "next_layer_to_offload s < num_layers s"
    "next_layer_to_offload s < num_layers s - 1 \<Longrightarrow> comp_rest s = []"
    "0 \<le> i \<Longrightarrow> i < num_layers s \<Longrightarrow>
        (if i > next_layer_to_offload s
         then arenas s i = [] \<and>
           (\<exists>pls. swap_file s i = Some (concat (map padded_pool pls)) \<and>
              offload_used_bytes s i = map length pls \<and> (\<forall>p\<in>set pls. length p \<le> arena_bytes s))
         else (\<forall>a\<in>set (arenas s i). cap a = arena_bytes s \<and> arena_top a \<le> arena_bytes s))"
  using assms unfolding arenas_ok_def by blast+

subsection \<open>Offload\<close>

lemma offload_loop_ok:
  assumes "\<And>off n. swap_pwrite_ok env layer off n"
  shows "offload_loop env layer as out used =
    (out @ concat (map (padded_pool \<circ> pool) as), used @ map (length \<circ> pool) as, True)"
proof (induction as arbitrary: out used)
  case (Cons a as)
  have "pool a = [] \<Longrightarrow> padded_pool (pool a) = []" by (simp add: padded_pool_def)
  with Cons assms show ?case by (simp add: arena_top_def)
qed simp

definition io_offload :: "io_env \<Rightarrow> bool" where
  "io_offload env \<longleftrightarrow> (\<forall>L. swap_w env L) \<and> (\<forall>L off n. swap_pwrite_ok env L off n)"

lemma offload_eq:
  assumes "io_offload env" "0 \<le> next_layer_to_offload s"
  shows "mzcache_offload_arenas env s =
    (let layer = next_layer_to_offload s; ps = map pool (arenas s layer); out = concat (map padded_pool ps) in
     (s\<lparr>swap_file := (swap_file s)(layer := Some out),
        offload_used_bytes := (offload_used_bytes s)(layer := map length ps),
        arenas := (arenas s)(layer := []), next_layer_to_offload := layer - 1,
        n_cur_arena_offload_bytes := n_cur_arena_offload_bytes s + int (length out)\<rparr>, int (length out)))"
  using assms offload_loop_ok [of env "next_layer_to_offload s" "arenas s (next_layer_to_offload s)" "[]" "[]"]
  by (simp add: mzcache_offload_arenas_def io_offload_def Let_def comp_def)

text \<open>Once every chunk of the compress region is compressed, offloading keeps invariant and content.\<close>

lemma offload_inv:
  assumes inv: "kv_inv cd s" and io: "io_offload env" and n: "0 \<le> next_layer_to_offload s"
    and all: "comp_rest s = []" and s': "s' = fst (mzcache_offload_arenas env s)"
  shows "kv_inv cd s'" "same_data s s'" "plan_frame s s'" "comp_taken s' = comp_taken s"
    "store_taken s' = store_taken s" "comp_rest s' = comp_rest s" "store_rest s' = store_rest s"
    "next_layer_to_offload s' = next_layer_to_offload s - 1"
    "n_cur_comp_saved_bytes s' = n_cur_comp_saved_bytes s" "layer_fds s' = layer_fds s"
proof -
  let ?l = "next_layer_to_offload s" and ?ps = "map pool (arenas s (next_layer_to_offload s))"
  have i: "cursors_ok s" "arenas_ok s" "fds_ok s" using inv by (auto simp: kv_inv_def)
  have e: "s' = s\<lparr>swap_file := (swap_file s)(?l := Some (concat (map padded_pool ?ps))),
      offload_used_bytes := (offload_used_bytes s)(?l := map length ?ps),
      arenas := (arenas s)(?l := []), next_layer_to_offload := ?l - 1,
      n_cur_arena_offload_bytes := n_cur_arena_offload_bytes s + int (length (concat (map padded_pool ?ps)))\<rparr>"
    by (simp add: s' offload_eq [OF io n] Let_def)
  have pools: "layer_pools s' i = layer_pools s i" for i
  proof (cases "i = ?l")
    case True
    then show ?thesis using unpack_padded [of ?ps] by (simp add: layer_pools_def e del: map_map)
  next
    case False
    then have "?l - 1 < i \<longleftrightarrow> ?l < i" by auto
    with False show ?thesis by (simp add: layer_pools_def e split: option.splits)
  qed
  have lp: "layer_pools s' = layer_pools s" by (rule ext) (rule pools)
  show sd: "same_data s s'" by (simp add: same_data_def lp) (simp add: e)
  show "plan_frame s s'" "comp_taken s' = comp_taken s" "store_taken s' = store_taken s"
    "comp_rest s' = comp_rest s" "store_rest s' = store_rest s" "next_layer_to_offload s' = ?l - 1"
    "n_cur_comp_saved_bytes s' = n_cur_comp_saved_bytes s" "layer_fds s' = layer_fds s"
    by (simp_all add: e plan_frame_def)
  have "cursors_ok s'" using i(1) same_dataD(3) [OF sd] by (simp add: cursors_ok_def) (simp add: e)
  moreover have "arenas_ok s'"
    unfolding arenas_ok_def
  proof (intro conjI allI impI)
    show "- 1 \<le> next_layer_to_offload s'" "next_layer_to_offload s' < num_layers s'"
      using n i(2) by (auto simp: e arenas_ok_def)
    show "comp_rest s' = []" using all by (simp add: e)
    fix i assume r: "0 \<le> i \<and> i < num_layers s'"
    have old: "if i > ?l then arenas s i = [] \<and>
           (\<exists>pls. swap_file s i = Some (concat (map padded_pool pls)) \<and>
              offload_used_bytes s i = map length pls \<and> (\<forall>p\<in>set pls. length p \<le> arena_bytes s))
         else (\<forall>a\<in>set (arenas s i). cap a = arena_bytes s \<and> arena_top a \<le> arena_bytes s)"
      using arenas_okD(4) [OF i(2), of i] r by (simp add: e)
    show "if i > next_layer_to_offload s' then arenas s' i = [] \<and>
           (\<exists>pls. swap_file s' i = Some (concat (map padded_pool pls)) \<and>
              offload_used_bytes s' i = map length pls \<and> (\<forall>p\<in>set pls. length p \<le> arena_bytes s'))
         else (\<forall>a\<in>set (arenas s' i). cap a = arena_bytes s' \<and> arena_top a \<le> arena_bytes s')"
    proof (cases "i = ?l")
      case True
      then have "\<forall>p\<in>set ?ps. length p \<le> arena_bytes s" using old by (auto simp: arena_top_def)
      with True show ?thesis unfolding e
        by (simp del: map_map) (rule exI [of _ ?ps], simp del: map_map)
    next
      case False
      then have "i > next_layer_to_offload s' \<longleftrightarrow> i > ?l" by (auto simp: e)
      with False old show ?thesis by (simp add: e)
    qed
  qed
  ultimately show "kv_inv cd s'"
    using kv_inv_same [OF inv sd] i(3) by (simp add: e fds_ok_def)
qed

subsection \<open>Reload\<close>

lemma reload_pools_ok:
  assumes "\<And>off n. swap_pread_ok env layer off n" "\<forall>p\<in>set pls. length p \<le> ab" "length pre = off"
  shows "\<exists>as. reload_pools env layer ab (pre @ concat (map padded_pool pls)) off (map length pls) = Some as \<and>
    map pool as = pls \<and> (\<forall>a\<in>set as. cap a = ab \<and> arena_top a \<le> ab)"
  using assms(2,3)
proof (induction pls arbitrary: pre off)
  case (Cons p pls)
  let ?f = "pre @ concat (map padded_pool (p # pls))"
  have f: "?f = (pre @ padded_pool p) @ concat (map padded_pool pls)" by simp
  have len: "length (pre @ padded_pool p) = off + round_up_4k (length p)"
    using Cons.prems(2) by (simp add: padded_pool_length)
  obtain as where as: "reload_pools env layer ab ?f (off + round_up_4k (length p)) (map length pls) = Some as"
    "map pool as = pls" "\<forall>a\<in>set as. cap a = ab \<and> arena_top a \<le> ab"
    using Cons.IH [OF _ len] Cons.prems(1) unfolding f by auto
  have tk: "take (length p) (drop off ?f) = p" using Cons.prems(2) by (simp add: padded_pool_def)
  show ?case
  proof (cases "p = []")
    case True
    then show ?thesis using as Cons.prems by auto
  next
    case False
    let ?a = "(Arena env ab False)\<lparr>pool := p\<rparr>"
    have "reload_pools env layer ab ?f off (map length (p # pls)) = Some (?a # as)"
      using False Cons.prems assms(1) as(1) tk by simp
    moreover have "cap ?a = ab" "arena_top ?a = length p" "pool ?a = p"
      by (simp_all add: Arena_def arena_top_def)
    ultimately show ?thesis using as(2,3) Cons.prems by auto
  qed
qed simp

definition io_reload :: "io_env \<Rightarrow> bool" where
  "io_reload env \<longleftrightarrow> (\<forall>L. swap_r env L) \<and> (\<forall>L off n. swap_pread_ok env L off n)"

definition swapped_layer :: "'m kv_state \<Rightarrow> int \<Rightarrow> bytes list \<Rightarrow> bool" where
  "swapped_layer s i pls \<longleftrightarrow> arenas s i = [] \<and> swap_file s i = Some (concat (map padded_pool pls)) \<and>
     offload_used_bytes s i = map length pls \<and> (\<forall>p\<in>set pls. length p \<le> arena_bytes s)"

lemma reload_layer_ok:
  assumes "io_reload env" "swapped_layer s l pls"
  shows "\<exists>as f. reload_layer env l s = s\<lparr>arenas := (arenas s)(l := as), swap_file := (swap_file s)(l := f)\<rparr> \<and>
    map pool as = pls \<and> (\<forall>a\<in>set as. cap a = arena_bytes s \<and> arena_top a \<le> arena_bytes s)"
proof (cases "pls = []")
  case True
  with assms(2) have "reload_layer env l s = s\<lparr>arenas := (arenas s)(l := []), swap_file := (swap_file s)(l := swap_file s l)\<rparr>"
    by (simp add: reload_layer_def swapped_layer_def fun_upd_idem)
  with True show ?thesis by fastforce
next
  case False
  obtain as where as: "reload_pools env l (arena_bytes s) ([] @ concat (map padded_pool pls)) 0 (map length pls) = Some as"
    "map pool as = pls" "\<forall>a\<in>set as. cap a = arena_bytes s \<and> arena_top a \<le> arena_bytes s"
    using reload_pools_ok [of env l pls "arena_bytes s" "[]" 0] assms
    by (auto simp: io_reload_def swapped_layer_def)
  then have "reload_layer env l s = s\<lparr>arenas := (arenas s)(l := as), swap_file := (swap_file s)(l := None)\<rparr>"
    using assms False by (simp add: reload_layer_def swapped_layer_def io_reload_def)
  with as show ?thesis by blast
qed

text \<open>Reloading the layers \<open>[l, l + k)\<close> brings their pools back; nothing else moves.\<close>

lemma reload_layers_ok:
  assumes "io_reload env" "\<And>i. l \<le> i \<Longrightarrow> i < l + int k \<Longrightarrow> swapped_layer s i (pls i)"
  shows "\<exists>as f. reload_layers env k l s = s\<lparr>arenas := as, swap_file := f\<rparr> \<and>
    (\<forall>i. \<not> (l \<le> i \<and> i < l + int k) \<longrightarrow> as i = arenas s i \<and> f i = swap_file s i) \<and>
    (\<forall>i. l \<le> i \<and> i < l + int k \<longrightarrow> map pool (as i) = pls i \<and>
       (\<forall>a\<in>set (as i). cap a = arena_bytes s \<and> arena_top a \<le> arena_bytes s))"
  using assms(2)
proof (induction k arbitrary: l s)
  case 0
  have "s = s\<lparr>arenas := arenas s, swap_file := swap_file s\<rparr>" by simp
  then show ?case by (metis add_0_right int_ops(1) not_less reload_layers.simps(1))
next
  case (Suc k)
  obtain as f where r: "reload_layer env l s = s\<lparr>arenas := (arenas s)(l := as), swap_file := (swap_file s)(l := f)\<rparr>"
    "map pool as = pls l" "\<forall>a\<in>set as. cap a = arena_bytes s \<and> arena_top a \<le> arena_bytes s"
    using reload_layer_ok [OF assms(1) Suc.prems [of l]] by auto
  define s1 where "s1 = reload_layer env l s"
  have "swapped_layer s1 i (pls i)" if "l + 1 \<le> i" "i < l + 1 + int k" for i
    using Suc.prems [of i] that by (simp add: swapped_layer_def s1_def r(1))
  from Suc.IH [OF this] obtain as' f' where h: "reload_layers env k (l + 1) s1 = s1\<lparr>arenas := as', swap_file := f'\<rparr>"
    "\<And>i. \<not> (l + 1 \<le> i \<and> i < l + 1 + int k) \<Longrightarrow> as' i = arenas s1 i \<and> f' i = swap_file s1 i"
    "\<And>i. l + 1 \<le> i \<Longrightarrow> i < l + 1 + int k \<Longrightarrow> map pool (as' i) = pls i \<and>
       (\<forall>a\<in>set (as' i). cap a = arena_bytes s1 \<and> arena_top a \<le> arena_bytes s1)"
    by blast
  have "reload_layers env (Suc k) l s = s\<lparr>arenas := as', swap_file := f'\<rparr>"
    using h(1) by (simp add: s1_def r(1))
  moreover have "as' i = arenas s i \<and> f' i = swap_file s i" if "\<not> (l \<le> i \<and> i < l + int (Suc k))" for i
    using h(2) [of i] that by (auto simp: s1_def r(1))
  moreover have "map pool (as' i) = pls i \<and> (\<forall>a\<in>set (as' i). cap a = arena_bytes s \<and> arena_top a \<le> arena_bytes s)"
    if "l \<le> i" "i < l + int (Suc k)" for i
    using h(2) [of i] h(3) [of i] that r(2,3) by (cases "i = l") (auto simp: s1_def r(1))
  ultimately show ?case by blast
qed

lemma reload_all_inv:
  assumes inv: "kv_inv cd s" and io: "io_reload env" and s': "s' = mzcache_reload_all_arenas env s"
  shows "kv_inv cd s'" "same_data s s'" "next_layer_to_offload s' = num_layers s - 1"
    "\<exists>as f nx b. s' = s\<lparr>arenas := as, swap_file := f, next_layer_to_offload := nx, n_cur_arena_offload_bytes := b\<rparr>"
proof -
  have i: "cursors_ok s" "arenas_ok s" "fds_ok s" using inv by (auto simp: kv_inv_def)
  note a = arenas_okD [OF i(2)]
  let ?l = "next_layer_to_offload s + 1"
  have start: "(if next_layer_to_offload s < 0 then 0 else next_layer_to_offload s + 1) = ?l" using a(1) by auto
  have "\<exists>as f b. s' = s\<lparr>arenas := as, swap_file := f, next_layer_to_offload := num_layers s - 1, n_cur_arena_offload_bytes := b\<rparr> \<and>
    (\<forall>i. 0 \<le> i \<and> i < num_layers s \<longrightarrow> map pool (as i) = layer_pools s i \<and>
       (\<forall>a\<in>set (as i). cap a = arena_bytes s \<and> arena_top a \<le> arena_bytes s)) \<and>
    (\<forall>i. \<not> (0 \<le> i \<and> i < num_layers s) \<longrightarrow> as i = arenas s i \<and> f i = swap_file s i)"
  proof (cases "?l \<ge> num_layers s")
    case True
    then have n: "next_layer_to_offload s = num_layers s - 1" using a(2) by simp
    then have "s' = s\<lparr>arenas := arenas s, swap_file := swap_file s, next_layer_to_offload := num_layers s - 1,
        n_cur_arena_offload_bytes := n_cur_arena_offload_bytes s\<rparr>"
      using start True by (simp add: s' mzcache_reload_all_arenas_def Let_def flip: n)
    moreover have "map pool (arenas s i) = layer_pools s i \<and>
        (\<forall>a\<in>set (arenas s i). cap a = arena_bytes s \<and> arena_top a \<le> arena_bytes s)"
      if "0 \<le> i" "i < num_layers s" for i using a(4) [OF that] that n by (simp add: layer_pools_resident)
    ultimately show ?thesis by blast
  next
    case False
    define pls where "pls = layer_pools s"
    have sw: "swapped_layer s i (pls i)" if ir: "?l \<le> i" "i < num_layers s" for i
    proof -
      obtain ps where "arenas s i = []" "swap_file s i = Some (concat (map padded_pool ps))"
        "offload_used_bytes s i = map length ps" "\<forall>p\<in>set ps. length p \<le> arena_bytes s"
        using a(4) [of i] a(1) ir by auto
      moreover from this ir have "pls i = ps" by (simp add: pls_def layer_pools_def unpack_padded)
      ultimately show ?thesis by (simp add: swapped_layer_def)
    qed
    have k: "?l + int (nat (num_layers s - ?l)) = num_layers s" using False by simp
    obtain as f where r: "reload_layers env (nat (num_layers s - ?l)) ?l s = s\<lparr>arenas := as, swap_file := f\<rparr>"
      "\<And>i. \<not> (?l \<le> i \<and> i < num_layers s) \<Longrightarrow> as i = arenas s i \<and> f i = swap_file s i"
      "\<And>i. ?l \<le> i \<Longrightarrow> i < num_layers s \<Longrightarrow> map pool (as i) = pls i \<and>
         (\<forall>a\<in>set (as i). cap a = arena_bytes s \<and> arena_top a \<le> arena_bytes s)"
      using reload_layers_ok [OF io, of ?l "nat (num_layers s - ?l)" s pls] sw unfolding k by blast
    have "s' = s\<lparr>arenas := as, swap_file := f, next_layer_to_offload := num_layers s - 1, n_cur_arena_offload_bytes := 0\<rparr>"
      using start False r(1) by (simp add: s' mzcache_reload_all_arenas_def Let_def)
    moreover have "map pool (as i) = layer_pools s i \<and>
        (\<forall>a\<in>set (as i). cap a = arena_bytes s \<and> arena_top a \<le> arena_bytes s)"
      if "0 \<le> i" "i < num_layers s" for i
      using r(2) [of i] r(3) [of i] a(4) [OF that] that by (cases "?l \<le> i") (auto simp: pls_def layer_pools_def)
    moreover have "as i = arenas s i \<and> f i = swap_file s i" if "\<not> (0 \<le> i \<and> i < num_layers s)" for i
      using r(2) [of i] that a(1) by auto
    ultimately show ?thesis by blast
  qed
  then obtain as f b where e: "s' = s\<lparr>arenas := as, swap_file := f, next_layer_to_offload := num_layers s - 1,
      n_cur_arena_offload_bytes := b\<rparr>"
    and r: "\<And>i. 0 \<le> i \<Longrightarrow> i < num_layers s \<Longrightarrow> map pool (as i) = layer_pools s i \<and>
       (\<forall>a\<in>set (as i). cap a = arena_bytes s \<and> arena_top a \<le> arena_bytes s)"
    and o: "\<And>i. \<not> (0 \<le> i \<and> i < num_layers s) \<Longrightarrow> as i = arenas s i \<and> f i = swap_file s i" by blast
  show "\<exists>as f nx b. s' = s\<lparr>arenas := as, swap_file := f, next_layer_to_offload := nx, n_cur_arena_offload_bytes := b\<rparr>"
    using e by blast
  show "next_layer_to_offload s' = num_layers s - 1" by (simp add: e)
  have "layer_pools s' i = layer_pools s i" for i
  proof (cases "0 \<le> i \<and> i < num_layers s")
    case True
    then have "layer_pools s' i = map pool (as i)" by (simp add: layer_pools_def e)
    with True r [of i] show ?thesis by simp
  next
    case False
    with o [of i] a(1,2) show ?thesis by (auto simp: layer_pools_def e split: option.splits)
  qed
  then have lp: "layer_pools s' = layer_pools s" by (rule ext)
  show sd: "same_data s s'" by (simp add: same_data_def lp) (simp add: e)
  have "cursors_ok s'" using i(1) same_dataD(3) [OF sd] by (simp add: cursors_ok_def) (simp add: e)
  moreover have "arenas_ok s'"
    using plan_okD(1) [of s] i(1) r by (auto simp: arenas_ok_def e cursors_ok_def)
  ultimately show "kv_inv cd s'" using kv_inv_same [OF inv sd] i(3) by (simp add: e fds_ok_def)
qed

end
