(* ===== verification/Swapin_Begin.thy ===== *)
theory Swapin_Begin
  imports Swapin_Live Kv_Arena_Correct
begin

text \<open>
  The sequential part of a swap-in: the layer syncs are initialised with the number of tasks each
  layer will get, the loops walk the cursors back over exactly the swapped-out chunks and enqueue
  their tasks, and the state they leave satisfies the invariant of the concurrent phase.
\<close>

subsection \<open>Counting a layer\<close>

lemma card_int_interval: "card {j. a \<le> j \<and> j < b} = nat (b - a)" for a b :: int
proof -
  have "{j. a \<le> j \<and> j < b} = {a..<b}" by auto
  then show ?thesis by simp
qed

lemma states_okD: "states_ok s \<Longrightarrow> chunk_ix s i j \<Longrightarrow> states s i j = expected_state s i j"
  by (simp add: states_ok_def)

lemma comp_taken_iff:
  assumes "cursors_ok s"
  shows "(i, j) \<in> set (comp_taken s) \<longleftrightarrow> in_taken (\<lambda>i. 0) (chunk_bound s) (num_layers s)
    (cur_layer_idx_to_compress s) (cur_chunk_idx_to_compress s) i j"
  using assms by (intro set_taken) (simp add: cursors_ok_def cursor_ok_def)

lemma store_taken_iff:
  assumes "cursors_ok s"
  shows "(i, j) \<in> set (store_taken s) \<longleftrightarrow> in_taken (chunk_bound s) (\<lambda>i. num_chunks_per_tensor s) (num_layers s)
    (cur_layer_idx_to_store s) (cur_chunk_idx_to_store s) i j"
  using assms by (intro set_taken) (simp add: cursors_ok_def cursor_ok_def)

lemma taken_ix:
  assumes "cursors_ok s"
  shows "(i, j) \<in> set (comp_taken s) \<Longrightarrow> chunk_ix s i j \<and> j < chunk_bound s i"
    "(i, j) \<in> set (store_taken s) \<Longrightarrow> chunk_ix s i j \<and> chunk_bound s i \<le> j"
  using assms plan_okD(5,6) [of s i]
  unfolding comp_taken_iff [OF assms] store_taken_iff [OF assms]
  by (auto simp: in_taken_def chunk_ix_def cursors_ok_def cursor_ok_def)

lemma state_sets:
  assumes "cursors_ok s" "states_ok s" "0 \<le> i" "i < num_layers s"
  shows "compressed_in s i = {j. (i, j) \<in> set (comp_taken s)}"
    "unrestored s i = {j. (i, j) \<in> set (comp_taken s)} \<union> {j. (i, j) \<in> set (store_taken s)}"
proof -
  have st: "states s i j = expected_state s i j" if "0 \<le> j" "j < num_chunks_per_tensor s" for j
    using that assms by (intro states_okD) (simp_all add: chunk_ix_def)
  show "compressed_in s i = {j. (i, j) \<in> set (comp_taken s)}"
    using taken_ix(1) [OF assms(1), of i] st
    by (auto simp: compressed_in_def expected_state_def chunk_ix_def split: if_splits)
  show "unrestored s i = {j. (i, j) \<in> set (comp_taken s)} \<union> {j. (i, j) \<in> set (store_taken s)}"
    using taken_ix [OF assms(1), of i] st
    by (auto simp: unrestored_def expected_state_def chunk_ix_def split: if_splits)
qed

lemma init_counts:
  assumes "cursors_ok s" "states_ok s" "0 \<le> i" "i < num_layers s"
  shows "compress_init s i = int (card (compressed_in s i))"
    "compress_init s i + store_init s i = int (card (unrestored s i))"
proof -
  have c: "0 \<le> chunk_bound s i" "chunk_bound s i \<le> num_chunks_per_tensor s"
    "0 \<le> cur_chunk_idx_to_compress s + 1"
    "cur_chunk_idx_to_compress s < chunk_bound s (cur_layer_idx_to_compress s)"
    "chunk_bound s (cur_layer_idx_to_store s) \<le> cur_chunk_idx_to_store s + 1"
    "cur_chunk_idx_to_store s < num_chunks_per_tensor s"
    using assms plan_okD(5,6) [of s i] by (auto simp: cursors_ok_def cursor_ok_def)
  have cs: "{j. (i, j) \<in> set (comp_taken s)} = {j. chunk_bound s i - compress_init s i \<le> j \<and> j < chunk_bound s i}"
    unfolding comp_taken_iff [OF assms(1)] using assms(3,4) c
    by (auto simp: in_taken_def compress_init_def)
  have ss: "{j. (i, j) \<in> set (store_taken s)} =
      {j. num_chunks_per_tensor s - store_init s i \<le> j \<and> j < num_chunks_per_tensor s}"
    unfolding store_taken_iff [OF assms(1)] using assms(3,4) c
    by (auto simp: in_taken_def store_init_def)
  have nn: "0 \<le> compress_init s i" "0 \<le> store_init s i" "store_init s i \<le> num_chunks_per_tensor s - chunk_bound s i"
    using c by (auto simp: compress_init_def store_init_def)
  show "compress_init s i = int (card (compressed_in s i))"
    unfolding state_sets(1) [OF assms] cs card_int_interval using nn by simp
  have disj: "{j. (i, j) \<in> set (comp_taken s)} \<inter> {j. (i, j) \<in> set (store_taken s)} = {}"
    unfolding cs ss using nn by auto
  have fin: "finite {j. a \<le> j \<and> j < b}" for a b :: int
    by (rule finite_subset [of _ "{a..<b}"]) auto
  have "card (unrestored s i) = nat (compress_init s i) + nat (store_init s i)"
    unfolding state_sets(2) [OF assms] using card_Un_disjoint [OF _ _ disj] fin
    unfolding cs ss by (simp add: card_int_interval)
  then show "compress_init s i + store_init s i = int (card (unrestored s i))" using nn by simp
qed

lemma taken_total:
  fixes xs :: "(int \<times> int) list" and nl :: int
  assumes "distinct xs" "\<And>i j. (i, j) \<in> set xs \<Longrightarrow> 0 \<le> i \<and> i < nl"
  shows "(\<Sum>i\<in>{0..<nl}. card {j. (i, j) \<in> set xs}) = length xs"
proof -
  have S: "set xs = (SIGMA i:{0..<nl}. {j. (i, j) \<in> set xs})" using assms(2) by auto
  have "finite {j. (i, j) \<in> set xs}" for i
    by (rule finite_subset [of _ "snd ` set xs"]) (auto intro: rev_image_eqI)
  then have "card (set xs) = (\<Sum>i\<in>{0..<nl}. card {j. (i, j) \<in> set xs})"
    using arg_cong [OF S, of card] card_SigmaI [of "{0..<nl}" "\<lambda>i. {j. (i, j) \<in> set xs}"] by simp
  then show ?thesis using distinct_card [OF assms(1)] by simp
qed

lemma store_init_card:
  assumes "cursors_ok s" "states_ok s" "0 \<le> i" "i < num_layers s"
  shows "store_init s i = int (card {j. (i, j) \<in> set (store_taken s)})"
proof -
  have "{j. (i, j) \<in> set (comp_taken s)} \<inter> {j. (i, j) \<in> set (store_taken s)} = {}"
    using taken_ix [OF assms(1), of i] by fastforce
  moreover have "finite {j. (i, j) \<in> set xs}" for xs :: "(int \<times> int) list"
    by (rule finite_subset [of _ "snd ` set xs"]) (auto intro: rev_image_eqI)
  ultimately have "card (unrestored s i) = card (compressed_in s i) + card {j. (i, j) \<in> set (store_taken s)}"
    by (simp add: state_sets [OF assms] card_Un_disjoint)
  with init_counts [OF assms] show ?thesis by simp
qed

lemma init_totals:
  assumes "cursors_ok s" "states_ok s"
  shows "(\<Sum>i\<in>{0..<num_layers s}. compress_init s i) = int (length (comp_taken s))"
    "(\<Sum>i\<in>{0..<num_layers s}. store_init s i) = int (length (store_taken s))"
proof -
  have "(\<Sum>i\<in>{0..<num_layers s}. compress_init s i)
      = (\<Sum>i\<in>{0..<num_layers s}. int (card {j. (i, j) \<in> set (comp_taken s)}))"
    by (intro sum.cong) (simp_all add: init_counts(1) [OF assms] state_sets(1) [OF assms])
  also have "\<dots> = int (length (comp_taken s))"
    using taken_total [OF distinct_taken, where nl = "num_layers s"] taken_ix(1) [OF assms(1)]
    by (simp add: chunk_ix_def flip: of_nat_sum)
  finally show "(\<Sum>i\<in>{0..<num_layers s}. compress_init s i) = int (length (comp_taken s))" .
  have "(\<Sum>i\<in>{0..<num_layers s}. store_init s i)
      = (\<Sum>i\<in>{0..<num_layers s}. int (card {j. (i, j) \<in> set (store_taken s)}))"
    by (intro sum.cong) (simp_all add: store_init_card [OF assms])
  also have "\<dots> = int (length (store_taken s))"
    using taken_total [OF distinct_taken, where nl = "num_layers s"] taken_ix(2) [OF assms(1)]
    by (simp add: chunk_ix_def flip: of_nat_sum)
  finally show "(\<Sum>i\<in>{0..<num_layers s}. store_init s i) = int (length (store_taken s))" .
qed

subsection \<open>Initialising the syncs\<close>

lemma layer_sync_loop_ok:
  assumes "\<And>j. i \<le> j \<Longrightarrow> j < i + int k \<Longrightarrow> total_init st j = int (n j)"
  shows "\<exists>cl. layer_sync_loop k i st = Ok (st\<lparr>
      decomp_num_chunks := decomp_num_chunks st + (\<Sum>j\<in>{i..<i + int k}. compress_init (kv st) j),
      load_num_chunks := load_num_chunks st + (\<Sum>j\<in>{i..<i + int k}. store_init (kv st) j),
      kv := (kv st)\<lparr>comp_left := cl\<rparr>,
      syncs := syncs st @ map (\<lambda>j. sync_after (n j) 0) [i..i + int k - 1]\<rparr>) \<and>
    (\<forall>j. cl j = (if i \<le> j \<and> j < i + int k then compress_init (kv st) j else comp_left (kv st) j))"
  using assms
proof (induction k arbitrary: i st)
  case 0
  show ?case by (rule exI [of _ "comp_left (kv st)"]) simp
next
  case (Suc k)
  let ?st = "st\<lparr>decomp_num_chunks := decomp_num_chunks st + compress_init (kv st) i,
             load_num_chunks := load_num_chunks st + store_init (kv st) i,
             kv := (kv st)\<lparr>comp_left := (comp_left (kv st))(i := compress_init (kv st) i)\<rparr>,
             syncs := syncs st @ [sync_after (n i) 0]\<rparr>"
  have same: "compress_init (kv ?st) = compress_init (kv st)" "store_init (kv ?st) = store_init (kv st)"
    "total_init ?st = total_init st"
    by (simp_all add: fun_eq_iff compress_init_def store_init_def total_init_def)
  have "total_init ?st j = int (n j)" if "i + 1 \<le> j" "j < i + 1 + int k" for j
    using Suc.prems [of j] that by (simp add: same)
  from Suc.IH [OF this] obtain cl where cl: "layer_sync_loop k (i + 1) ?st = Ok (?st\<lparr>
      decomp_num_chunks := decomp_num_chunks ?st + (\<Sum>j\<in>{i + 1..<i + 1 + int k}. compress_init (kv ?st) j),
      load_num_chunks := load_num_chunks ?st + (\<Sum>j\<in>{i + 1..<i + 1 + int k}. store_init (kv ?st) j),
      kv := (kv ?st)\<lparr>comp_left := cl\<rparr>,
      syncs := syncs ?st @ map (\<lambda>j. sync_after (n j) 0) [i + 1..i + 1 + int k - 1]\<rparr>)"
    "\<And>j. cl j = (if i + 1 \<le> j \<and> j < i + 1 + int k then compress_init (kv ?st) j else comp_left (kv ?st) j)" by blast
  have iv: "{i..<i + int (Suc k)} = insert i {i + 1..<i + 1 + int k}" by auto
  have sums: "(\<Sum>j\<in>{i..<i + int (Suc k)}. g j) = g i + (\<Sum>j\<in>{i + 1..<i + 1 + int k}. g j)" for g :: "int \<Rightarrow> int"
    unfolding iv by simp
  have up: "[i..i + int (Suc k) - 1] = i # [i + 1..i + 1 + int k - 1]"
    using upto_rec1 [of i "i + int (Suc k) - 1"] by (simp add: add.assoc add.left_commute)
  have first: "layer_sync_loop (Suc k) i st = layer_sync_loop k (i + 1) ?st"
    using Suc.prems [of i] LayerSync_after [of "n i"] by simp
  have "layer_sync_loop (Suc k) i st = Ok (st\<lparr>
      decomp_num_chunks := decomp_num_chunks st + (\<Sum>j\<in>{i..<i + int (Suc k)}. compress_init (kv st) j),
      load_num_chunks := load_num_chunks st + (\<Sum>j\<in>{i..<i + int (Suc k)}. store_init (kv st) j),
      kv := (kv st)\<lparr>comp_left := cl\<rparr>,
      syncs := syncs st @ map (\<lambda>j. sync_after (n j) 0) [i..i + int (Suc k) - 1]\<rparr>)"
    unfolding first cl(1) same up sums by (simp add: add.assoc)
  moreover have "cl j = (if i \<le> j \<and> j < i + int (Suc k) then compress_init (kv st) j else comp_left (kv st) j)" for j
    using cl(2) [of j] unfolding same by auto
  ultimately show ?case by blast
qed

subsection \<open>One step back\<close>

abbreviation s_taken :: "'m kv_state \<Rightarrow> int \<Rightarrow> int \<Rightarrow> (int \<times> int) list" where
  "s_taken s l c \<equiv> taken (chunk_bound s) (\<lambda>i. num_chunks_per_tensor s) (num_layers s) l c"

abbreviation c_taken :: "'m kv_state \<Rightarrow> int \<Rightarrow> int \<Rightarrow> (int \<times> int) list" where
  "c_taken s l c \<equiv> taken (\<lambda>i. 0) (chunk_bound s) (num_layers s) l c"

abbreviation s_cursor :: "'m kv_state \<Rightarrow> int \<Rightarrow> int \<Rightarrow> bool" where
  "s_cursor s l c \<equiv> cursor_ok (chunk_bound s) (\<lambda>i. num_chunks_per_tensor s) (num_layers s) l c"

abbreviation c_cursor :: "'m kv_state \<Rightarrow> int \<Rightarrow> int \<Rightarrow> bool" where
  "c_cursor s l c \<equiv> cursor_ok (\<lambda>i. 0) (chunk_bound s) (num_layers s) l c"

lemma store_next_ok:
  assumes "plan_ok s" "s_cursor s l c" "s_taken s l c \<noteq> []"
  obtains l' c' where "store_next (chunk_bound s) (num_chunks_per_tensor s) (num_layers s) (l, c) = ((l', c'), True)"
    "s_taken s l c = (l', c') # s_taken s l' c'" "s_cursor s l' c'" "0 \<le> l'" "l' < num_layers s"
    "l' = l \<longrightarrow> c + 1 < num_chunks_per_tensor s"
proof (cases "c + 1 < num_chunks_per_tensor s")
  case True
  with sreg.give_same_layer [OF assms(1,2)] assms(2) that [of l "c + 1"] show thesis
    by (simp add: store_next_def cursor_ok_def)
next
  case False
  then have c: "c + 1 = num_chunks_per_tensor s" using assms(2) by (simp add: cursor_ok_def)
  note g = sreg.give_next_layer [OF assms(1,2) False assms(3)]
  from assms(2) have "0 \<le> l" by (simp add: cursor_ok_def)
  with g c that [of "l + 1" "chunk_bound s (l + 1)"] show thesis by (simp add: store_next_def)
qed

lemma comp_next_ok:
  assumes "plan_ok s" "c_cursor s l c" "c_taken s l c \<noteq> []"
  obtains l' c' where "comp_next (chunk_bound s) (num_layers s) (l, c) = ((l', c'), True)"
    "c_taken s l c = (l', c') # c_taken s l' c'" "c_cursor s l' c'"
proof (cases "c + 1 < chunk_bound s l")
  case True
  with creg.give_same_layer [OF assms(1,2)] that [of l "c + 1"] show thesis by (simp add: comp_next_def)
next
  case False
  from creg.give_next_layer [OF assms(1,2) False assms(3)] False that [of "l + 1" 0] show thesis
    by (simp add: comp_next_def)
qed

subsection \<open>Enqueueing\<close>

definition pool_good :: "task pool \<Rightarrow> bool" where
  "pool_good p \<longleftrightarrow> routed p \<and> \<not> stop p \<and>
     (\<forall>ty\<in>{ALLOC, READ, DECOMP, FREE}. \<exists>g. groups p ty = Some g \<and> 0 < workers g)"

lemma pool_good_iff: "pool_good (pool_of st) \<longleftrightarrow> routed (pool_of st) \<and> pool_ok st"
  by (auto simp: pool_good_def pool_ok_def)

lemma pool_good_enqueue:
  assumes "pool_good p" "ty = task_type t"
  obtains p' where "pool_enqueue ty t p = Ok p'" "pool_good p'" "pool_pending p' = pool_pending p + {#t#}"
proof -
  have ty: "ty \<in> {ALLOC, READ, DECOMP, FREE}" by (cases t) (simp_all add: assms(2) task_type_def)
  then obtain g where g: "groups p ty = Some g" "\<not> stop p" using assms(1) unfolding pool_good_def by blast
  let ?p = "p\<lparr>groups := (groups p)(ty \<mapsto> group_enqueue t g)\<rparr>"
  have e: "pool_enqueue ty t p = Ok ?p" using g by (simp add: pool_enqueue_def)
  have "routed ?p" using routed_enqueue [of p t ?p] e assms by (simp add: pool_good_def)
  moreover have "\<exists>g'. groups ?p ty' = Some g' \<and> 0 < workers g'" if "ty' \<in> {ALLOC, READ, DECOMP, FREE}" for ty'
    using that assms(1) g(1) unfolding pool_good_def
    by (cases "ty' = ty") (auto simp: group_enqueue_def)
  ultimately show thesis using that [OF e _ pool_pending_enqueue [OF e]] g(2) by (simp add: pool_good_def)
qed

text \<open>The tasks of a list of chunks.\<close>

definition alloc_tasks_of :: "(int \<times> int) list \<Rightarrow> task multiset" where
  "alloc_tasks_of xs = mset (map (\<lambda>(i, j). KvAlloc i j) xs)"

definition futures :: "(int \<times> int) list \<Rightarrow> (int \<times> int \<Rightarrow> bool option) \<Rightarrow> (int \<times> int \<Rightarrow> bool option)" where
  "futures xs d = (\<lambda>k. if k \<in> set xs then Some False else d k)"

lemma futures_simps [simp]: "futures [] d = d" "futures xs (d((i, j) \<mapsto> False)) = futures ((i, j) # xs) d"
  by (auto simp: futures_def fun_eq_iff)

lemma enqueue_kv_ok:
  assumes "pool_good (pool_of st)" "ty = task_type t"
  obtains p where "enqueue_kv True ty t L C st =
      Ok (st\<lparr>kv_alloc_done := (kv_alloc_done st)((L, C) \<mapsto> False), pool_of := p\<rparr>)"
    "pool_good p" "pool_pending p = pending st + {#KvAlloc L C#} + {#t#}"
proof -
  obtain p1 where p1: "pool_enqueue ALLOC (KvAlloc L C) (pool_of st) = Ok p1" "pool_good p1"
    "pool_pending p1 = pending st + {#KvAlloc L C#}"
    by (rule pool_good_enqueue [OF assms(1), of ALLOC "KvAlloc L C"]) (simp_all add: task_type_def)
  obtain p2 where p2: "pool_enqueue ty t p1 = Ok p2" "pool_good p2" "pool_pending p2 = pool_pending p1 + {#t#}"
    by (rule pool_good_enqueue [OF p1(2) assms(2)])
  show thesis
    by (rule that [of p2]) (use p1 p2 in \<open>simp_all add: enqueue_kv_def enqueue_def register_kv_allocation_def\<close>)
qed

text \<open>The loops open descriptors of existing layers only.\<close>

definition same_outside :: "int \<Rightarrow> (int \<Rightarrow> 'a) \<Rightarrow> (int \<Rightarrow> 'a) \<Rightarrow> bool" where
  "same_outside nl f g \<longleftrightarrow> (\<forall>x. \<not> (0 \<le> x \<and> x < nl) \<longrightarrow> g x = f x)"

lemma load_loop_ok:
  assumes "plan_ok (kv st)" "s_cursor (kv st) (cur_layer_idx_to_store (kv st)) (cur_chunk_idx_to_store (kv st))"
    and "n \<le> length (store_taken (kv st))" "pool_good (pool_of st)" "io_reads env"
    and "\<forall>x. layer_fds (kv st) x \<noteq> WrOnly"
    and "cur_chunk_idx_to_store (kv st) + 1 < num_chunks_per_tensor (kv st) \<Longrightarrow>
      layer_fds (kv st) (cur_layer_idx_to_store (kv st)) = RdOnly"
  shows "\<exists>l c f p. load_loop env True n st = Ok (st\<lparr>
      kv := (kv st)\<lparr>cur_layer_idx_to_store := l, cur_chunk_idx_to_store := c, layer_fds := f\<rparr>,
      kv_alloc_done := futures (take n (store_taken (kv st))) (kv_alloc_done st), pool_of := p\<rparr>) \<and>
    s_cursor (kv st) l c \<and> s_taken (kv st) l c = drop n (store_taken (kv st)) \<and> pool_good p \<and>
    pool_pending p = pending st + alloc_tasks_of (take n (store_taken (kv st)))
      + mset (map (\<lambda>(i, j). KvRead i j) (take n (store_taken (kv st)))) \<and>
    same_outside (num_layers (kv st)) (layer_fds (kv st)) f \<and>
    (\<forall>x. layer_fds (kv st) x = RdOnly \<longrightarrow> f x = RdOnly) \<and>
    (\<forall>(i, j)\<in>set (take n (store_taken (kv st))). f i = RdOnly)"
  using assms
proof (induction n arbitrary: st)
  case 0
  show ?case
    by (rule exI [of _ "cur_layer_idx_to_store (kv st)"], rule exI [of _ "cur_chunk_idx_to_store (kv st)"],
        rule exI [of _ "layer_fds (kv st)"], rule exI [of _ "pool_of st"])
      (use 0 in \<open>simp add: alloc_tasks_of_def same_outside_def\<close>)
next
  case (Suc n)
  let ?s = "kv st"
  from Suc.prems(3) have ne: "store_taken ?s \<noteq> []" by auto
  obtain l c where nx: "store_next (chunk_bound ?s) (num_chunks_per_tensor ?s) (num_layers ?s)
      (cur_layer_idx_to_store ?s, cur_chunk_idx_to_store ?s) = ((l, c), True)"
    "store_taken ?s = (l, c) # s_taken ?s l c" "s_cursor ?s l c" "0 \<le> l" "l < num_layers ?s"
    "l = cur_layer_idx_to_store ?s \<longrightarrow> cur_chunk_idx_to_store ?s + 1 < num_chunks_per_tensor ?s"
    by (rule store_next_ok [OF Suc.prems(1,2) ne])
  define f0 where "f0 = (if l \<noteq> cur_layer_idx_to_store ?s \<and> layer_fds ?s l = Closed
    then (layer_fds ?s)(l := RdOnly) else layer_fds ?s)"
  define st1 where "st1 = st\<lparr>kv := ?s\<lparr>cur_layer_idx_to_store := l, cur_chunk_idx_to_store := c, layer_fds := f0\<rparr>\<rparr>"
  have f0: "f0 l = RdOnly" "\<forall>x. f0 x \<noteq> WrOnly" "\<forall>x. layer_fds ?s x = RdOnly \<longrightarrow> f0 x = RdOnly"
    "same_outside (num_layers ?s) (layer_fds ?s) f0"
    using Suc.prems(6,7) nx(4-6) fd.exhaust [of "layer_fds ?s l"] by (auto simp: f0_def same_outside_def)
  obtain p where p: "enqueue_kv True READ (KvRead l c) l c st1 =
      Ok (st1\<lparr>kv_alloc_done := (kv_alloc_done st1)((l, c) \<mapsto> False), pool_of := p\<rparr>)"
    "pool_good p" "pool_pending p = pending st1 + {#KvAlloc l c#} + {#KvRead l c#}"
    by (rule enqueue_kv_ok [of st1 READ "KvRead l c"]) (use Suc.prems(4) in \<open>simp_all add: st1_def task_type_def\<close>)
  define st2 where "st2 = st1\<lparr>kv_alloc_done := (kv_alloc_done st1)((l, c) \<mapsto> False), pool_of := p\<rparr>"
  have sel: "kv st2 = ?s\<lparr>cur_layer_idx_to_store := l, cur_chunk_idx_to_store := c, layer_fds := f0\<rparr>"
    "kv_alloc_done st2 = (kv_alloc_done st)((l, c) \<mapsto> False)" "pool_of st2 = p" "pending st1 = pending st"
    by (simp_all add: st2_def st1_def)
  have tk: "store_taken (kv st2) = s_taken ?s l c" by (simp add: sel)
  have run: "load_loop env True (Suc n) st = load_loop env True n st2"
    using nx p(1) Suc.prems(5)
    by (auto simp: Let_def open_kv_file_def io_reads_def st2_def st1_def f0_def)
  have pl: "plan_ok (kv st2)" using Suc.prems(1) plan_ok_cong [of "kv st2" ?s] by (simp add: sel)
  have "\<exists>l' c' f p'. load_loop env True n st2 = Ok (st2\<lparr>
      kv := (kv st2)\<lparr>cur_layer_idx_to_store := l', cur_chunk_idx_to_store := c', layer_fds := f\<rparr>,
      kv_alloc_done := futures (take n (store_taken (kv st2))) (kv_alloc_done st2), pool_of := p'\<rparr>) \<and>
    s_cursor (kv st2) l' c' \<and> s_taken (kv st2) l' c' = drop n (store_taken (kv st2)) \<and> pool_good p' \<and>
    pool_pending p' = pending st2 + alloc_tasks_of (take n (store_taken (kv st2)))
      + mset (map (\<lambda>(i, j). KvRead i j) (take n (store_taken (kv st2)))) \<and>
    same_outside (num_layers (kv st2)) (layer_fds (kv st2)) f \<and>
    (\<forall>x. layer_fds (kv st2) x = RdOnly \<longrightarrow> f x = RdOnly) \<and>
    (\<forall>(i, j)\<in>set (take n (store_taken (kv st2))). f i = RdOnly)"
    by (rule Suc.IH) (use Suc.prems nx f0 p pl in \<open>simp_all add: sel\<close>)
  then obtain l' c' f p' where ih: "load_loop env True n st2 = Ok (st2\<lparr>
      kv := (kv st2)\<lparr>cur_layer_idx_to_store := l', cur_chunk_idx_to_store := c', layer_fds := f\<rparr>,
      kv_alloc_done := futures (take n (s_taken ?s l c)) (kv_alloc_done st2), pool_of := p'\<rparr>)"
    "s_cursor ?s l' c'" "s_taken ?s l' c' = drop n (s_taken ?s l c)" "pool_good p'"
    "pool_pending p' = pending st2 + alloc_tasks_of (take n (s_taken ?s l c))
      + mset (map (\<lambda>(i, j). KvRead i j) (take n (s_taken ?s l c)))"
    "\<forall>x. f0 x = RdOnly \<longrightarrow> f x = RdOnly" "\<forall>(i, j)\<in>set (take n (s_taken ?s l c)). f i = RdOnly"
    "same_outside (num_layers ?s) f0 f"
    unfolding tk by (auto simp: sel)
  have res: "load_loop env True (Suc n) st = Ok (st\<lparr>
      kv := ?s\<lparr>cur_layer_idx_to_store := l', cur_chunk_idx_to_store := c', layer_fds := f\<rparr>,
      kv_alloc_done := futures (take (Suc n) (store_taken ?s)) (kv_alloc_done st), pool_of := p'\<rparr>)"
    unfolding run ih(1) nx(2) by (simp add: st2_def st1_def)
  show ?case
    by (rule exI [of _ l'], rule exI [of _ c'], rule exI [of _ f], rule exI [of _ p'])
      (use res ih f0 p(3) nx(2) in \<open>auto simp: sel alloc_tasks_of_def same_outside_def\<close>)
qed

lemma decomp_loop_ok:
  assumes "plan_ok (kv st)" "c_cursor (kv st) (cur_layer_idx_to_compress (kv st)) (cur_chunk_idx_to_compress (kv st))"
    and "n \<le> length (comp_taken (kv st))" "pool_good (pool_of st)"
  shows "\<exists>l c p. decomp_loop True n st = Ok (st\<lparr>
      kv := (kv st)\<lparr>cur_layer_idx_to_compress := l, cur_chunk_idx_to_compress := c\<rparr>,
      kv_alloc_done := futures (take n (comp_taken (kv st))) (kv_alloc_done st), pool_of := p\<rparr>, True) \<and>
    c_cursor (kv st) l c \<and> c_taken (kv st) l c = drop n (comp_taken (kv st)) \<and> pool_good p \<and>
    pool_pending p = pending st + alloc_tasks_of (take n (comp_taken (kv st)))
      + mset (map (\<lambda>(i, j). KvDecomp i j) (take n (comp_taken (kv st))))"
  using assms
proof (induction n arbitrary: st)
  case 0
  show ?case
    by (rule exI [of _ "cur_layer_idx_to_compress (kv st)"], rule exI [of _ "cur_chunk_idx_to_compress (kv st)"],
        rule exI [of _ "pool_of st"]) (use 0 in \<open>simp add: alloc_tasks_of_def\<close>)
next
  case (Suc n)
  let ?s = "kv st"
  from Suc.prems(3) have ne: "comp_taken ?s \<noteq> []" by auto
  obtain l c where nx: "comp_next (chunk_bound ?s) (num_layers ?s)
      (cur_layer_idx_to_compress ?s, cur_chunk_idx_to_compress ?s) = ((l, c), True)"
    "comp_taken ?s = (l, c) # c_taken ?s l c" "c_cursor ?s l c"
    by (rule comp_next_ok [OF Suc.prems(1,2) ne])
  define st1 where "st1 = st\<lparr>kv := ?s\<lparr>cur_layer_idx_to_compress := l, cur_chunk_idx_to_compress := c\<rparr>\<rparr>"
  obtain p where p: "enqueue_kv True DECOMP (KvDecomp l c) l c st1 =
      Ok (st1\<lparr>kv_alloc_done := (kv_alloc_done st1)((l, c) \<mapsto> False), pool_of := p\<rparr>)"
    "pool_good p" "pool_pending p = pending st1 + {#KvAlloc l c#} + {#KvDecomp l c#}"
    by (rule enqueue_kv_ok [of st1 DECOMP "KvDecomp l c"]) (use Suc.prems(4) in \<open>simp_all add: st1_def task_type_def\<close>)
  define st2 where "st2 = st1\<lparr>kv_alloc_done := (kv_alloc_done st1)((l, c) \<mapsto> False), pool_of := p\<rparr>"
  have sel: "kv st2 = ?s\<lparr>cur_layer_idx_to_compress := l, cur_chunk_idx_to_compress := c\<rparr>"
    "kv_alloc_done st2 = (kv_alloc_done st)((l, c) \<mapsto> False)" "pool_of st2 = p" "pending st1 = pending st"
    by (simp_all add: st2_def st1_def)
  have tk: "comp_taken (kv st2) = c_taken ?s l c" by (simp add: sel)
  have rg: "0 \<le> cur_layer_idx_to_compress ?s" "cur_layer_idx_to_compress ?s < MAX_NUM_LAYERS"
    using Suc.prems(2) plan_okD(2) [OF Suc.prems(1)] by (auto simp: cursor_ok_def)
  have run: "decomp_loop True (Suc n) st = decomp_loop True n st2"
    using nx(1) p(1) rg by (simp add: Let_def st2_def st1_def)
  have pl: "plan_ok (kv st2)" using Suc.prems(1) plan_ok_cong [of "kv st2" ?s] by (simp add: sel)
  have "\<exists>l' c' p'. decomp_loop True n st2 = Ok (st2\<lparr>
      kv := (kv st2)\<lparr>cur_layer_idx_to_compress := l', cur_chunk_idx_to_compress := c'\<rparr>,
      kv_alloc_done := futures (take n (comp_taken (kv st2))) (kv_alloc_done st2), pool_of := p'\<rparr>, True) \<and>
    c_cursor (kv st2) l' c' \<and> c_taken (kv st2) l' c' = drop n (comp_taken (kv st2)) \<and> pool_good p' \<and>
    pool_pending p' = pending st2 + alloc_tasks_of (take n (comp_taken (kv st2)))
      + mset (map (\<lambda>(i, j). KvDecomp i j) (take n (comp_taken (kv st2))))"
    by (rule Suc.IH) (use Suc.prems nx p pl in \<open>simp_all add: sel\<close>)
  then obtain l' c' p' where ih: "decomp_loop True n st2 = Ok (st2\<lparr>
      kv := (kv st2)\<lparr>cur_layer_idx_to_compress := l', cur_chunk_idx_to_compress := c'\<rparr>,
      kv_alloc_done := futures (take n (c_taken ?s l c)) (kv_alloc_done st2), pool_of := p'\<rparr>, True)"
    "c_cursor ?s l' c'" "c_taken ?s l' c' = drop n (c_taken ?s l c)" "pool_good p'"
    "pool_pending p' = pending st2 + alloc_tasks_of (take n (c_taken ?s l c))
      + mset (map (\<lambda>(i, j). KvDecomp i j) (take n (c_taken ?s l c)))"
    unfolding tk by (auto simp: sel)
  have res: "decomp_loop True (Suc n) st = Ok (st\<lparr>
      kv := ?s\<lparr>cur_layer_idx_to_compress := l', cur_chunk_idx_to_compress := c'\<rparr>,
      kv_alloc_done := futures (take (Suc n) (comp_taken ?s)) (kv_alloc_done st), pool_of := p'\<rparr>, True)"
    unfolding run ih(1) nx(2) by (simp add: st2_def st1_def)
  show ?case
    by (rule exI [of _ l'], rule exI [of _ c'], rule exI [of _ p'])
      (use res ih p(3) nx(2) in \<open>auto simp: sel alloc_tasks_of_def\<close>)
qed

lemma reload_w_loop_ok:
  assumes "pool_good (pool_of st)"
  shows "\<exists>p. reload_w_loop k L st = Ok (st\<lparr>
      weight_alloc_done := (\<lambda>i. if L \<le> i \<and> i < L + int k then Some False else weight_alloc_done st i),
      pool_of := p\<rparr>) \<and> pool_good p \<and>
    pool_pending p = pending st + mset (map WAlloc [L..L + int k - 1]) + mset (map WRead [L..L + int k - 1])"
  using assms
proof (induction k arbitrary: L st)
  case 0
  have "(\<lambda>i. if L \<le> i \<and> i < L then Some False else weight_alloc_done st i) = weight_alloc_done st"
    by (intro ext) auto
  then show ?case using 0 by (intro exI [of _ "pool_of st"]) simp
next
  case (Suc k)
  obtain p1 where p1: "pool_enqueue ALLOC (WAlloc L) (pool_of st) = Ok p1" "pool_good p1"
    "pool_pending p1 = pending st + {#WAlloc L#}"
    by (rule pool_good_enqueue [OF Suc.prems, of ALLOC "WAlloc L"]) (simp_all add: task_type_def)
  obtain p2 where p2: "pool_enqueue READ (WRead L) p1 = Ok p2" "pool_good p2"
    "pool_pending p2 = pool_pending p1 + {#WRead L#}"
    by (rule pool_good_enqueue [OF p1(2), of READ "WRead L"]) (simp_all add: task_type_def)
  define st2 where "st2 = st\<lparr>weight_alloc_done := (weight_alloc_done st)(L \<mapsto> False), pool_of := p2\<rparr>"
  have run: "reload_w_loop (Suc k) L st = reload_w_loop k (L + 1) st2"
    using p1(1) p2(1) by (simp add: enqueue_def register_weight_allocation_def st2_def)
  obtain p where p: "reload_w_loop k (L + 1) st2 = Ok (st2\<lparr>
      weight_alloc_done := (\<lambda>i. if L + 1 \<le> i \<and> i < L + 1 + int k then Some False else weight_alloc_done st2 i),
      pool_of := p\<rparr>)" "pool_good p"
    "pool_pending p = pending st2 + mset (map WAlloc [L + 1..L + 1 + int k - 1]) + mset (map WRead [L + 1..L + 1 + int k - 1])"
    using Suc.IH [of st2 "L + 1"] p2(2) by (auto simp: st2_def)
  have up: "[L..L + int (Suc k) - 1] = L # [L + 1..L + 1 + int k - 1]"
    using upto_rec1 [of L "L + int (Suc k) - 1"] by (simp add: add.assoc add.left_commute)
  have w: "(\<lambda>i. if L + 1 \<le> i \<and> i < L + 1 + int k then Some False else weight_alloc_done st2 i)
      = (\<lambda>i. if L \<le> i \<and> i < L + int (Suc k) then Some False else weight_alloc_done st i)"
    by (auto simp: st2_def fun_eq_iff)
  have "pending st2 = pending st + {#WAlloc L#} + {#WRead L#}" by (simp add: st2_def p1(3) p2(3))
  then show ?case using p(2,3) unfolding run p(1) w up
    by (intro exI [of _ p]) (simp add: st2_def)
qed

subsection \<open>The invariant holds when the workers start\<close>

text \<open>A core at rest: nothing is pending, all descriptors are closed, the three layer counts agree.\<close>

definition core_idle :: "'m codec \<Rightarrow> (int \<Rightarrow> bytes) \<Rightarrow> 'm core \<Rightarrow> bool" where
  "core_idle cd orig st \<longleftrightarrow>
     kv_inv cd (kv st) \<and> weight_inv orig (wt st) \<and>
     core_num_layers st = num_layers (kv st) \<and> w_num_layers (wt st) = num_layers (kv st) \<and>
     (\<forall>l. layer_fds (kv st) l = Closed) \<and> pool_good (pool_of st) \<and> pending st = {#}"

text \<open>The state the sequential part leaves, field by field.\<close>

definition begun :: "'m core \<Rightarrow> 'm core \<Rightarrow> bool" where
  "begun st st' \<longleftrightarrow>
     (let s = kv st; s' = kv st'; w = cur_layer_idx_to_unload (wt st); nl = num_layers s in
      same_data s s' \<and> next_layer_to_offload s' = nl - 1 \<and> plan_frame s s' \<and>
      n_cur_comp_chunks s' = n_cur_comp_chunks s \<and> n_cur_store_chunks s' = n_cur_store_chunks s \<and>
      (\<forall>i. 0 \<le> i \<and> i < nl \<longrightarrow> comp_left s' i = compress_init s i) \<and>
      (\<forall>i j. (i, j) \<in> set (store_taken s) \<longrightarrow> layer_fds s' i = RdOnly) \<and>
      same_outside nl (\<lambda>_. Closed) (layer_fds s') \<and>
      arenas_ok s' \<and>
      c_cursor s (cur_layer_idx_to_compress s') (cur_chunk_idx_to_compress s') \<and> comp_taken s' = [] \<and>
      s_cursor s (cur_layer_idx_to_store s') (cur_chunk_idx_to_store s') \<and> store_taken s' = [] \<and>
      syncs st' = map (\<lambda>i. sync_after (nat (total_init st i)) 0) [0..nl - 1] \<and>
      decomp_num_chunks st' = int (length (comp_taken s)) \<and> load_num_chunks st' = int (length (store_taken s)) \<and>
      core_num_layers st' = core_num_layers st \<and> core_num_chunks st' = core_num_chunks st \<and>
      pending_chunks_total s' = pending_chunks_total s \<and>
      kv_alloc_done st' = futures (comp_taken s) (futures (store_taken s) (\<lambda>_. None)) \<and>
      weight_alloc_done st' = (\<lambda>i. if w + 1 \<le> i \<and> i < nl then Some False else None) \<and>
      w_num_layers (wt st') = w_num_layers (wt st) \<and> w_buf (wt st') = w_buf (wt st) \<and>
      w_dump (wt st') = w_dump (wt st) \<and> pool_good (pool_of st') \<and>
      pending st' = alloc_tasks_of (store_taken s) + mset (map (\<lambda>(i, j). KvRead i j) (store_taken s))
        + alloc_tasks_of (comp_taken s) + mset (map (\<lambda>(i, j). KvDecomp i j) (comp_taken s))
        + mset (map WAlloc [w + 1..nl - 1]) + mset (map WRead [w + 1..nl - 1]))"

lemma total_init_nonneg:
  assumes "cursors_ok (kv st)" "states_ok (kv st)" "0 \<le> i" "i < num_layers (kv st)"
  shows "total_init st i = int (nat (total_init st i))"
  using init_counts(2) [OF assms] by (simp add: total_init_def)

lemma initialize_layer_sync_ok:
  assumes "cursors_ok (kv st)" "states_ok (kv st)" "core_num_layers st = num_layers (kv st)"
  obtains cl where "initialize_layer_sync st = Ok (st\<lparr>
      decomp_num_chunks := int (length (comp_taken (kv st))), load_num_chunks := int (length (store_taken (kv st))),
      kv := (kv st)\<lparr>comp_left := cl\<rparr>,
      syncs := map (\<lambda>i. sync_after (nat (total_init st i)) 0) [0..num_layers (kv st) - 1],
      kv_alloc_done := (\<lambda>_. None), weight_alloc_done := (\<lambda>_. None)\<rparr>)"
    "\<forall>i. 0 \<le> i \<and> i < num_layers (kv st) \<longrightarrow> cl i = compress_init (kv st) i"
proof -
  let ?nl = "num_layers (kv st)"
  have nl: "0 \<le> ?nl" using assms(1) plan_okD(1) [of "kv st"] by (simp add: cursors_ok_def)
  define st0 where "st0 = st\<lparr>decomp_num_chunks := 0, load_num_chunks := 0, kv_alloc_done := (\<lambda>_. None),
           weight_alloc_done := (\<lambda>_. None), syncs := []\<rparr>"
  have t: "total_init st0 = total_init st" "kv st0 = kv st" by (simp_all add: st0_def total_init_def fun_eq_iff)
  have "\<exists>cl. layer_sync_loop (nat ?nl) 0 st0 = Ok (st0\<lparr>
      decomp_num_chunks := decomp_num_chunks st0 + (\<Sum>j\<in>{0..<0 + int (nat ?nl)}. compress_init (kv st0) j),
      load_num_chunks := load_num_chunks st0 + (\<Sum>j\<in>{0..<0 + int (nat ?nl)}. store_init (kv st0) j),
      kv := (kv st0)\<lparr>comp_left := cl\<rparr>,
      syncs := syncs st0 @ map (\<lambda>j. sync_after (nat (total_init st j)) 0) [0..0 + int (nat ?nl) - 1]\<rparr>) \<and>
    (\<forall>j. cl j = (if 0 \<le> j \<and> j < 0 + int (nat ?nl) then compress_init (kv st0) j else comp_left (kv st0) j))"
    by (rule layer_sync_loop_ok, unfold t, rule total_init_nonneg [OF assms(1,2)]) (simp_all add: nl)
  then obtain cl where "layer_sync_loop (nat ?nl) 0 st0 = Ok (st0\<lparr>
      decomp_num_chunks := decomp_num_chunks st0 + (\<Sum>j\<in>{0..<?nl}. compress_init (kv st) j),
      load_num_chunks := load_num_chunks st0 + (\<Sum>j\<in>{0..<?nl}. store_init (kv st) j),
      kv := (kv st)\<lparr>comp_left := cl\<rparr>,
      syncs := syncs st0 @ map (\<lambda>j. sync_after (nat (total_init st j)) 0) [0..?nl - 1]\<rparr>)"
    "\<forall>j. cl j = (if 0 \<le> j \<and> j < ?nl then compress_init (kv st) j else comp_left (kv st) j)"
    using nl unfolding t by auto
  then show thesis
    by (intro that [of cl]) (simp_all add: initialize_layer_sync_def assms(3) st0_def [symmetric]
        init_totals [OF assms(1,2)], simp add: st0_def)
qed

lemma kv_inv_comp_left: "kv_inv cd s \<Longrightarrow> kv_inv cd (s\<lparr>comp_left := cl\<rparr>)"
proof (rule kv_inv_same [of cd s])
  let ?t = "s\<lparr>comp_left := cl\<rparr>"
  assume inv: "kv_inv cd s"
  then have i: "cursors_ok s" "arenas_ok s" "fds_ok s" by (simp_all add: kv_inv_def)
  show sd: "same_data s ?t" unfolding same_data_def by (intro conjI layer_pools_cong) simp_all
  show "cursors_ok ?t" using i(1) same_dataD(3) [OF sd] by (simp add: cursors_ok_def)
  have "arenas_ok ?t = arenas_ok s" by (simp add: arenas_ok_def)
  with i(2) show "arenas_ok ?t" by simp
  show "fds_ok ?t" using i(3) by (simp add: fds_ok_def)
qed simp_all

lemma open_first_ok:
  assumes "s_cursor (kv st) (cur_layer_idx_to_store (kv st)) (cur_chunk_idx_to_store (kv st))" "io_reads env"
    and "\<forall>l. layer_fds (kv st) l = Closed"
  obtains f where "open_first env st = Ok (st\<lparr>kv := (kv st)\<lparr>layer_fds := f\<rparr>\<rparr>)" "\<forall>x. f x \<noteq> WrOnly" "same_outside (num_layers (kv st)) (layer_fds (kv st)) f"
    "cur_chunk_idx_to_store (kv st) + 1 < num_chunks_per_tensor (kv st) \<longrightarrow> f (cur_layer_idx_to_store (kv st)) = RdOnly"
proof (cases "cur_chunk_idx_to_store (kv st) < num_chunks_per_tensor (kv st) - 1")
  case True
  with assms that [of "(layer_fds (kv st))(cur_layer_idx_to_store (kv st) := RdOnly)"] show thesis
    by (simp add: open_first_def open_kv_file_def io_reads_def cursor_ok_def same_outside_def)
next
  case False
  with assms that [of "layer_fds (kv st)"] show thesis by (simp add: open_first_def same_outside_def)
qed

lemma load_all_ok:
  assumes pl: "plan_ok (kv st)" and sc: "s_cursor (kv st) (cur_layer_idx_to_store (kv st)) (cur_chunk_idx_to_store (kv st))"
    and fds: "\<forall>l. layer_fds (kv st) l = Closed" and pg: "pool_good (pool_of st)" and io: "io_reads env"
  obtains l c f p st' where
    "bind_result (open_first env st) (load_loop env True (length (store_taken (kv st)))) = Ok st'"
    "st' = st\<lparr>kv := (kv st)\<lparr>cur_layer_idx_to_store := l, cur_chunk_idx_to_store := c, layer_fds := f\<rparr>,
      kv_alloc_done := futures (store_taken (kv st)) (kv_alloc_done st), pool_of := p\<rparr>"
    "s_cursor (kv st) l c" "s_taken (kv st) l c = []" "pool_good p"
    "pool_pending p = pending st + alloc_tasks_of (store_taken (kv st)) + mset (map (\<lambda>(i, j). KvRead i j) (store_taken (kv st)))"
    "\<forall>(i, j)\<in>set (store_taken (kv st)). f i = RdOnly" "same_outside (num_layers (kv st)) (layer_fds (kv st)) f"
proof -
  let ?s = "kv st" and ?n = "length (store_taken (kv st))"
  obtain f1 where o: "open_first env st = Ok (st\<lparr>kv := ?s\<lparr>layer_fds := f1\<rparr>\<rparr>)" "\<forall>x. f1 x \<noteq> WrOnly" "same_outside (num_layers ?s) (layer_fds ?s) f1"
    "cur_chunk_idx_to_store ?s + 1 < num_chunks_per_tensor ?s \<longrightarrow> f1 (cur_layer_idx_to_store ?s) = RdOnly"
    by (rule open_first_ok [OF sc io fds])
  define st2 where "st2 = st\<lparr>kv := ?s\<lparr>layer_fds := f1\<rparr>\<rparr>"
  have p2: "plan_ok (kv st2)" using pl plan_ok_cong [of "kv st2" ?s] by (simp add: st2_def)
  have "\<exists>l c f p. load_loop env True ?n st2 = Ok (st2\<lparr>
      kv := (kv st2)\<lparr>cur_layer_idx_to_store := l, cur_chunk_idx_to_store := c, layer_fds := f\<rparr>,
      kv_alloc_done := futures (take ?n (store_taken (kv st2))) (kv_alloc_done st2), pool_of := p\<rparr>) \<and>
    s_cursor (kv st2) l c \<and> s_taken (kv st2) l c = drop ?n (store_taken (kv st2)) \<and> pool_good p \<and>
    pool_pending p = pending st2 + alloc_tasks_of (take ?n (store_taken (kv st2)))
      + mset (map (\<lambda>(i, j). KvRead i j) (take ?n (store_taken (kv st2)))) \<and>
    same_outside (num_layers (kv st2)) (layer_fds (kv st2)) f \<and>
    (\<forall>x. layer_fds (kv st2) x = RdOnly \<longrightarrow> f x = RdOnly) \<and>
    (\<forall>(i, j)\<in>set (take ?n (store_taken (kv st2))). f i = RdOnly)"
    by (rule load_loop_ok [OF p2]) (use sc pg io o in \<open>simp_all add: st2_def\<close>)
  then obtain l c f p where ld: "load_loop env True ?n st2 = Ok (st\<lparr>
      kv := ?s\<lparr>cur_layer_idx_to_store := l, cur_chunk_idx_to_store := c, layer_fds := f\<rparr>,
      kv_alloc_done := futures (store_taken ?s) (kv_alloc_done st), pool_of := p\<rparr>)"
    "s_cursor ?s l c" "s_taken ?s l c = []" "pool_good p"
    "pool_pending p = pending st + alloc_tasks_of (store_taken ?s) + mset (map (\<lambda>(i, j). KvRead i j) (store_taken ?s))"
    "\<forall>(i, j)\<in>set (store_taken ?s). f i = RdOnly" "same_outside (num_layers ?s) f1 f"
    by (auto simp: st2_def)
  show thesis by (rule that [OF _ refl ld(2-6)])
    (use o(1,3) ld(1,7) in \<open>simp_all add: st2_def same_outside_def\<close>)
qed

lemma enqueue_all_ok:
  assumes pl: "plan_ok (kv st)" and sc: "s_cursor (kv st) (cur_layer_idx_to_store (kv st)) (cur_chunk_idx_to_store (kv st))"
    and cc: "c_cursor (kv st) (cur_layer_idx_to_compress (kv st)) (cur_chunk_idx_to_compress (kv st))"
    and fds: "\<forall>l. layer_fds (kv st) l = Closed" and pg: "pool_good (pool_of st)" and io: "io_reads env"
  obtains l c f l' c' p st' where
    "mzcache_enqueue_decomp_load_chunks env (int (length (comp_taken (kv st)))) (int (length (store_taken (kv st)))) st = Ok st'"
    "st' = st\<lparr>kv := (kv st)\<lparr>cur_layer_idx_to_store := l, cur_chunk_idx_to_store := c, layer_fds := f,
        cur_layer_idx_to_compress := l', cur_chunk_idx_to_compress := c'\<rparr>,
      kv_alloc_done := futures (comp_taken (kv st)) (futures (store_taken (kv st)) (kv_alloc_done st)), pool_of := p\<rparr>"
    "s_cursor (kv st) l c" "s_taken (kv st) l c = []" "c_cursor (kv st) l' c'" "c_taken (kv st) l' c' = []" "pool_good p"
    "pool_pending p = pending st + alloc_tasks_of (store_taken (kv st)) + mset (map (\<lambda>(i, j). KvRead i j) (store_taken (kv st)))
       + alloc_tasks_of (comp_taken (kv st)) + mset (map (\<lambda>(i, j). KvDecomp i j) (comp_taken (kv st)))"
    "\<forall>(i, j)\<in>set (store_taken (kv st)). f i = RdOnly" "same_outside (num_layers (kv st)) (layer_fds (kv st)) f"
proof -
  let ?s = "kv st" and ?n = "length (comp_taken (kv st))"
  obtain l c f p3 st3 where ld:
    "bind_result (open_first env st) (load_loop env True (length (store_taken ?s))) = Ok st3"
    "st3 = st\<lparr>kv := ?s\<lparr>cur_layer_idx_to_store := l, cur_chunk_idx_to_store := c, layer_fds := f\<rparr>,
      kv_alloc_done := futures (store_taken ?s) (kv_alloc_done st), pool_of := p3\<rparr>"
    "s_cursor ?s l c" "s_taken ?s l c = []" "pool_good p3"
    "pool_pending p3 = pending st + alloc_tasks_of (store_taken ?s) + mset (map (\<lambda>(i, j). KvRead i j) (store_taken ?s))"
    "\<forall>(i, j)\<in>set (store_taken ?s). f i = RdOnly" "same_outside (num_layers ?s) (layer_fds ?s) f"
    by (rule load_all_ok [OF pl sc fds pg io])
  have p3: "plan_ok (kv st3)" using pl plan_ok_cong [of "kv st3" ?s] by (simp add: ld(2))
  have "\<exists>l c p. decomp_loop True ?n st3 = Ok (st3\<lparr>
      kv := (kv st3)\<lparr>cur_layer_idx_to_compress := l, cur_chunk_idx_to_compress := c\<rparr>,
      kv_alloc_done := futures (take ?n (comp_taken (kv st3))) (kv_alloc_done st3), pool_of := p\<rparr>, True) \<and>
    c_cursor (kv st3) l c \<and> c_taken (kv st3) l c = drop ?n (comp_taken (kv st3)) \<and> pool_good p \<and>
    pool_pending p = pending st3 + alloc_tasks_of (take ?n (comp_taken (kv st3)))
      + mset (map (\<lambda>(i, j). KvDecomp i j) (take ?n (comp_taken (kv st3))))"
    by (rule decomp_loop_ok [OF p3]) (use cc ld(5) in \<open>simp_all add: ld(2)\<close>)
  then obtain l' c' p where dc: "decomp_loop True ?n st3 = Ok (st\<lparr>
      kv := ?s\<lparr>cur_layer_idx_to_store := l, cur_chunk_idx_to_store := c, layer_fds := f,
        cur_layer_idx_to_compress := l', cur_chunk_idx_to_compress := c'\<rparr>,
      kv_alloc_done := futures (comp_taken ?s) (futures (store_taken ?s) (kv_alloc_done st)), pool_of := p\<rparr>, True)"
    "c_cursor ?s l' c'" "c_taken ?s l' c' = []" "pool_good p"
    "pool_pending p = pool_pending p3 + alloc_tasks_of (comp_taken ?s) + mset (map (\<lambda>(i, j). KvDecomp i j) (comp_taken ?s))"
    by (auto simp: ld(2))
  show thesis
  proof (rule that [OF _ refl ld(3,4) dc(2-4) _ ld(7,8)])
    from ld(1) dc(1) show "mzcache_enqueue_decomp_load_chunks env (int ?n) (int (length (store_taken ?s))) st = Ok (st\<lparr>
      kv := ?s\<lparr>cur_layer_idx_to_store := l, cur_chunk_idx_to_store := c, layer_fds := f,
        cur_layer_idx_to_compress := l', cur_chunk_idx_to_compress := c'\<rparr>,
      kv_alloc_done := futures (comp_taken ?s) (futures (store_taken ?s) (kv_alloc_done st)), pool_of := p\<rparr>)"
      by (auto simp: mzcache_enqueue_decomp_load_chunks_def bind_result_Ok_iff)
  qed (simp add: dc(5) ld(6))
qed

lemma arenas_ok_resident:
  assumes "arenas_ok s" "next_layer_to_offload s = num_layers s - 1"
    and "num_layers t = num_layers s" "arenas t = arenas s" "arena_bytes t = arena_bytes s"
      "next_layer_to_offload t = next_layer_to_offload s"
  shows "arenas_ok t"
proof -
  have "\<forall>a\<in>set (arenas s i). cap a = arena_bytes s \<and> arena_top a \<le> arena_bytes s" if "0 \<le> i" "i < num_layers s" for i
    using arenas_okD(4) [OF assms(1) that] that assms(2) by simp
  then show ?thesis
    unfolding arenas_ok_def using assms(2-) arenas_okD(1,2) [OF assms(1)] by auto
qed

lemma swapin_begin_ok:
  assumes idle: "core_idle cd orig st" and io: "io_reads env" "io_reload env"
  shows "\<exists>st'. swapin_begin env st = Ok st' \<and> begun st st'"
proof -
  let ?s = "kv st" and ?w = "cur_layer_idx_to_unload (wt st)"
  have inv: "kv_inv cd ?s" and nl: "core_num_layers st = num_layers ?s" "w_num_layers (wt st) = num_layers ?s"
    and fds: "\<forall>l. layer_fds ?s l = Closed" and pg: "pool_good (pool_of st)" and pe: "pending st = {#}"
    and wi: "weight_inv orig (wt st)" using idle by (auto simp: core_idle_def)
  have c: "cursors_ok ?s" "states_ok ?s" using inv by (auto simp: kv_inv_def)
  obtain cl where init: "initialize_layer_sync st = Ok (st\<lparr>
      decomp_num_chunks := int (length (comp_taken ?s)), load_num_chunks := int (length (store_taken ?s)),
      kv := ?s\<lparr>comp_left := cl\<rparr>,
      syncs := map (\<lambda>i. sync_after (nat (total_init st i)) 0) [0..num_layers ?s - 1],
      kv_alloc_done := (\<lambda>_. None), weight_alloc_done := (\<lambda>_. None)\<rparr>)"
    "\<forall>i. 0 \<le> i \<and> i < num_layers ?s \<longrightarrow> cl i = compress_init ?s i"
    by (rule initialize_layer_sync_ok [OF c nl(1)])
  define s1 where "s1 = mzcache_reload_all_arenas env (?s\<lparr>comp_left := cl\<rparr>)"
  note r = reload_all_inv [OF kv_inv_comp_left [OF inv] io(2) s1_def]
  then obtain as f nx b where s1: "s1 = ?s\<lparr>comp_left := cl, arenas := as, swap_file := f,
      next_layer_to_offload := nx, n_cur_arena_offload_bytes := b\<rparr>" by auto
  define st1 where "st1 = st\<lparr>decomp_num_chunks := int (length (comp_taken ?s)),
      load_num_chunks := int (length (store_taken ?s)),
      syncs := map (\<lambda>i. sync_after (nat (total_init st i)) 0) [0..num_layers ?s - 1],
      kv_alloc_done := (\<lambda>_. None), weight_alloc_done := (\<lambda>_. None), kv := s1\<rparr>"
  have k1: "kv st1 = s1" "pool_of st1 = pool_of st" "kv_alloc_done st1 = (\<lambda>_. None)" by (simp_all add: st1_def)
  have tk: "comp_taken s1 = comp_taken ?s" "store_taken s1 = store_taken ?s" by (simp_all add: s1)
  have pl1: "plan_ok s1" and fd1: "\<forall>l. layer_fds s1 l = Closed"
    and sc1: "s_cursor s1 (cur_layer_idx_to_store s1) (cur_chunk_idx_to_store s1)"
    and cc1: "c_cursor s1 (cur_layer_idx_to_compress s1) (cur_chunk_idx_to_compress s1)"
    using r(1) fds by (simp_all add: kv_inv_def cursors_ok_def) (simp add: s1)
  obtain l cx f1 l' c' p st2 where en:
    "mzcache_enqueue_decomp_load_chunks env (int (length (comp_taken s1))) (int (length (store_taken s1))) st1 = Ok st2"
    "st2 = st1\<lparr>kv := s1\<lparr>cur_layer_idx_to_store := l, cur_chunk_idx_to_store := cx, layer_fds := f1,
        cur_layer_idx_to_compress := l', cur_chunk_idx_to_compress := c'\<rparr>,
      kv_alloc_done := futures (comp_taken s1) (futures (store_taken s1) (\<lambda>_. None)), pool_of := p\<rparr>"
    "s_cursor s1 l cx" "s_taken s1 l cx = []" "c_cursor s1 l' c'" "c_taken s1 l' c' = []" "pool_good p"
    "pool_pending p = pending st + alloc_tasks_of (store_taken s1) + mset (map (\<lambda>(i, j). KvRead i j) (store_taken s1))
       + alloc_tasks_of (comp_taken s1) + mset (map (\<lambda>(i, j). KvDecomp i j) (comp_taken s1))"
    "\<forall>(i, j)\<in>set (store_taken s1). f1 i = RdOnly" "same_outside (num_layers s1) (layer_fds s1) f1"
    by (rule enqueue_all_ok [of st1 env, unfolded k1, OF pl1 sc1 cc1 fd1 pg io(1)])
  define k where "k = nat (num_layers ?s - (?w + 1))"
  have kw: "?w + 1 + int k = num_layers ?s" using wi nl(2) by (simp add: weight_inv_def k_def)
  have wt2: "wt st2 = wt st" by (simp add: en(2) st1_def)
  obtain p' where w: "reload_w_loop k (?w + 1) st2 = Ok (st2\<lparr>
      weight_alloc_done := (\<lambda>i. if ?w + 1 \<le> i \<and> i < num_layers ?s then Some False else weight_alloc_done st2 i),
      pool_of := p'\<rparr>)" "pool_good p'"
    "pool_pending p' = pool_pending p + mset (map WAlloc [?w + 1..num_layers ?s - 1]) + mset (map WRead [?w + 1..num_layers ?s - 1])"
    using reload_w_loop_ok [of st2 k "?w + 1"] en(2,7) unfolding kw by auto
  define st' where "st' = reset_unload_cursor (st2\<lparr>
      weight_alloc_done := (\<lambda>i. if ?w + 1 \<le> i \<and> i < num_layers ?s then Some False else weight_alloc_done st2 i),
      pool_of := p'\<rparr>)"
  have "mzcache_reload_w_layers st2 = Ok st'"
    using w(1) by (simp add: mzcache_reload_w_layers_def wt2 nl(2) k_def st'_def)
  then have run: "swapin_begin env st = Ok st'"
    using init(1) en(1) by (simp add: swapin_begin_def s1_def [symmetric] st1_def tk)
  have ks: "kv st' = s1\<lparr>cur_layer_idx_to_store := l, cur_chunk_idx_to_store := cx, layer_fds := f1,
        cur_layer_idx_to_compress := l', cur_chunk_idx_to_compress := c'\<rparr>"
    by (simp add: st'_def reset_unload_cursor_def en(2))
  have "layer_pools (?s\<lparr>comp_left := cl\<rparr>) = layer_pools ?s" by (intro layer_pools_cong) simp_all
  then have sd1: "same_data ?s s1" using r(2) by (simp add: same_data_def)
  have lp: "layer_pools (kv st') = layer_pools s1" by (intro layer_pools_cong) (simp_all add: ks)
  have sd: "same_data ?s (kv st')" using sd1 unfolding same_data_def lp by (simp add: ks)
  have "arenas_ok s1" using r(1) by (simp add: kv_inv_def)
  then have ar: "arenas_ok (kv st')"
    by (rule arenas_ok_resident) (use r(3) in \<open>simp_all add: ks, simp_all add: s1\<close>)
  have sel: "syncs st' = map (\<lambda>i. sync_after (nat (total_init st i)) 0) [0..num_layers ?s - 1]"
    "decomp_num_chunks st' = int (length (comp_taken ?s))" "load_num_chunks st' = int (length (store_taken ?s))"
    "core_num_layers st' = core_num_layers st" "core_num_chunks st' = core_num_chunks st"
    "w_num_layers (wt st') = w_num_layers (wt st)" "w_buf (wt st') = w_buf (wt st)" "w_dump (wt st') = w_dump (wt st)"
    "kv_alloc_done st' = futures (comp_taken ?s) (futures (store_taken ?s) (\<lambda>_. None))"
    "weight_alloc_done st' = (\<lambda>i. if ?w + 1 \<le> i \<and> i < num_layers ?s then Some False else None)"
    "pool_of st' = p'"
    by (simp_all add: st'_def reset_unload_cursor_def en(2) st1_def tk fun_eq_iff)
  have cur: "s_cursor ?s l cx" "s_taken ?s l cx = []" "c_cursor ?s l' c'" "c_taken ?s l' c' = []"
    using en(3-6) by (simp_all add: s1)
  have "begun st st'"
    unfolding begun_def Let_def
  proof (intro conjI allI impI)
    show "layer_fds (kv st') i = RdOnly" if "(i, j) \<in> set (store_taken ?s)" for i j
      using that en(9) by (auto simp: ks tk)
    show "same_outside (num_layers ?s) (\<lambda>_. Closed) (layer_fds (kv st'))"
      using en(10) fd1 by (simp add: ks same_outside_def) (simp add: s1)
    show "pending st' = alloc_tasks_of (store_taken ?s) + mset (map (\<lambda>(i, j). KvRead i j) (store_taken ?s))
        + alloc_tasks_of (comp_taken ?s) + mset (map (\<lambda>(i, j). KvDecomp i j) (comp_taken ?s))
        + mset (map WAlloc [?w + 1..num_layers ?s - 1]) + mset (map WRead [?w + 1..num_layers ?s - 1])"
      by (simp add: sel w(3) en(8) pe tk)
    show "comp_left (kv st') i = compress_init ?s i" if "0 \<le> i \<and> i < num_layers ?s" for i
      using that init(2) by (simp add: ks s1)
    show "plan_frame ?s (kv st')" by (simp add: plan_frame_def ks s1)
    show "next_layer_to_offload (kv st') = num_layers ?s - 1" using r(3) by (simp add: ks)
  qed (use sd ar cur w(2) sel in \<open>simp_all add: ks\<close>, simp_all add: s1)
  with run show ?thesis by blast
qed

subsection \<open>Counting tasks\<close>

lemma count_map_inj:
  assumes "inj f" "distinct xs"
  shows "count (mset (map f xs)) (f x) = (if x \<in> set xs then 1 else 0)"
  using assms(2) by (induction xs) (use assms(1) in \<open>auto simp: inj_eq\<close>)

lemma count_map_other: "y \<notin> range f \<Longrightarrow> count (mset (map f xs)) y = 0"
  by (induction xs) auto

lemma inj_tasks: "inj (\<lambda>(i, j). KvAlloc i j)" "inj (\<lambda>(i, j). KvRead i j)" "inj (\<lambda>(i, j). KvDecomp i j)"
  "inj WAlloc" "inj WRead"
  by (auto simp: inj_def)

lemma count_chunk_tasks:
  assumes "distinct xs"
  shows "count (alloc_tasks_of xs) (KvAlloc i j) = (if (i, j) \<in> set xs then 1 else 0)"
    "count (mset (map (\<lambda>(i, j). KvRead i j) xs)) (KvRead i j) = (if (i, j) \<in> set xs then 1 else 0)"
    "count (mset (map (\<lambda>(i, j). KvDecomp i j) xs)) (KvDecomp i j) = (if (i, j) \<in> set xs then 1 else 0)"
  using count_map_inj [OF inj_tasks(1) assms, of "(i, j)"] count_map_inj [OF inj_tasks(2) assms, of "(i, j)"]
    count_map_inj [OF inj_tasks(3) assms, of "(i, j)"] by (simp_all add: alloc_tasks_of_def)

lemma count_w_tasks:
  "count (mset (map WAlloc [a..b])) (WAlloc i) = (if a \<le> i \<and> i \<le> b then 1 else 0)"
  "count (mset (map WRead [a..b])) (WRead i) = (if a \<le> i \<and> i \<le> b then 1 else 0)"
  using count_map_inj [OF inj_tasks(4), of "[a..b]" i] count_map_inj [OF inj_tasks(5), of "[a..b]" i] by simp_all

lemma count_other_tasks:
  "(\<And>i j. y \<noteq> KvAlloc i j) \<Longrightarrow> count (alloc_tasks_of xs) y = 0"
  "(\<And>i j. y \<noteq> KvRead i j) \<Longrightarrow> count (mset (map (\<lambda>(i, j). KvRead i j) xs)) y = 0"
  "(\<And>i j. y \<noteq> KvDecomp i j) \<Longrightarrow> count (mset (map (\<lambda>(i, j). KvDecomp i j) xs)) y = 0"
  "(\<And>i. y \<noteq> WAlloc i) \<Longrightarrow> count (mset (map WAlloc ls)) y = 0"
  "(\<And>i. y \<noteq> WRead i) \<Longrightarrow> count (mset (map WRead ls)) y = 0"
  unfolding alloc_tasks_of_def by (rule count_map_other; auto)+

lemma begun_counts:
  assumes "begun st st'"
  shows "count (pending st') (KvAlloc i j) =
      (if (i, j) \<in> set (store_taken (kv st)) then 1 else 0) + (if (i, j) \<in> set (comp_taken (kv st)) then 1 else 0)"
    "count (pending st') (KvRead i j) = (if (i, j) \<in> set (store_taken (kv st)) then 1 else 0)"
    "count (pending st') (KvDecomp i j) = (if (i, j) \<in> set (comp_taken (kv st)) then 1 else 0)"
    "count (pending st') (WAlloc i) = (if cur_layer_idx_to_unload (wt st) + 1 \<le> i \<and> i < num_layers (kv st) then 1 else 0)"
    "count (pending st') (WRead i) = (if cur_layer_idx_to_unload (wt st) + 1 \<le> i \<and> i < num_layers (kv st) then 1 else 0)"
    "count (pending st') (FreeArenas i) = 0"
proof -
  let ?w = "cur_layer_idx_to_unload (wt st)" and ?nl = "num_layers (kv st)"
  have p: "pending st' = alloc_tasks_of (store_taken (kv st)) + mset (map (\<lambda>(i, j). KvRead i j) (store_taken (kv st)))
        + alloc_tasks_of (comp_taken (kv st)) + mset (map (\<lambda>(i, j). KvDecomp i j) (comp_taken (kv st)))
        + mset (map WAlloc [?w + 1..?nl - 1]) + mset (map WRead [?w + 1..?nl - 1])"
    using assms unfolding begun_def Let_def by blast
  show "count (pending st') (KvAlloc i j) =
      (if (i, j) \<in> set (store_taken (kv st)) then 1 else 0) + (if (i, j) \<in> set (comp_taken (kv st)) then 1 else 0)"
    "count (pending st') (KvRead i j) = (if (i, j) \<in> set (store_taken (kv st)) then 1 else 0)"
    "count (pending st') (KvDecomp i j) = (if (i, j) \<in> set (comp_taken (kv st)) then 1 else 0)"
    "count (pending st') (WAlloc i) = (if ?w + 1 \<le> i \<and> i < ?nl then 1 else 0)"
    "count (pending st') (WRead i) = (if ?w + 1 \<le> i \<and> i < ?nl then 1 else 0)"
    "count (pending st') (FreeArenas i) = 0"
    unfolding p count_union
    by (simp_all only: count_chunk_tasks [OF distinct_taken] count_w_tasks count_other_tasks task.distinct
        not_False_eq_True add_0_left add_0_right zle_diff1_eq)
qed

end
