(* ===== verification/Swapin_Cycle.thy ===== *)
theory Swapin_Cycle
  imports Swapin_Begin
begin

text \<open>
  A whole swap-in: the sequential part establishes the invariant of the concurrent phase, and the end of
  the cycle leaves a core at rest in which every chunk and every weight layer is resident again.
\<close>

subsection \<open>The invariant of the concurrent phase holds at its start\<close>

lemma begunD:
  assumes "begun st st'"
  shows "same_data (kv st) (kv st')" "next_layer_to_offload (kv st') = num_layers (kv st) - 1"
    "plan_frame (kv st) (kv st')"
    "n_cur_comp_chunks (kv st') = n_cur_comp_chunks (kv st)" "n_cur_store_chunks (kv st') = n_cur_store_chunks (kv st)"
    "0 \<le> i \<Longrightarrow> i < num_layers (kv st) \<Longrightarrow> comp_left (kv st') i = compress_init (kv st) i"
    "(i, j) \<in> set (store_taken (kv st)) \<Longrightarrow> layer_fds (kv st') i = RdOnly"
    "arenas_ok (kv st')"
    "c_cursor (kv st) (cur_layer_idx_to_compress (kv st')) (cur_chunk_idx_to_compress (kv st'))"
    "comp_taken (kv st') = []"
    "s_cursor (kv st) (cur_layer_idx_to_store (kv st')) (cur_chunk_idx_to_store (kv st'))"
    "store_taken (kv st') = []"
    "syncs st' = map (\<lambda>i. sync_after (nat (total_init st i)) 0) [0..num_layers (kv st) - 1]"
    "decomp_num_chunks st' = int (length (comp_taken (kv st)))" "load_num_chunks st' = int (length (store_taken (kv st)))"
    "core_num_layers st' = core_num_layers st"
    "kv_alloc_done st' = futures (comp_taken (kv st)) (futures (store_taken (kv st)) (\<lambda>_. None))"
    "weight_alloc_done st' = (\<lambda>i. if cur_layer_idx_to_unload (wt st) + 1 \<le> i \<and> i < num_layers (kv st) then Some False else None)"
    "w_num_layers (wt st') = w_num_layers (wt st)" "w_buf (wt st') = w_buf (wt st)" "w_dump (wt st') = w_dump (wt st)"
    "pool_good (pool_of st')" "same_outside (num_layers (kv st)) (\<lambda>_. Closed) (layer_fds (kv st'))"
    "core_num_chunks st' = core_num_chunks st" "pending_chunks_total (kv st') = pending_chunks_total (kv st)"
  using assms unfolding begun_def Let_def by blast+

lemma core_idleD:
  assumes "core_idle cd orig st"
  shows "kv_inv cd (kv st)" "weight_inv orig (wt st)" "core_num_layers st = num_layers (kv st)"
    "w_num_layers (wt st) = num_layers (kv st)" "layer_fds (kv st) l = Closed" "pool_good (pool_of st)" "pending st = {#}"
    "cursors_ok (kv st)" "states_ok (kv st)" "data_ok cd (kv st)" "addrs_ok (kv st)" "plan_ok (kv st)"
  using assms by (auto simp: core_idle_def kv_inv_def cursors_ok_def)

lemma begun_states:
  assumes "core_idle cd orig st" "begun st st'" "chunk_ix (kv st) i j"
  shows "states (kv st') i j = Compressed \<longleftrightarrow> (i, j) \<in> set (comp_taken (kv st))"
    "states (kv st') i j = Stored \<longleftrightarrow> (i, j) \<in> set (store_taken (kv st))"
proof -
  note i = core_idleD [OF assms(1)]
  have "states (kv st') i j = expected_state (kv st) i j"
    using states_okD [OF i(9) assms(3)] begunD(1) [OF assms(2)] by (simp add: same_data_def)
  then show "states (kv st') i j = Compressed \<longleftrightarrow> (i, j) \<in> set (comp_taken (kv st))"
    "states (kv st') i j = Stored \<longleftrightarrow> (i, j) \<in> set (store_taken (kv st))"
    using taken_ix [OF i(8), of i j] by (auto simp: expected_state_def)
qed

lemma begun_tasks:
  assumes idle: "core_idle cd orig st" and b: "begun st st'"
  shows "tasks_inv st'"
proof -
  note i = core_idleD [OF idle] and d = begunD [OF b] and c = begun_counts [OF b] and s = begun_states [OF idle b]
  note ix = same_dataD(1) [OF d(1)] and t = taken_ix [OF i(8)]
  have fut: "kv_alloc_done st' (x, y) = (if (x, y) \<in> set (comp_taken (kv st)) \<union> set (store_taken (kv st)) then Some False else None)"
    for x y by (simp add: d(17) futures_def)
  have disj: "\<not> ((x, y) \<in> set (comp_taken (kv st)) \<and> (x, y) \<in> set (store_taken (kv st)))" for x y
    using t [of x y] by auto
  have raw: "states (kv st') x y \<noteq> Raw \<longleftrightarrow> (x, y) \<in> set (comp_taken (kv st)) \<union> set (store_taken (kv st))"
    if "chunk_ix (kv st) x y" for x y
    using s [OF that] by (cases "states (kv st') x y") auto
  have cl: "comp_left (kv st') x = int (card (compressed_in (kv st') x))" if "0 \<le> x" "x < num_layers (kv st')" for x
  proof -
    have "compressed_in (kv st') x = compressed_in (kv st) x" using d(1) by (simp add: same_data_def compressed_in_def)
    then show ?thesis using that d(1) d(6) [of x] init_counts(1) [OF i(8,9), of x] by (simp add: same_data_def)
  qed
  show ?thesis
    unfolding tasks_inv_def
  proof (intro conjI allI impI)
    fix x y
    show "count (pending st') (KvDecomp x y) = (if chunk_ix (kv st') x y \<and> states (kv st') x y = Compressed then 1 else 0)"
      using s(1) [of x y] t(1) [of x y] by (auto simp: c ix)
    show "count (pending st') (KvRead x y) = (if chunk_ix (kv st') x y \<and> states (kv st') x y = Stored then 1 else 0)"
      using s(2) [of x y] t(2) [of x y] by (auto simp: c ix)
    show "count (pending st') (KvAlloc x y) = (if kv_alloc_done st' (x, y) = Some False then 1 else 0)"
      using disj [of x y] by (auto simp: c fut)
    show "chunk_ix (kv st') x y" if "kv_alloc_done st' (x, y) \<noteq> None"
      using that t [of x y] by (auto simp: ix fut split: if_splits)
    show "kv_alloc_done st' (x, y) \<noteq> None" if "chunk_ix (kv st') x y \<and> states (kv st') x y \<noteq> Raw"
      using that raw [of x y] by (auto simp: ix fut)
    show "states (kv st') x y \<noteq> Raw" if "kv_alloc_done st' (x, y) = Some False"
      using that t [of x y] raw [of x y] by (auto simp: fut split: if_splits)
    show "compressed_in (kv st') x = {}" if "FreeArenas x \<in># pending st'"
      using that c(6) [of x] by (simp add: not_in_iff [symmetric])
  qed (use cl in auto)
qed

lemma begun_sync:
  assumes idle: "core_idle cd orig st" and b: "begun st st'"
  shows "sync_inv st'"
proof -
  note i = core_idleD [OF idle] and d = begunD [OF b] and c = begun_counts [OF b]
  let ?s = "kv st" and ?w = "cur_layer_idx_to_unload (wt st)"
  have nl: "num_layers (kv st') = num_layers ?s" using d(1) by (simp add: same_data_def)
  have "syncs st' ! nat k = \<lparr>remaining = int (left_count st' k), prom_set = (left_count st' k = 0)\<rparr>"
    if k: "0 \<le> k" "k < num_layers ?s" for k
  proof -
    have "unrestored (kv st') k = unrestored ?s k" using d(1) by (simp add: same_data_def unrestored_def)
    then have "int (left_count st' k) = total_init st k"
      using init_counts(2) [OF i(8,9) k] k by (simp add: left_count_def w_unread_def c(5) total_init_def)
    moreover have "syncs st' ! nat k = sync_after (nat (total_init st k)) 0"
      using k by (simp add: d(13))
    ultimately show ?thesis by (simp add: sync_after_def nat_int flip: \<open>int (left_count st' k) = total_init st k\<close>)
  qed
  then show ?thesis
    using plan_okD(1) [OF i(12)] by (simp add: sync_inv_def nl d(13,19) i(4))
qed

lemma begun_mem:
  assumes idle: "core_idle cd orig st" and b: "begun st st'"
  shows "mem_inv cd st'"
proof -
  note i = core_idleD [OF idle] and d = begunD [OF b] and s = begun_states [OF idle b]
  note ix = same_dataD(1) [OF d(1)]
  have nl: "num_layers (kv st') = num_layers (kv st)" "states (kv st') = states (kv st)" "raw_chunks (kv st') = raw_chunks (kv st)"
    using d(1) by (simp_all add: same_data_def)
  have ow: "owns st' x y \<longleftrightarrow> chunk_ix (kv st') x y \<and> states (kv st') x y = Raw" for x y
    by (auto simp: owns_def d(17) futures_def split: if_splits)
  have dat: "data_ok cd (kv st')" "addrs_ok (kv st')" using i(10,11) same_dataD(4,5) [OF d(1)] by simp_all
  have dd: "case states (kv st') x y of Raw \<Rightarrow> raw_ok (kv st') x y
      | Compressed \<Rightarrow> svm_chunk_ptrs (kv st') x y = None \<and> comp_ok cd (kv st') x y
      | Stored \<Rightarrow> svm_chunk_ptrs (kv st') x y = None \<and> stored_ok (kv st') x y" if "chunk_ix (kv st') x y" for x y
    using dat(1) that unfolding data_ok_def by blast
  show ?thesis
    unfolding mem_inv_def
  proof (intro conjI allI impI)
    show "raw_ok (kv st') x y" if "owns st' x y" for x y using that dd [of x y] by (auto simp: ow)
    have "x = x' \<and> y = y'" if "owns st' x y \<and> owns st' x' y' \<and> raw_chunks (kv st') x y = raw_chunks (kv st') x' y'"
      for x y x' y' using dat(2) that unfolding addrs_ok_def ow by blast
    then show "x = x'" "y = y'" if "owns st' x y \<and> owns st' x' y' \<and> raw_chunks (kv st') x y = raw_chunks (kv st') x' y'"
      for x y x' y' using that by blast+
    show "comp_ok cd (kv st') x y" if "chunk_ix (kv st') x y \<and> states (kv st') x y = Compressed" for x y
      using that dd [of x y] by auto
    show "stored_ok (kv st') x y" if "chunk_ix (kv st') x y \<and> states (kv st') x y = Stored" for x y
      using that dd [of x y] by auto
    show "layer_fds (kv st') x = RdOnly" if "chunk_ix (kv st') x y \<and> states (kv st') x y = Stored" for x y
      using that s(2) [of x y] d(7) [of x y] by (auto simp: ix)
  qed (simp add: nl d(2))
qed

lemma begun_weight:
  assumes idle: "core_idle cd orig st" and b: "begun st st'"
  shows "w_inv orig st'"
proof -
  note i = core_idleD [OF idle] and d = begunD [OF b] and c = begun_counts [OF b]
  let ?w = "cur_layer_idx_to_unload (wt st)"
  have nl: "num_layers (kv st') = num_layers (kv st)" using d(1) by (simp add: same_data_def)
  have w: "- 1 \<le> ?w" using i(2) by (simp add: weight_inv_def)
  have buf: "if x \<le> ?w then w_buf (wt st) x = Some (orig x) else w_buf (wt st) x = None \<and> w_dump (wt st) x = Some (orig x)"
    if "0 \<le> x" "x < num_layers (kv st)" for x
    using i(2) that unfolding weight_inv_def i(4) by blast
  have mem: "WRead x \<in># pending st' \<longleftrightarrow> ?w + 1 \<le> x \<and> x < num_layers (kv st)" for x
    unfolding pending_in_count c(5) by simp
  show ?thesis
    unfolding w_inv_def mem c(4,5) d(18,20,21) nl
  proof (intro allI conjI impI)
    fix x
    show "w_dump (wt st) x = Some (orig x)" if "?w + 1 \<le> x \<and> x < num_layers (kv st)"
      using that w buf [of x] by auto
    show "w_buf (wt st) x = Some (orig x)"
      if "0 \<le> x \<and> x < num_layers (kv st) \<and> \<not> (?w + 1 \<le> x \<and> x < num_layers (kv st))"
      using that buf [of x] by auto
  qed (use w in \<open>auto split: if_splits\<close>)
qed

lemma begun_inv:
  assumes "core_idle cd orig st" "begun st st'"
  shows "sw_inv cd (chunk_view cd (kv st)) orig st'" "routed (pool_of st')"
proof -
  note i = core_idleD [OF assms(1)] and d = begunD [OF assms(2)]
  have "pool_ok st'" "routed (pool_of st')" using d(22) by (simp_all add: pool_good_iff)
  then show "sw_inv cd (chunk_view cd (kv st)) orig st'" "routed (pool_of st')"
    using i(12) same_dataD(2,3) [OF d(1)] begun_tasks [OF assms] begun_sync [OF assms] begun_mem [OF assms]
      begun_weight [OF assms] by (simp_all add: sw_inv_def)
qed

subsection \<open>What the workers leave alone\<close>

definition cycle_frame :: "'m core \<Rightarrow> 'm core \<Rightarrow> bool" where
  "cycle_frame st st' \<longleftrightarrow>
     plan_frame (kv st) (kv st') \<and>
     cur_layer_idx_to_compress (kv st') = cur_layer_idx_to_compress (kv st) \<and>
     cur_chunk_idx_to_compress (kv st') = cur_chunk_idx_to_compress (kv st) \<and>
     cur_layer_idx_to_store (kv st') = cur_layer_idx_to_store (kv st) \<and>
     cur_chunk_idx_to_store (kv st') = cur_chunk_idx_to_store (kv st) \<and>
     n_cur_comp_chunks (kv st') = n_cur_comp_chunks (kv st) \<and> n_cur_store_chunks (kv st') = n_cur_store_chunks (kv st) \<and>
     next_layer_to_offload (kv st') = next_layer_to_offload (kv st) \<and> layer_fds (kv st') = layer_fds (kv st) \<and>
     (\<forall>i. arenas (kv st') i = arenas (kv st) i \<or> arenas (kv st') i = []) \<and>
     core_num_layers st' = core_num_layers st \<and> decomp_num_chunks st' = decomp_num_chunks st \<and>
     load_num_chunks st' = load_num_chunks st \<and> w_num_layers (wt st') = w_num_layers (wt st) \<and>
     w_dump (wt st') = w_dump (wt st) \<and> core_num_chunks st' = core_num_chunks st \<and>
     pending_chunks_total (kv st') = pending_chunks_total (kv st)"

lemma cycle_frame_refl: "cycle_frame st st"
  by (simp add: cycle_frame_def)

lemma cycle_frame_trans:
  assumes "cycle_frame st st'" "cycle_frame st' st''"
  shows "cycle_frame st st''"
proof -
  have "arenas (kv st'') i = arenas (kv st) i \<or> arenas (kv st'') i = []" for i
    using assms unfolding cycle_frame_def by metis
  with assms show ?thesis unfolding cycle_frame_def plan_frame_def by simp
qed

lemma layer_task_done_frame: "layer_task_done nl L st = Ok st' \<Longrightarrow> \<exists>ys. st' = st\<lparr>syncs := ys\<rparr>"
  by (auto simp: layer_task_done_def bind_result_Ok_iff intro: exI [of _ "syncs st"] split: if_splits)

lemma kv_read_worker_frame: "kv_read_worker env L C st = Ok st' \<Longrightarrow> cycle_frame st st'"
  by (auto simp: kv_read_worker_def Let_def bind_result_Ok_iff cycle_frame_def plan_frame_def
      dest!: layer_task_done_frame split: if_splits option.splits)

lemma kv_decomp_worker_frame: "kv_decomp_worker cd L C st = Ok st' \<Longrightarrow> cycle_frame st st'"
  by (auto simp: kv_decomp_worker_def Let_def bind_result_Ok_iff cycle_frame_def plan_frame_def
      enqueue_Ok dest!: layer_task_done_frame split: if_splits option.splits)

lemma weight_read_worker_frame: "weight_read_worker we L st = Ok st' \<Longrightarrow> cycle_frame st st'"
  by (auto simp: weight_read_worker_def read_weight_layer_def Let_def bind_result_Ok_iff cycle_frame_def plan_frame_def
      dest!: layer_task_done_frame split: if_splits option.splits)

lemma run_task_frame:
  assumes "run_task env we cd t st = Ok st'"
  shows "cycle_frame st st'"
proof (cases t)
  case (KvAlloc L C)
  with assms show ?thesis
    by (auto simp: run_task_def abort_on_throw_Ok kv_alloc_worker_def Let_def cycle_frame_def plan_frame_def split: if_splits)
next
  case (KvRead L C)
  with assms kv_read_worker_frame show ?thesis by (auto simp: run_task_def abort_on_throw_Ok)
next
  case (KvDecomp L C)
  with assms kv_decomp_worker_frame show ?thesis by (auto simp: run_task_def abort_on_throw_Ok)
next
  case (FreeArenas L)
  with assms show ?thesis
    by (auto simp: run_task_def abort_on_throw_Ok free_layer_arenas_def cycle_frame_def plan_frame_def)
next
  case (WAlloc L)
  with assms show ?thesis
    by (auto simp: run_task_def abort_on_throw_Ok weight_alloc_worker_def cycle_frame_def plan_frame_def)
next
  case (WRead L)
  with assms weight_read_worker_frame show ?thesis by (auto simp: run_task_def abort_on_throw_Ok)
qed

lemma sw_step_frame:
  assumes "sw_step env we cd st (Ok st')"
  shows "cycle_frame st st'"
  using assms
proof (cases rule: sw_step.cases)
  case (sw_take ty t p)
  then show ?thesis by (simp add: cycle_frame_def plan_frame_def)
next
  case (sw_run ty t st1)
  from run_task_frame [OF sw_run(4)] show ?thesis by (simp add: sw_run(1) finish_in_def cycle_frame_def)
qed

lemma sw_reach_frame:
  assumes "sw_reach env we cd st st'"
  shows "cycle_frame st st' \<and> (routed (pool_of st) \<longrightarrow> routed (pool_of st'))"
  using assms by induction (auto intro: cycle_frame_refl cycle_frame_trans sw_step_frame routed_step)

subsection \<open>The end of the cycle\<close>

lemma restored_states:
  assumes "sw_inv cd V orig st" "pending st = {#}" "chunk_ix (kv st) i j"
  shows "states (kv st) i j = Raw"
  using tasks_invD(1,2) [OF sw_invD(3) [OF assms(1)], of i j] assms(2,3)
  by (cases "states (kv st) i j") simp_all

lemma last_used_raw:
  assumes "\<And>j. 0 \<le> j \<Longrightarrow> j < num_chunks_per_tensor s \<Longrightarrow> states s L j = Raw"
  shows "last_used s L = (- 1, 0)"
proof -
  have "fold (\<lambda>C acc. if states s L C \<noteq> Compressed then acc
                   else update_last_used (v_comp s L C) (update_last_used (k_comp s L C) acc)) cs acc = acc"
    if "\<forall>C\<in>set cs. states s L C = Raw" for cs acc
    using that by (induction cs) simp_all
  then show ?thesis using assms by (simp add: last_used_def)
qed

definition cleaned :: "'m core \<Rightarrow> 'm kv_state" where
  "cleaned st = clean_after_read (load_num_chunks st) (clean_after_decompress (decomp_num_chunks st) (kv st))"

lemma cleaned_eq:
  assumes "\<And>i j. chunk_ix (kv st) i j \<Longrightarrow> states (kv st) i j = Raw"
    and "decomp_num_chunks st = n_cur_comp_chunks (kv st)" "load_num_chunks st = n_cur_store_chunks (kv st)"
      "0 \<le> n_cur_comp_chunks (kv st)"
  obtains sv as where "cleaned st = (kv st)\<lparr>arenas := as, n_cur_comp_chunks := 0, n_cur_comp_saved_bytes := sv,
      layer_fds := (\<lambda>l. if 0 \<le> l \<and> l < num_layers (kv st) then Closed else layer_fds (kv st) l), n_cur_store_chunks := 0\<rparr>"
    "\<And>i. as i = arenas (kv st) i \<or> as i = []"
proof (cases "0 < decomp_num_chunks st")
  case True
  have l: "last_used (kv st) L = (- 1, 0)" if "0 \<le> L" "L < num_layers (kv st)" for L
    by (rule last_used_raw) (use that in \<open>auto intro: assms(1) simp: chunk_ix_def\<close>)
  show thesis
    by (rule that [of 0 "\<lambda>L. if 0 \<le> L \<and> L < num_layers (kv st) then [] else arenas (kv st) L"])
      (use True l assms(2-) in \<open>auto simp: cleaned_def clean_after_read_def close_fds_def clean_after_decompress_def
         trim_arenas_def Let_def cong: if_cong\<close>)
next
  case False
  with assms(2,4) have "n_cur_comp_chunks (kv st) = 0" by simp
  show thesis
    by (rule that [of "n_cur_comp_saved_bytes (kv st)" "arenas (kv st)"])
      (use False assms(2-) in \<open>auto simp: cleaned_def clean_after_read_def close_fds_def clean_after_decompress_def\<close>)
qed

text \<open>At the end of the phase the cleaned state is a KV state at rest with nothing swapped out.\<close>

lemma cleaned_inv:
  assumes inv: "sw_inv cd V orig st" and pend: "pending st = {#}"
    and cur: "c_cursor (kv st) (cur_layer_idx_to_compress (kv st)) (cur_chunk_idx_to_compress (kv st))"
      "s_cursor (kv st) (cur_layer_idx_to_store (kv st)) (cur_chunk_idx_to_store (kv st))"
      "comp_taken (kv st) = []" "store_taken (kv st) = []"
    and caps: "max_comp_chunks (kv st) = int (length (rows (\<lambda>i. 0) (chunk_bound (kv st)) 0 (num_layers (kv st))))"
      "max_store_chunks (kv st) =
         int (length (rows (chunk_bound (kv st)) (\<lambda>i. num_chunks_per_tensor (kv st)) 0 (num_layers (kv st))))"
    and n: "decomp_num_chunks st = n_cur_comp_chunks (kv st)" "load_num_chunks st = n_cur_store_chunks (kv st)"
      "0 \<le> n_cur_comp_chunks (kv st)"
    and ar: "arenas_ok (kv st)" and fo: "same_outside (num_layers (kv st)) (\<lambda>_. Closed) (layer_fds (kv st))"
  shows "kv_inv cd (cleaned st)" "comp_taken (cleaned st) = []" "store_taken (cleaned st) = []"
    "chunk_ix (cleaned st) = chunk_ix (kv st)"
    "chunk_ix (kv st) i j \<Longrightarrow> states (cleaned st) i j = Raw \<and> chunk_view cd (cleaned st) i j = V i j"
    "layer_fds (cleaned st) l = Closed"
    "num_layers (cleaned st) = num_layers (kv st)" "plan_frame (kv st) (cleaned st)"
    "pending_chunks_total (cleaned st) = pending_chunks_total (kv st)"
proof -
  note i = sw_invD [OF inv] and raw = restored_states [OF inv pend]
  obtain as sv where c: "cleaned st = (kv st)\<lparr>arenas := as, n_cur_comp_chunks := 0, n_cur_comp_saved_bytes := sv,
      layer_fds := (\<lambda>l. if 0 \<le> l \<and> l < num_layers (kv st) then Closed else layer_fds (kv st) l), n_cur_store_chunks := 0\<rparr>"
    "\<And>i. as i = arenas (kv st) i \<or> as i = []"
    using cleaned_eq [OF raw n] by blast
  let ?t = "cleaned st"
  show ix: "chunk_ix ?t = chunk_ix (kv st)" by (simp add: c(1) chunk_ix_def fun_eq_iff)
  show tk: "comp_taken ?t = []" "store_taken ?t = []" using cur(3,4) by (simp_all add: c(1))
  have pl: "plan_ok ?t" using i(1) plan_ok_cong [of ?t "kv st"] by (simp add: c(1))
  show v: "states ?t i j = Raw \<and> chunk_view cd ?t i j = V i j" if "chunk_ix (kv st) i j" for i j
    using raw [OF that] i(7) [OF that] by (simp add: c(1) chunk_view_def split: option.splits)
  have "cursors_ok ?t" using pl cur caps by (simp add: cursors_ok_def c(1))
  moreover have "states_ok ?t" using v by (simp add: states_ok_def ix expected_state_def tk)
  moreover have ow: "owns st x y" if "chunk_ix (kv st) x y" for x y using raw [OF that] that by (simp add: owns_def)
  have rk: "raw_ok ?t x y = raw_ok (kv st) x y" for x y by (simp add: raw_ok_def c(1))
  have "data_ok cd ?t"
    unfolding data_ok_def ix using v mem_invD(2) [OF i(5) ow] by (auto simp: rk split: KVstate.split)
  moreover have "addrs_ok ?t"
    unfolding addrs_ok_def ix using mem_invD(3) [OF i(5) ow ow] by (auto simp: c(1))
  moreover have "arenas_ok ?t"
  proof -
    have a: "\<forall>a\<in>set (as x). cap a = arena_bytes (kv st) \<and> arena_top a \<le> arena_bytes (kv st)" if "0 \<le> x" "x < num_layers (kv st)" for x
      using arenas_okD(4) [OF ar that] c(2) [of x] mem_invD(1) [OF i(5)] that by auto
    then show ?thesis unfolding arenas_ok_def
      using mem_invD(1) [OF i(5)] arenas_okD(1,2) [OF ar] by (auto simp: c(1))
  qed
  moreover have fc: "layer_fds ?t l = Closed" for l using fo by (simp add: c(1) same_outside_def)
  then have "fds_ok ?t" by (simp add: fds_ok_def)
  ultimately show "kv_inv cd ?t" by (simp add: kv_inv_def)
  show "layer_fds ?t l = Closed" by (rule fc)
  show "num_layers ?t = num_layers (kv st)" "plan_frame (kv st) ?t" "pending_chunks_total ?t = pending_chunks_total (kv st)"
    by (simp_all add: c(1) plan_frame_def)
qed

lemma idle_end:
  assumes inv: "sw_inv cd V orig st" and pend: "pending st = {#}"
    and w: "w_num_layers (wt st) = num_layers (kv st)" "w_dump (wt st) (- 1) = None"
      "\<And>i. 0 \<le> i \<Longrightarrow> i < num_layers (kv st) \<Longrightarrow> w_dump (wt st) i = None \<or> w_dump (wt st) i = Some (orig i)"
    and n: "core_num_layers st = num_layers (kv st)"
  shows "finish_swapin_cycle (decomp_num_chunks st) (load_num_chunks st) st
      = Some (st\<lparr>kv := cleaned st, wt := (wt st)\<lparr>cur_layer_idx_to_unload := core_num_layers st - 1, n_cur_unload_layers := 0\<rparr>\<rparr>)"
    and "weight_inv orig ((wt st)\<lparr>cur_layer_idx_to_unload := core_num_layers st - 1, n_cur_unload_layers := 0\<rparr>)"
proof -
  note i = sw_invD [OF inv]
  have sync: "wait_for_layer_sync k st" if "0 \<le> k" "k < num_layers (kv st)" for k
  proof -
    have "unrestored (kv st) k = {}"
      using restored_states [OF inv pend, of k] that by (auto simp: unrestored_def chunk_ix_def)
    then have "left_count st k = 0" by (simp add: left_count_def w_unread_def pend)
    moreover have "syncs st ! nat k = \<lparr>remaining = int (left_count st k), prom_set = (left_count st k = 0)\<rparr>"
      using i(2) that unfolding sync_inv_def by blast
    ultimately show ?thesis by (simp add: wait_for_layer_sync_def wait_returns_def)
  qed
  then show "finish_swapin_cycle (decomp_num_chunks st) (load_num_chunks st) st
      = Some (st\<lparr>kv := cleaned st, wt := (wt st)\<lparr>cur_layer_idx_to_unload := core_num_layers st - 1, n_cur_unload_layers := 0\<rparr>\<rparr>)"
    by (auto simp: finish_swapin_cycle_def cleaned_def list_all_iff n wait_idle_all_iff pend)
  have "w_buf (wt st) k = Some (orig k)" if "0 \<le> k" "k < num_layers (kv st)" for k
    using i(4) that pend unfolding w_inv_def by auto
  then show "weight_inv orig ((wt st)\<lparr>cur_layer_idx_to_unload := core_num_layers st - 1, n_cur_unload_layers := 0\<rparr>)"
    using w plan_okD(1) [OF i(1)] by (simp add: weight_inv_def n)
qed

lemma sw_cycle_end:
  assumes idle: "core_idle cd orig st" and b: "begun st st1" and fr: "cycle_frame st1 st2" "routed (pool_of st2)"
    and inv: "sw_inv cd (chunk_view cd (kv st)) orig st2" and pend: "pending st2 = {#}"
  obtains st' where "finish_swapin_cycle (decomp_num_chunks st2) (load_num_chunks st2) st2 = Some st'"
    "core_idle cd orig st'" "comp_taken (kv st') = []" "store_taken (kv st') = []"
    "cur_layer_idx_to_unload (wt st') = num_layers (kv st') - 1" "chunk_ix (kv st') = chunk_ix (kv st)"
    "\<forall>i j. chunk_ix (kv st) i j \<longrightarrow> states (kv st') i j = Raw \<and> chunk_view cd (kv st') i j = chunk_view cd (kv st) i j"
    "plan_frame (kv st) (kv st')" "core_num_chunks st' = core_num_chunks st"
    "pending_chunks_total (kv st') = pending_chunks_total (kv st)"
proof -
  note d = begunD [OF b] and i = core_idleD [OF idle]
  have pf: "plan_frame (kv st) (kv st2)" using d(3) fr(1) plan_frame_trans unfolding cycle_frame_def by blast
  then have nl: "num_layers (kv st2) = num_layers (kv st)" by (simp add: plan_frame_def)
  have ar: "arenas_ok (kv st2)"
  proof -
    have a: "\<forall>a\<in>set (arenas (kv st2) x). cap a = arena_bytes (kv st2) \<and> arena_top a \<le> arena_bytes (kv st2)"
      if "0 \<le> x" "x < num_layers (kv st)" for x
      using arenas_okD(4) [OF d(8), of x] that d(2,3) fr(1) unfolding cycle_frame_def plan_frame_def
      by (metis empty_iff empty_set le_less_trans linorder_not_less zle_diff1_eq)
    then show ?thesis unfolding arenas_ok_def
      using sw_invD(5) [OF inv] mem_invD(1) [of cd st2] plan_okD(1) [OF i(12)] by (auto simp: nl)
  qed
  have clean: "kv_inv cd (cleaned st2)" "comp_taken (cleaned st2) = []" "store_taken (cleaned st2) = []"
    "chunk_ix (cleaned st2) = chunk_ix (kv st2)"
    "\<And>i j. chunk_ix (kv st2) i j \<Longrightarrow> states (cleaned st2) i j = Raw \<and> chunk_view cd (cleaned st2) i j = chunk_view cd (kv st) i j"
    "\<And>l. layer_fds (cleaned st2) l = Closed" "num_layers (cleaned st2) = num_layers (kv st2)"
    "plan_frame (kv st2) (cleaned st2)" "pending_chunks_total (cleaned st2) = pending_chunks_total (kv st2)"
    by (rule cleaned_inv [OF inv pend]; use ar d(4,5,9-12,14,15,23) pf fr(1) i(8) in
        \<open>simp add: cycle_frame_def plan_frame_def cursors_ok_def\<close>)+
  have ix: "chunk_ix (kv st2) = chunk_ix (kv st)" using pf by (simp add: plan_frame_def chunk_ix_def fun_eq_iff)
  have w: "w_num_layers (wt st2) = num_layers (kv st2)" "w_dump (wt st2) = w_dump (wt st)" "core_num_layers st2 = num_layers (kv st2)"
    using fr(1) d(16,19,21) i(3,4) nl by (simp_all add: cycle_frame_def)
  have wd: "w_dump (wt st2) (- 1) = None"
    "\<And>i. 0 \<le> i \<Longrightarrow> i < num_layers (kv st2) \<Longrightarrow> w_dump (wt st2) i = None \<or> w_dump (wt st2) i = Some (orig i)"
    using i(2) unfolding weight_inv_def i(4) w(2) nl by blast+
  have fn: "core_num_chunks st2 = core_num_chunks st" "pending_chunks_total (kv st2) = pending_chunks_total (kv st)"
    using fr(1) d(24,25) by (simp_all add: cycle_frame_def)
  note fin = idle_end [OF inv pend w(1) wd w(3)]
  show thesis
    by (rule that [OF fin(1)])
      (use fin(2) clean w sw_invD(6) [OF inv] fr(2) pend fn plan_frame_trans [OF pf clean(8)] in \<open>simp_all add: core_idle_def pool_good_iff pool_ok_def ix\<close>)
qed

end
