(* ===== verification/Kv_Init.thy ===== *)
theory Kv_Init
  imports Kv_Compress_Correct
begin

text \<open>
  Construction and growth establish the invariant: the derived plan satisfies \<open>plan_ok\<close>, a fresh cursor has
  taken nothing, and a pointer table that publishes pairwise different chunks of the right size gives a KV
  state at rest whose content is the memory the table points to.
\<close>

subsection \<open>The derived plan\<close>

definition plan_args :: "config \<Rightarrow> 'm kv_state \<Rightarrow> bool" where
  "plan_args cfg s \<longleftrightarrow> ratio_ok (decomp_load_ratio cfg) \<and> 0 \<le> per_layer_balance s \<and>
     0 < num_layers s \<and> num_layers s \<le> MAX_NUM_LAYERS \<and>
     0 < num_chunks_per_tensor s \<and> num_chunks_per_tensor s \<le> MAX_CHUNKS_PER_TENSOR"

lemma derived_bound:
  assumes "plan_args cfg s" "0 \<le> i" "i < num_layers s"
  shows "chunk_bound (derive_swapout_plan cfg s) i =
    plan_bound (fp_contract cfg) (decomp_load_ratio cfg) (num_chunks_per_tensor s) (per_layer_balance s * num_layers s) i"
  using assms chunk_bound_loop_balance [of "num_chunks_per_tensor s" 0 "per_layer_balance s * num_layers s"]
  by (simp add: derive_swapout_plan_def Let_def plan_args_def)

lemma derived_frame [simp]:
  "num_layers (derive_swapout_plan cfg s) = num_layers s"
  "num_chunks_per_tensor (derive_swapout_plan cfg s) = num_chunks_per_tensor s"
  "kv_hidden_dim (derive_swapout_plan cfg s) = kv_hidden_dim s"
  "per_layer_balance (derive_swapout_plan cfg s) = per_layer_balance s"
  "n_cur_comp_chunks (derive_swapout_plan cfg s) = n_cur_comp_chunks s"
  "n_cur_store_chunks (derive_swapout_plan cfg s) = n_cur_store_chunks s"
  "n_cur_comp_saved_bytes (derive_swapout_plan cfg s) = n_cur_comp_saved_bytes s"
  "n_cur_arena_offload_bytes (derive_swapout_plan cfg s) = n_cur_arena_offload_bytes s"
  "arenas (derive_swapout_plan cfg s) = arenas s" "arena_bytes (derive_swapout_plan cfg s) = arena_bytes s"
  "layer_fds (derive_swapout_plan cfg s) = layer_fds s" "states (derive_swapout_plan cfg s) = states s"
  "raw_chunks (derive_swapout_plan cfg s) = raw_chunks s" "svm_chunk_ptrs (derive_swapout_plan cfg s) = svm_chunk_ptrs s"
  "svm_mem (derive_swapout_plan cfg s) = svm_mem s" "svm_next (derive_swapout_plan cfg s) = svm_next s"
  "next_layer_to_offload (derive_swapout_plan cfg s) = next_layer_to_offload s"
  "pending_chunks_total (derive_swapout_plan cfg s) = pending_chunks_total s"
  "swap_file (derive_swapout_plan cfg s) = swap_file s" "offload_used_bytes (derive_swapout_plan cfg s) = offload_used_bytes s"
  "cur_layer_idx_to_compress (derive_swapout_plan cfg s) = num_layers s - 1"
  "cur_layer_idx_to_store (derive_swapout_plan cfg s) = num_layers s - 1"
  "cur_chunk_idx_to_compress (derive_swapout_plan cfg s) = chunk_bound (derive_swapout_plan cfg s) (num_layers s - 1) - 1"
  "cur_chunk_idx_to_store (derive_swapout_plan cfg s) = num_chunks_per_tensor s - 1"
  by (simp_all add: derive_swapout_plan_def Let_def)

lemma derived_plan_ok:
  assumes "plan_args cfg s"
  shows "plan_ok (derive_swapout_plan cfg s)"
proof -
  let ?N = "num_chunks_per_tensor s" and ?w = "per_layer_balance s * num_layers s"
  let ?p = "plan_bound (fp_contract cfg) (decomp_load_ratio cfg) ?N ?w"
  note a = assms [unfolded plan_args_def]
  have w: "0 \<le> ?w" using a by simp
  have b: "chunk_bound (derive_swapout_plan cfg s) i = ?p i" if "0 \<le> i" "i < num_layers s" for i
    by (rule derived_bound [OF assms that])
  show ?thesis
    unfolding plan_ok_def derived_frame
    using a b plan_bound_range [of _ ?N ?w] plan_bound_zero_up [of _ ?N ?w] plan_bound_full_down [of _ ?N ?w] w
    by (smt (verit, best))
qed

lemma fresh_cursor: "0 < nl \<Longrightarrow> lo (nl - 1) \<le> hi (nl - 1) \<Longrightarrow> cursor_ok lo hi nl (nl - 1) (hi (nl - 1) - 1)"
  "taken lo hi nl (nl - 1) (hi (nl - 1) - 1) = []"
  by (simp_all add: cursor_ok_def taken_def)

lemma derived_maxima:
  assumes "plan_args cfg s"
  defines "t \<equiv> derive_swapout_plan cfg s"
  shows "max_comp_chunks t = int (length (rows (\<lambda>i. 0) (chunk_bound t) 0 (num_layers t)))"
    "max_store_chunks t = int (length (rows (chunk_bound t) (\<lambda>i. num_chunks_per_tensor t) 0 (num_layers t)))"
proof -
  note pl = derived_plan_ok [OF assms(1), folded t_def]
  let ?L = "num_layers s"
  have sum: "(\<Sum>j<nat ?L. g (int j)) = (\<Sum>i\<in>{0..<?L}. g i)" for g :: "int \<Rightarrow> int"
    by (rule sum.reindex_bij_witness [of _ nat int]) auto
  have mx: "max_comp_chunks t = (\<Sum>j<nat ?L. chunk_bound t (int j))"
    "max_store_chunks t = (\<Sum>j<nat ?L. num_chunks_per_tensor s - chunk_bound t (int j))"
    by (simp_all add: t_def derive_swapout_plan_def Let_def max_chunks_loop_sum)
  show "max_comp_chunks t = int (length (rows (\<lambda>i. 0) (chunk_bound t) 0 (num_layers t)))"
    "max_store_chunks t = int (length (rows (chunk_bound t) (\<lambda>i. num_chunks_per_tensor t) 0 (num_layers t)))"
    unfolding mx sum sum [of "\<lambda>i. num_chunks_per_tensor s - chunk_bound t i"] length_rows of_nat_sum using plan_okD(5,6) [OF pl]
    by (auto simp: t_def intro!: sum.cong)
qed

text \<open>The plan leaves phase 2 of the swap-out ladder its compress-only chunks, \<open>per_layer_balance\<close> for every layer,
  unless it has no store region at all.\<close>

definition reserve :: "'m kv_state \<Rightarrow> bool" where
  "reserve s \<longleftrightarrow> per_layer_balance s * num_layers s \<le> max_comp_chunks s \<or> max_store_chunks s = 0"

lemma derived_reserve:
  assumes "plan_args cfg s"
  shows "reserve (derive_swapout_plan cfg s)"
proof -
  let ?t = "derive_swapout_plan cfg s" and ?N = "num_chunks_per_tensor s" and ?L = "num_layers s"
  let ?w = "per_layer_balance s * ?L"
  note a = assms [unfolded plan_args_def] and pl = derived_plan_ok [OF assms]
  have mx: "max_comp_chunks ?t = (\<Sum>j<nat ?L. chunk_bound ?t (int j))"
    "max_store_chunks ?t = (\<Sum>j<nat ?L. ?N - chunk_bound ?t (int j))"
    by (simp_all add: derive_swapout_plan_def Let_def max_chunks_loop_sum)
  have "max_comp_chunks ?t = (\<Sum>j<nat ?L. plan_bound (fp_contract cfg) (decomp_load_ratio cfg) ?N ?w (int j))"
    unfolding mx by (intro sum.cong) (auto intro!: derived_bound [OF assms])
  then have "min ?w (?N * ?L) \<le> max_comp_chunks ?t"
    using plan_bound_sum [of "decomp_load_ratio cfg" ?N ?w "nat ?L" "fp_contract cfg"] a by simp
  moreover have "max_store_chunks ?t = ?N * ?L - max_comp_chunks ?t"
    unfolding mx using a by (simp add: sum_subtractf)
  moreover have "0 \<le> max_store_chunks ?t"
    unfolding mx using plan_okD(6) [OF pl] by (intro sum_nonneg) auto
  ultimately show ?thesis by (auto simp: reserve_def)
qed

text \<open>The plan of a state with a clean ladder: cursors at the end of their regions, counters zero.\<close>

lemma derived_cursors:
  assumes "plan_args cfg s" "n_cur_comp_chunks s = 0" "n_cur_store_chunks s = 0"
  shows "cursors_ok (derive_swapout_plan cfg s)" "comp_taken (derive_swapout_plan cfg s) = []"
    "store_taken (derive_swapout_plan cfg s) = []"
proof -
  let ?t = "derive_swapout_plan cfg s"
  note pl = derived_plan_ok [OF assms(1)]
  note f = fresh_cursor(1) [of "num_layers s" "\<lambda>i. 0" "chunk_bound ?t"]
    fresh_cursor(1) [of "num_layers s" "chunk_bound ?t" "\<lambda>i. num_chunks_per_tensor s"]
  show tk: "comp_taken ?t = []" "store_taken ?t = []"
    using fresh_cursor(2) [of "\<lambda>i. 0" "chunk_bound ?t" "num_layers s"]
      fresh_cursor(2) [of "chunk_bound ?t" "\<lambda>i. num_chunks_per_tensor s" "num_layers s"] by simp_all
  show "cursors_ok ?t"
    unfolding cursors_ok_def tk using pl f plan_okD(1,5,6) [OF pl] derived_maxima [OF assms(1)] assms(2,3) by simp
qed

subsection \<open>Publishing raw chunks\<close>

definition publish :: "int set \<Rightarrow> int set \<Rightarrow> (int \<Rightarrow> int \<Rightarrow> nat option) \<Rightarrow> 'm kv_state \<Rightarrow> 'm kv_state" where
  "publish I J tbl s = s\<lparr>raw_chunks := (\<lambda>i j. if i \<in> I \<and> j \<in> J then tbl i j else raw_chunks s i j),
     states := (\<lambda>i j. if i \<in> I \<and> j \<in> J then Raw else states s i j)\<rparr>"

lemma init_chunks_publish:
  assumes "\<And>y. j \<le> y \<Longrightarrow> y < j + int k \<Longrightarrow> tbl i y \<noteq> None"
  shows "init_chunks tbl i k j s = Ok (publish {i} {j..<j + int k} tbl s)"
  using assms
proof (induction k arbitrary: j s)
  case (Suc k)
  from Suc.prems [of j] obtain a where a: "tbl i j = Some a" by auto
  have "init_chunks tbl i (Suc k) j s = Ok (publish {i} {j + 1..<j + 1 + int k} tbl
      (s\<lparr>raw_chunks := upd2 (raw_chunks s) i j (Some a), states := upd2 (states s) i j Raw\<rparr>))"
    using Suc.IH [of "j + 1"] Suc.prems by (simp add: a)
  also have "publish {i} {j + 1..<j + 1 + int k} tbl
      (s\<lparr>raw_chunks := upd2 (raw_chunks s) i j (Some a), states := upd2 (states s) i j Raw\<rparr>)
      = publish {i} {j..<j + int (Suc k)} tbl s"
    using a by (auto simp: publish_def fun_eq_iff intro!: kv_state.equality)
  finally show ?case .
qed (simp add: publish_def)

lemma init_layers_publish:
  assumes "\<And>x y. i \<le> x \<Longrightarrow> x < i + int k \<Longrightarrow> 0 \<le> y \<Longrightarrow> y < num_chunks_per_tensor s \<Longrightarrow> tbl x y \<noteq> None"
  shows "init_layers tbl k i s = Ok (publish {i..<i + int k} {0..<num_chunks_per_tensor s} tbl s)"
  using assms
proof (induction k arbitrary: i s)
  case (Suc k)
  have n: "{0..<0 + int (nat (num_chunks_per_tensor s))} = {0..<num_chunks_per_tensor s}" by auto
  have "init_chunks tbl i (nat (num_chunks_per_tensor s)) 0 s = Ok (publish {i} {0..<num_chunks_per_tensor s} tbl s)"
    by (rule init_chunks_publish [of 0 "nat (num_chunks_per_tensor s)" tbl i s, unfolded n])
      (use Suc.prems [of i] in \<open>auto split: if_splits\<close>)
  moreover have "init_layers tbl k (i + 1) (publish {i} {0..<num_chunks_per_tensor s} tbl s)
      = Ok (publish {i + 1..<i + 1 + int k} {0..<num_chunks_per_tensor s} tbl (publish {i} {0..<num_chunks_per_tensor s} tbl s))"
    using Suc.IH [of "i + 1" "publish {i} {0..<num_chunks_per_tensor s} tbl s"] Suc.prems by (simp add: publish_def)
  moreover have "publish {i + 1..<i + 1 + int k} J tbl (publish {i} J tbl s) = publish {i..<i + int (Suc k)} J tbl s" for J
    by (auto simp: publish_def fun_eq_iff intro!: kv_state.equality)
  ultimately show ?case by simp
qed (simp add: publish_def)

text \<open>A pointer table as the KV cache of the model publishes it: every chunk of the grid resident, at its own
  address, with buffers of the right size.\<close>

definition table_ok :: "int \<Rightarrow> nat \<Rightarrow> int \<Rightarrow> 'm kv_state \<Rightarrow> bool" where
  "table_ok L h N s \<longleftrightarrow>
     (\<forall>i j. 0 \<le> i \<and> i < L \<and> 0 \<le> j \<and> j < N \<longrightarrow>
        (\<exists>a m. svm_chunk_ptrs s i j = Some a \<and> a < svm_next s \<and> svm_mem s a = Some m \<and>
           length (k_mem m) = raw_chunk_bytes h \<and> length (v_mem m) = raw_chunk_bytes h)) \<and>
     (\<forall>i j i' j'. 0 \<le> i \<and> i < L \<and> 0 \<le> j \<and> j < N \<and> 0 \<le> i' \<and> i' < L \<and> 0 \<le> j' \<and> j' < N \<and>
        svm_chunk_ptrs s i j = svm_chunk_ptrs s i' j' \<longrightarrow> i = i' \<and> j = j')"

definition table_view :: "'m kv_state \<Rightarrow> int \<Rightarrow> int \<Rightarrow> (bytes \<times> bytes) option" where
  "table_view s i j = (case svm_chunk_ptrs s i j of None \<Rightarrow> None | Some a \<Rightarrow> map_option (\<lambda>m. (k_mem m, v_mem m)) (svm_mem s a))"

text \<open>Publishing the whole grid over a state with a fresh plan and no arenas gives a KV state at rest.\<close>

lemma published_inv:
  assumes cu: "cursors_ok s" "comp_taken s = []" "store_taken s = []"
    and tb: "table_ok (num_layers s) (kv_hidden_dim s) (num_chunks_per_tensor s) s"
    and all: "\<And>i j. chunk_ix s i j \<Longrightarrow> states s i j = Raw \<and> raw_chunks s i j = svm_chunk_ptrs s i j"
    and ar: "next_layer_to_offload s = num_layers s - 1" "\<And>i. 0 \<le> i \<Longrightarrow> i < num_layers s \<Longrightarrow>
      \<forall>a\<in>set (arenas s i). cap a = arena_bytes s \<and> arena_top a \<le> arena_bytes s"
    and fd: "\<And>l. layer_fds s l = Closed"
  shows "kv_inv cd s" "chunk_ix s i j \<Longrightarrow> chunk_view cd s i j = table_view s i j"
proof -
  have pl: "plan_ok s" using cu(1) by (simp add: cursors_ok_def)
  have ptr: "\<exists>a m. svm_chunk_ptrs s i j = Some a \<and> a < svm_next s \<and> svm_mem s a = Some m \<and>
      length (k_mem m) = rbytes s \<and> length (v_mem m) = rbytes s" if "chunk_ix s i j" for i j
    using tb that unfolding table_ok_def chunk_ix_def by blast
  have inj: "i = i' \<and> j = j'" if "chunk_ix s i j" "chunk_ix s i' j'" "svm_chunk_ptrs s i j = svm_chunk_ptrs s i' j'" for i j i' j'
    using tb that unfolding table_ok_def chunk_ix_def by blast
  have "states_ok s" using all by (simp add: states_ok_def expected_state_def cu(2,3))
  moreover have "data_ok cd s"
    unfolding data_ok_def
  proof (intro allI impI)
    fix i j assume ix: "chunk_ix s i j"
    with all [OF ix] ptr [OF ix] show "case states s i j of Raw \<Rightarrow> raw_ok s i j
      | Compressed \<Rightarrow> svm_chunk_ptrs s i j = None \<and> comp_ok cd s i j
      | Stored \<Rightarrow> svm_chunk_ptrs s i j = None \<and> stored_ok s i j" by (auto simp: raw_ok_def)
  qed
  moreover have "addrs_ok s" unfolding addrs_ok_def using all inj by metis
  moreover have "arenas_ok s"
    unfolding arenas_ok_def using ar plan_okD(1) [OF pl] by auto
  moreover have "fds_ok s" by (simp add: fds_ok_def fd)
  ultimately show "kv_inv cd s" using cu(1) by (simp add: kv_inv_def)
  show "chunk_view cd s i j = table_view s i j" if "chunk_ix s i j"
    using all [OF that] by (simp add: chunk_view_def table_view_def)
qed

lemma constructed_inv:
  assumes "ratio_ok (decomp_load_ratio cfg)" "0 \<le> balance" "0 < L" "L \<le> MAX_NUM_LAYERS" "0 < N" "N \<le> MAX_CHUNKS_PER_TENSOR"
    and tb: "table_ok L h N s0"
  obtains s where "mzcache_kv_state cfg L h N balance s0 = Ok s" "kv_inv cd s" "comp_taken s = []" "store_taken s = []"
    "num_layers s = L" "kv_hidden_dim s = h" "num_chunks_per_tensor s = N" "per_layer_balance s = balance"
    "\<And>l. layer_fds s l = Closed" "arena_room cfg s" "next_layer_to_offload s = L - 1"
    "\<And>i j. chunk_ix s i j \<Longrightarrow> chunk_view cd s i j = table_view s0 i j"
    "n_cur_comp_saved_bytes s = 0" "n_cur_arena_offload_bytes s = 0" "reserve s" "pending_chunks_total s = 0"
    "svm_chunk_ptrs s = svm_chunk_ptrs s0" "svm_mem s = svm_mem s0" "svm_next s = svm_next s0"
proof -
  define s1 where "s1 = s0\<lparr>num_layers := L, kv_hidden_dim := h, num_chunks_per_tensor := N,
                 max_comp_chunks := 0, max_store_chunks := 0,
                 n_cur_comp_chunks := 0, n_cur_store_chunks := 0,
                 n_cur_comp_saved_bytes := 0, n_cur_arena_offload_bytes := 0,
                 arenas := (\<lambda>_. []), offload_used_bytes := (\<lambda>_. []), comp_left := (\<lambda>_. 0),
                 pending_chunks_total := 0,
                 arena_bytes := arena_pool_bytes (backend cfg) h N,
                 layer_fds := (\<lambda>_. Closed),
                 per_layer_balance := balance\<rparr>"
  have s1: "num_layers s1 = L" "kv_hidden_dim s1 = h" "num_chunks_per_tensor s1 = N" "per_layer_balance s1 = balance"
    "n_cur_comp_chunks s1 = 0" "n_cur_store_chunks s1 = 0" "arenas s1 = (\<lambda>_. [])" "layer_fds s1 = (\<lambda>_. Closed)"
    "svm_chunk_ptrs s1 = svm_chunk_ptrs s0" "svm_mem s1 = svm_mem s0" "svm_next s1 = svm_next s0"
    "arena_bytes s1 = arena_pool_bytes (backend cfg) h N" "n_cur_comp_saved_bytes s1 = 0" "n_cur_arena_offload_bytes s1 = 0"
    "pending_chunks_total s1 = 0"
    by (simp_all add: s1_def)
  have pa: "plan_args cfg s1" using assms(1-6) by (simp add: plan_args_def s1)
  note dc = derived_cursors [OF pa s1(5,6)]
  define t where "t = publish {0..<L} {0..<N} (svm_chunk_ptrs s0) ((derive_swapout_plan cfg s1)\<lparr>next_layer_to_offload := L - 1\<rparr>)"
  have sel: "num_layers t = L" "kv_hidden_dim t = h" "num_chunks_per_tensor t = N" "svm_chunk_ptrs t = svm_chunk_ptrs s0"
    "svm_mem t = svm_mem s0" "svm_next t = svm_next s0" "arenas t = (\<lambda>_. [])" "layer_fds t = (\<lambda>_. Closed)"
    "per_layer_balance t = balance" "arena_bytes t = arena_pool_bytes (backend cfg) h N" "next_layer_to_offload t = L - 1"
    "n_cur_comp_saved_bytes t = 0" "n_cur_arena_offload_bytes t = 0" "pending_chunks_total t = 0"
    by (simp_all add: t_def publish_def s1)
  have res: "reserve t" using derived_reserve [OF pa] by (simp add: t_def publish_def reserve_def s1)
  have ne: "svm_chunk_ptrs s0 x y \<noteq> None" if "0 \<le> x" "x < L" "0 \<le> y" "y < N" for x y
    using tb that unfolding table_ok_def by (metis option.distinct(1))
  have L: "0 + int (nat L) = L" using assms(3) by simp
  have "init_layers (svm_chunk_ptrs s0) (nat L) 0 ((derive_swapout_plan cfg s1)\<lparr>next_layer_to_offload := L - 1\<rparr>) = Ok t"
    using init_layers_publish [of 0 "nat L" "(derive_swapout_plan cfg s1)\<lparr>next_layer_to_offload := L - 1\<rparr>" "svm_chunk_ptrs s0"] ne
    unfolding L by (simp add: t_def s1)
  then have run: "mzcache_kv_state cfg L h N balance s0 = Ok t"
    by (simp add: mzcache_kv_state_def s1_def [symmetric] s1(9))
  have tk: "comp_taken t = []" "store_taken t = []" using dc(2,3) by (simp_all add: t_def publish_def)
  have cu: "cursors_ok t"
    using dc plan_ok_cong [of t "derive_swapout_plan cfg s1"] unfolding cursors_ok_def tk by (simp add: t_def publish_def)
  have tb': "table_ok (num_layers t) (kv_hidden_dim t) (num_chunks_per_tensor t) t" using tb unfolding table_ok_def sel .
  have all: "states t i j = Raw \<and> raw_chunks t i j = svm_chunk_ptrs t i j" if "chunk_ix t i j" for i j
    using that by (simp add: chunk_ix_def sel) (simp add: t_def publish_def)
  note inv = published_inv [OF cu tk tb' all]
  have "comp_bound (backend cfg) (kv_raw_size h) \<le> nat N * comp_bound (backend cfg) (kv_raw_size h)"
    using mult_le_mono1 [of 1 "nat N" "comp_bound (backend cfg) (kv_raw_size h)"] assms(5) by linarith
  also have "\<dots> \<le> arena_pool_bytes (backend cfg) h N" unfolding arena_pool_bytes_def by (rule round_up_4k_bounds)
  finally have room: "arena_room cfg t" by (simp add: arena_room_def sel)
  have tv: "table_view t = table_view s0" by (intro ext) (simp add: table_view_def sel split: option.split)
  show thesis
    by (rule that [OF run inv(1) tk sel(1-3,9) _ room sel(11)]) (use inv(2) sel res in \<open>simp_all add: tv\<close>)
qed

subsection \<open>Growth\<close>

text \<open>The loops of a growth step touch the new columns only; they publish all of them or stop at a missing one.\<close>

definition grown :: "int \<Rightarrow> 'm kv_state \<Rightarrow> 'm kv_state \<Rightarrow> bool" where
  "grown old s t \<longleftrightarrow> (\<exists>rc st. t = s\<lparr>raw_chunks := rc, states := st\<rparr> \<and>
     (\<forall>i j. j < old \<longrightarrow> rc i j = raw_chunks s i j \<and> st i j = states s i j))"

lemma grown_refl: "grown old s s"
  unfolding grown_def by (intro exI [of _ "raw_chunks s"] exI [of _ "states s"]) simp

lemma grown_trans: "grown old s t \<Longrightarrow> grown old t u \<Longrightarrow> grown old s u"
  unfolding grown_def by (elim exE conjE) (auto intro!: exI)

lemma grow_chunks_grown:
  assumes "old \<le> j"
  shows "grown old s (fst (grow_chunks i k j s))"
  using assms
proof (induction k arbitrary: j s)
  case (Suc k)
  show ?case
  proof (cases "svm_chunk_ptrs s i j")
    case (Some a)
    let ?t = "s\<lparr>raw_chunks := upd2 (raw_chunks s) i j (Some a), states := upd2 (states s) i j Raw\<rparr>"
    have "grown old s ?t" unfolding grown_def using Suc.prems
      by (intro exI [of _ "upd2 (raw_chunks s) i j (Some a)"] exI [of _ "upd2 (states s) i j Raw"]) auto
    with Suc.IH [of "j + 1" ?t] Suc.prems grown_trans show ?thesis by (auto simp: Some)
  qed (simp add: grown_refl)
qed (simp add: grown_refl)

lemma grow_layers_grown: "grown old s (fst (grow_layers old n k i s))"
proof (induction k arbitrary: i s)
  case (Suc k)
  obtain t ok where t: "grow_chunks i (nat (n - old)) old s = (t, ok)" by fastforce
  with grow_chunks_grown [of old old s i "nat (n - old)"] have "grown old s t" by simp
  with Suc.IH [of t "i + 1"] grown_trans t show ?case by auto
qed (simp add: grown_refl)

lemma grow_chunks_publish:
  assumes "snd (grow_chunks i k j s)"
  shows "grow_chunks i k j s = (publish {i} {j..<j + int k} (svm_chunk_ptrs s) s, True) \<and>
    (\<forall>y. j \<le> y \<and> y < j + int k \<longrightarrow> svm_chunk_ptrs s i y \<noteq> None)"
  using assms
proof (induction k arbitrary: j s)
  case (Suc k)
  then obtain a where a: "svm_chunk_ptrs s i j = Some a" by (auto split: option.splits)
  let ?t = "s\<lparr>raw_chunks := upd2 (raw_chunks s) i j (Some a), states := upd2 (states s) i j Raw\<rparr>"
  have p: "publish {i} {j + 1..<j + 1 + int k} (svm_chunk_ptrs s) ?t = publish {i} {j..<j + int (Suc k)} (svm_chunk_ptrs s) s"
    using a by (auto simp: publish_def fun_eq_iff intro!: kv_state.equality)
  have ih: "grow_chunks i k (j + 1) ?t = (publish {i} {j + 1..<j + 1 + int k} (svm_chunk_ptrs s) ?t, True)"
    "\<forall>y. j + 1 \<le> y \<and> y < j + 1 + int k \<longrightarrow> svm_chunk_ptrs s i y \<noteq> None"
    using Suc.IH [of "j + 1" ?t] Suc.prems a by simp_all
  have "svm_chunk_ptrs s i y \<noteq> None" if "j \<le> y" "y < j + int (Suc k)" for y
    using that ih(2) a by (cases "y = j") auto
  with a ih(1) p show ?case by simp
qed (auto simp: publish_def)

lemma grow_layers_publish:
  assumes "snd (grow_layers old n k i s)" "old \<le> n"
  shows "grow_layers old n k i s = (publish {i..<i + int k} {old..<n} (svm_chunk_ptrs s) s, True) \<and>
    (\<forall>x y. i \<le> x \<and> x < i + int k \<and> old \<le> y \<and> y < n \<longrightarrow> svm_chunk_ptrs s x y \<noteq> None)"
  using assms(1)
proof (induction k arbitrary: i s)
  case (Suc k)
  have n: "old + int (nat (n - old)) = n" using assms(2) by simp
  let ?t = "publish {i} {old..<n} (svm_chunk_ptrs s) s"
  have "snd (grow_chunks i (nat (n - old)) old s)" using Suc.prems by (auto simp: split_def Let_def split: if_splits)
  from grow_chunks_publish [OF this, unfolded n]
  have g: "grow_chunks i (nat (n - old)) old s = (?t, True)" "\<forall>y. old \<le> y \<and> y < n \<longrightarrow> svm_chunk_ptrs s i y \<noteq> None" by blast+
  have run: "grow_layers old n (Suc k) i s = grow_layers old n k (i + 1) ?t" by (simp add: g(1))
  have ptr: "svm_chunk_ptrs ?t = svm_chunk_ptrs s" by (simp add: publish_def)
  from Suc.IH [of "i + 1" ?t] Suc.prems
  have ih: "grow_layers old n k (i + 1) ?t = (publish {i + 1..<i + 1 + int k} {old..<n} (svm_chunk_ptrs s) ?t, True)"
    "\<forall>x y. i + 1 \<le> x \<and> x < i + 1 + int k \<and> old \<le> y \<and> y < n \<longrightarrow> svm_chunk_ptrs s x y \<noteq> None"
    unfolding run ptr by blast+
  have p: "publish {i + 1..<i + 1 + int k} J (svm_chunk_ptrs s) (publish {i} J (svm_chunk_ptrs s) s)
      = publish {i..<i + int (Suc k)} J (svm_chunk_ptrs s) s" for J
    by (auto simp: publish_def fun_eq_iff intro!: kv_state.equality)
  have "svm_chunk_ptrs s x y \<noteq> None" if "i \<le> x" "x < i + int (Suc k)" "old \<le> y" "y < n" for x y
    using that ih(2) g(2) by (cases "x = i") auto
  then show ?case unfolding run ih(1) p by blast
qed (auto simp: publish_def)

text \<open>With all new columns in the table the loops run to the end.\<close>

lemma grow_chunks_complete:
  assumes "\<And>y. j \<le> y \<Longrightarrow> y < j + int k \<Longrightarrow> svm_chunk_ptrs s i y \<noteq> None"
  shows "snd (grow_chunks i k j s)"
  using assms
proof (induction k arbitrary: j s)
  case (Suc k)
  obtain a where "svm_chunk_ptrs s i j = Some a" using Suc.prems [of j] by auto
  with Suc.IH [of "j + 1"] Suc.prems show ?case by simp
qed simp

lemma grow_layers_complete:
  assumes "\<And>x y. 0 \<le> x \<Longrightarrow> x < L \<Longrightarrow> old \<le> y \<Longrightarrow> y < n \<Longrightarrow> svm_chunk_ptrs s x y \<noteq> None" "0 \<le> L" "old \<le> n"
  shows "\<exists>t. grow_layers old n (nat L) 0 s = (t, True)"
proof -
  have "snd (grow_layers old n k i s)"
    if "\<And>x y. i \<le> x \<Longrightarrow> x < i + int k \<Longrightarrow> old \<le> y \<Longrightarrow> y < n \<Longrightarrow> svm_chunk_ptrs s x y \<noteq> None" for k i and s :: "'a kv_state"
    using that
  proof (induction k arbitrary: i s)
    case (Suc k)
    have "snd (grow_chunks i (nat (n - old)) old s)"
      by (rule grow_chunks_complete) (use Suc.prems assms(3) in auto)
    with grow_chunks_publish [OF this] assms(3)
    have g: "grow_chunks i (nat (n - old)) old s = (publish {i} {old..<n} (svm_chunk_ptrs s) s, True)" by simp
    have "snd (grow_layers old n k (i + 1) (publish {i} {old..<n} (svm_chunk_ptrs s) s))"
      by (rule Suc.IH) (use Suc.prems in \<open>simp add: publish_def\<close>)
    with g show ?case by simp
  qed simp
  from this [of 0 "nat L" s] assms(1,2) show ?thesis by (metis add_0 int_nat_eq prod.collapse)
qed

lemma clean_states:
  assumes "kv_inv cd s" "n_cur_comp_chunks s = 0" "n_cur_store_chunks s = 0"
  shows "comp_taken s = []" "store_taken s = []" "chunk_ix s i j \<Longrightarrow> states s i j = Raw"
    "chunk_ix s i j \<Longrightarrow> raw_chunks s i j = svm_chunk_ptrs s i j"
proof -
  have c: "cursors_ok s" "states_ok s" "data_ok cd s" using assms(1) by (simp_all add: kv_inv_def)
  show tk: "comp_taken s = []" "store_taken s = []" using c(1) assms(2,3) by (auto simp: cursors_ok_def)
  show r: "states s i j = Raw" if "chunk_ix s i j" for i j
    using c(2) that by (simp add: states_ok_def expected_state_def tk)
  show "raw_chunks s i j = svm_chunk_ptrs s i j" if "chunk_ix s i j"
  proof -
    have "raw_ok s i j" using c(3) that r [OF that] unfolding data_ok_def by fastforce
    then show ?thesis by (auto simp: raw_ok_def)
  qed
qed

lemma grown_inv:
  assumes "kv_inv cd s" "grown (num_chunks_per_tensor s) s t"
  shows "kv_inv cd t" "chunk_ix s i j \<Longrightarrow> chunk_view cd t i j = chunk_view cd s i j"
proof -
  obtain rc st where t: "t = s\<lparr>raw_chunks := rc, states := st\<rparr>"
    "\<And>i j. j < num_chunks_per_tensor s \<Longrightarrow> rc i j = raw_chunks s i j \<and> st i j = states s i j"
    using assms(2) unfolding grown_def by blast
  have i: "cursors_ok s" "states_ok s" "data_ok cd s" "addrs_ok s" "arenas_ok s" "fds_ok s" using assms(1) by (auto simp: kv_inv_def)
  have ix: "chunk_ix t = chunk_ix s" by (simp add: t(1) chunk_ix_def fun_eq_iff)
  have eq: "raw_chunks t i j = raw_chunks s i j \<and> states t i j = states s i j" if "chunk_ix s i j" for i j
    using t(2) [of j i] that by (simp add: t(1) chunk_ix_def)
  have lp: "layer_pools t = layer_pools s" by (intro layer_pools_cong) (simp_all add: t(1))
  have "plan_ok t = plan_ok s" by (rule plan_ok_cong) (simp_all add: t(1))
  then have "cursors_ok t" using i(1) by (simp add: cursors_ok_def t(1))
  moreover have "states_ok t"
    using i(2) eq unfolding states_ok_def ix by (simp add: expected_state_def t(1))
  moreover have "data_ok cd t"
    unfolding data_ok_def ix
  proof (intro allI impI)
    fix i j assume x: "chunk_ix s i j"
    have e: "raw_ok t i j = raw_ok s i j" "comp_ok cd t i j = comp_ok cd s i j" "stored_ok t i j = stored_ok s i j"
      "svm_chunk_ptrs t i j = svm_chunk_ptrs s i j"
      using eq [OF x] lp by (simp_all add: raw_ok_def comp_ok_def stored_ok_def) (simp_all add: t(1))
    have "case states s i j of Raw \<Rightarrow> raw_ok s i j | Compressed \<Rightarrow> svm_chunk_ptrs s i j = None \<and> comp_ok cd s i j
      | Stored \<Rightarrow> svm_chunk_ptrs s i j = None \<and> stored_ok s i j" using i(3) x unfolding data_ok_def by blast
    with eq [OF x] show "case states t i j of Raw \<Rightarrow> raw_ok t i j
      | Compressed \<Rightarrow> svm_chunk_ptrs t i j = None \<and> comp_ok cd t i j
      | Stored \<Rightarrow> svm_chunk_ptrs t i j = None \<and> stored_ok t i j" by (cases "states s i j") (simp_all add: e)
  qed
  moreover have "addrs_ok t" using i(4) eq unfolding addrs_ok_def ix by metis
  moreover have "arenas_ok t = arenas_ok s" by (simp add: arenas_ok_def t(1))
  moreover have "fds_ok t" using i(6) by (simp add: fds_ok_def t(1))
  ultimately show "kv_inv cd t" using i(5) by (simp add: kv_inv_def)
  show "chunk_view cd t i j = chunk_view cd s i j" if "chunk_ix s i j"
    using eq [OF that] lp by (simp add: chunk_view_def split: KVstate.splits option.splits) (simp add: t(1))
qed

definition table_grows :: "int \<Rightarrow> 'm kv_state \<Rightarrow> bool" where
  "table_grows n s \<longleftrightarrow>
     ((\<forall>i j. 0 \<le> i \<and> i < num_layers s \<and> num_chunks_per_tensor s \<le> j \<and> j < n \<longrightarrow> svm_chunk_ptrs s i j \<noteq> None) \<longrightarrow>
      table_ok (num_layers s) (kv_hidden_dim s) n s)"

lemma deferred_growth:
  assumes inv: "kv_inv cd s" and e: "s' = s\<lparr>pending_chunks_total := p\<rparr>"
  shows "kv_inv cd s'" "chunk_ix s i j \<Longrightarrow> chunk_view cd s' i j = chunk_view cd s i j"
proof -
  have lp: "layer_pools s' = layer_pools s" by (intro layer_pools_cong) (simp_all add: e)
  have sd: "same_data s s'" unfolding same_data_def lp by (simp add: e)
  have "cursors_ok s'" using inv same_dataD(3) [OF sd] by (simp add: kv_inv_def cursors_ok_def e)
  moreover have "arenas_ok s' = arenas_ok s" "fds_ok s' = fds_ok s" by (simp_all add: arenas_ok_def fds_ok_def e)
  ultimately show "kv_inv cd s'" using inv by (intro kv_inv_same [OF inv sd]) (simp_all add: kv_inv_def e)
  show "chunk_view cd s' i j = chunk_view cd s i j" if "chunk_ix s i j" using same_dataD(2) [OF sd] that by simp
qed

text \<open>Growth at a clean ladder, once all new columns are in the pointer table.\<close>

lemma grown_clean:
  assumes inv: "kv_inv cd s" and fd: "\<And>l. layer_fds s l = Closed" and clean: "clean_ladder s" and nx: "next_layer_to_offload s = num_layers s - 1"
    and bal: "ratio_ok (decomp_load_ratio cfg)" "0 \<le> per_layer_balance s" and n: "num_chunks_per_tensor s < n" "n \<le> MAX_CHUNKS_PER_TENSOR"
    and tb: "table_ok (num_layers s) (kv_hidden_dim s) n s"
    and u: "u = (publish {0..<num_layers s} {num_chunks_per_tensor s..<n} (svm_chunk_ptrs s) s)\<lparr>num_chunks_per_tensor := n\<rparr>"
    and e: "s' = derive_swapout_plan cfg u"
  shows "kv_inv cd s'" "chunk_ix s' i j \<Longrightarrow> chunk_view cd s' i j = table_view s i j"
    "chunk_ix s i j \<Longrightarrow> chunk_view cd s' i j = chunk_view cd s i j"
    "layer_fds s' = layer_fds s" "num_layers s' = num_layers s" "kv_hidden_dim s' = kv_hidden_dim s" "arena_bytes s' = arena_bytes s"
    "num_chunks_per_tensor s' = n"
proof -
  have pl: "plan_ok s" using inv by (simp add: kv_inv_def cursors_ok_def)
  have us: "num_layers u = num_layers s" "num_chunks_per_tensor u = n" "kv_hidden_dim u = kv_hidden_dim s"
    "per_layer_balance u = per_layer_balance s" "n_cur_comp_chunks u = 0" "n_cur_store_chunks u = 0"
    "svm_chunk_ptrs u = svm_chunk_ptrs s" "svm_mem u = svm_mem s" "svm_next u = svm_next s" "arenas u = arenas s"
    "arena_bytes u = arena_bytes s" "next_layer_to_offload u = num_layers s - 1" "layer_fds u = layer_fds s"
    using clean nx by (simp_all add: u publish_def clean_ladder_def)
  have pa: "plan_args cfg u" using bal plan_okD(1-4) [OF pl] n by (simp add: plan_args_def us)
  have n0: "n_cur_comp_chunks s = 0" "n_cur_store_chunks s = 0" using clean by (simp_all add: clean_ladder_def)
  note cs = clean_states [OF inv n0]
  have tb': "table_ok (num_layers s') (kv_hidden_dim s') (num_chunks_per_tensor s') s'"
    using tb unfolding table_ok_def e derived_frame us .
  have st: "states s' i j = Raw \<and> raw_chunks s' i j = svm_chunk_ptrs s' i j" if "chunk_ix s' i j" for i j
    using that cs(3,4) [of i j] by (simp add: e chunk_ix_def us) (auto simp: u publish_def chunk_ix_def)
  have ar: "\<forall>a\<in>set (arenas s' i). cap a = arena_bytes s' \<and> arena_top a \<le> arena_bytes s'"
    if "0 \<le> i" "i < num_layers s'" for i
  proof -
    have "arenas_ok s" using inv by (simp add: kv_inv_def)
    then have "if i > next_layer_to_offload s then arenas s i = [] \<and>
       (\<exists>pls. swap_file s i = Some (concat (map padded_pool pls)) \<and>
        offload_used_bytes s i = map length pls \<and> (\<forall>p\<in>set pls. length p \<le> arena_bytes s))
      else (\<forall>a\<in>set (arenas s i). cap a = arena_bytes s \<and> arena_top a \<le> arena_bytes s)"
      using that unfolding arenas_ok_def e derived_frame us by blast
    with that nx show ?thesis by (simp add: e us)
  qed
  note dc = derived_cursors [OF pa us(5,6), folded e]
  note pi = published_inv [OF dc tb' st _ ar]
  show "kv_inv cd s'" by (rule pi; simp add: e us fd)+
  have tv: "table_view s' = table_view s" by (simp add: table_view_def e us fun_eq_iff split: option.split)
  show v: "chunk_view cd s' i j = table_view s i j" if "chunk_ix s' i j" for i j
    unfolding tv [symmetric] by (rule pi; simp add: e us fd that [unfolded e])+
  show "chunk_view cd s' i j = chunk_view cd s i j" if "chunk_ix s i j"
  proof -
    have "chunk_ix s' i j" using that n by (simp add: chunk_ix_def e us)
    then have "chunk_view cd s' i j = table_view s i j" by (rule v)
    also have "\<dots> = chunk_view cd s i j"
      using cs(3,4) [OF that] by (simp add: chunk_view_def table_view_def split: option.split)
    finally show ?thesis .
  qed
  show "layer_fds s' = layer_fds s" "num_layers s' = num_layers s" "kv_hidden_dim s' = kv_hidden_dim s" "arena_bytes s' = arena_bytes s"
    "num_chunks_per_tensor s' = n" by (simp_all add: e us)
qed

lemma register_grown_publish:
  assumes "num_chunks_per_tensor s < n" "n \<le> MAX_CHUNKS_PER_TENSOR" "clean_ladder s" "0 < num_layers s"
    and g: "grow_layers (num_chunks_per_tensor s) n (nat (num_layers s)) 0 s = (t, True)"
  shows "register_grown_chunks cfg n s = derive_swapout_plan cfg
      ((publish {0..<num_layers s} {num_chunks_per_tensor s..<n} (svm_chunk_ptrs s) s)\<lparr>num_chunks_per_tensor := n\<rparr>)"
    "0 \<le> x \<Longrightarrow> x < num_layers s \<Longrightarrow> num_chunks_per_tensor s \<le> y \<Longrightarrow> y < n \<Longrightarrow> svm_chunk_ptrs s x y \<noteq> None"
proof -
  have L: "0 + int (nat (num_layers s)) = num_layers s" using assms(4) by simp
  from grow_layers_publish [of "num_chunks_per_tensor s" n "nat (num_layers s)" 0 s] g assms(1)
  have p: "t = publish {0..<num_layers s} {num_chunks_per_tensor s..<n} (svm_chunk_ptrs s) s"
    "\<forall>x y. 0 \<le> x \<and> x < num_layers s \<and> num_chunks_per_tensor s \<le> y \<and> y < n \<longrightarrow> svm_chunk_ptrs s x y \<noteq> None"
    unfolding L by auto
  show "register_grown_chunks cfg n s = derive_swapout_plan cfg
      ((publish {0..<num_layers s} {num_chunks_per_tensor s..<n} (svm_chunk_ptrs s) s)\<lparr>num_chunks_per_tensor := n\<rparr>)"
    using assms by (simp add: register_grown_chunks_def p(1))
  show "svm_chunk_ptrs s x y \<noteq> None" if "0 \<le> x" "x < num_layers s" "num_chunks_per_tensor s \<le> y" "y < n" using p(2) that by blast
qed

lemma register_grown_inv:
  assumes inv: "kv_inv cd s" and fd: "\<And>l. layer_fds s l = Closed" and nx: "clean_ladder s \<Longrightarrow> next_layer_to_offload s = num_layers s - 1"
    and bal: "ratio_ok (decomp_load_ratio cfg)" "0 \<le> per_layer_balance s" and tb: "clean_ladder s \<Longrightarrow> table_grows n s"
    and s': "s' = register_grown_chunks cfg n s"
  shows "kv_inv cd s' \<and> (\<forall>i j. chunk_ix s i j \<longrightarrow> chunk_view cd s' i j = chunk_view cd s i j) \<and> layer_fds s' = layer_fds s \<and>
    num_layers s' = num_layers s \<and> kv_hidden_dim s' = kv_hidden_dim s \<and> num_chunks_per_tensor s \<le> num_chunks_per_tensor s' \<and>
    arena_bytes s' = arena_bytes s"
proof -
  let ?N = "num_chunks_per_tensor s"
  have pl: "plan_ok s" using inv by (simp add: kv_inv_def cursors_ok_def)
  consider "n \<le> ?N \<or> n > MAX_CHUNKS_PER_TENSOR" | "?N < n" "n \<le> MAX_CHUNKS_PER_TENSOR" "\<not> clean_ladder s"
    | "?N < n" "n \<le> MAX_CHUNKS_PER_TENSOR" "clean_ladder s" by linarith
  then show ?thesis
  proof cases
    case 1
    then have "s' = s" using s' by (auto simp: register_grown_chunks_def)
    with inv show ?thesis by simp
  next
    case 2
    then have e: "s' = s\<lparr>pending_chunks_total := max (pending_chunks_total s) n\<rparr>" using s' by (simp add: register_grown_chunks_def)
    from deferred_growth [OF inv e] show ?thesis by (simp add: e)
  next
    case 3
    obtain t ok where g: "grow_layers ?N n (nat (num_layers s)) 0 s = (t, ok)" by fastforce
    show ?thesis
    proof (cases ok)
      case False
      have gr: "grown ?N s t" using grow_layers_grown [of ?N s n "nat (num_layers s)" 0] g by simp
      have "s' = t" using s' 3 False g by (simp add: register_grown_chunks_def)
      moreover have "layer_fds t = layer_fds s" "num_layers t = num_layers s" "kv_hidden_dim t = kv_hidden_dim s"
        "num_chunks_per_tensor t = ?N" "arena_bytes t = arena_bytes s" using gr by (auto simp: grown_def)
      ultimately show ?thesis using grown_inv [OF inv gr] by simp
    next
      case True
      then have "grow_layers ?N n (nat (num_layers s)) 0 s = (t, True)" using g by simp
      note p = register_grown_publish [OF 3 plan_okD(1) [OF pl] this]
      have "table_ok (num_layers s) (kv_hidden_dim s) n s" using tb [OF 3(3)] p(2) unfolding table_grows_def by blast
      from grown_clean [OF inv fd 3(3) nx [OF 3(3)] bal 3(1,2) this HOL.refl s' [unfolded p(1)]] 3(1) show ?thesis by simp
    qed
  qed
qed

end
