(* ===== verification/Core_Swapout.thy ===== *)
theory Core_Swapout
  imports Core Kv_Init
begin

text \<open>
  The swap-out ladder of \<open>mzcache_core\<close>: what a target ratio needs is swapped out in three phases, first
  KV chunks in the proportion in which decompression and reading will bring them back, then weight layers
  together with the chunks whose decompression they hide, then whole arenas. Byte counts are mathematical
  integers; the largest one, \<open>full_bytes\<close>, is far below the range of \<open>int64_t\<close>. The loops of phases 1
  and 3 repeat until their counters move, so they are partial: \<open>None\<close> is a loop that does not end.
\<close>

subsection \<open>Freed bytes and ratios\<close>

definition comp_freed_num :: "compression \<Rightarrow> int" where
  "comp_freed_num b = (case b of FLEXGEN_8BIT \<Rightarrow> 15 | NONE \<Rightarrow> 0 | _ \<Rightarrow> 23)"

definition chunk_bytes :: "'m core \<Rightarrow> int" where
  "chunk_bytes st = int (kv_raw_size (kv_hidden_dim (kv st)))"

definition get_freed_bytes :: "config \<Rightarrow> int \<Rightarrow> int \<Rightarrow> int \<Rightarrow> 'm core \<Rightarrow> int" where
  "get_freed_bytes cfg comp_chunks store_chunks unload_layers st =
     c_div (comp_chunks * chunk_bytes st * comp_freed_num (backend cfg)) 32 + store_chunks * chunk_bytes st +
     weight_layer_bytes st * unload_layers"

text \<open>\<open>1.0f - (double)freed / (double)full\<close>, converted to \<open>float\<close>.\<close>

definition ratio_of :: "int \<Rightarrow> int \<Rightarrow> rat" where
  "ratio_of freed whole = f32 (f64 (1 - f64 (f64 (of_int freed) / f64 (of_int whole))))"

definition current_freed :: "'m core \<Rightarrow> int" where
  "current_freed st =
     n_cur_comp_saved_bytes (kv st) + n_cur_arena_offload_bytes (kv st) +
     n_cur_store_chunks (kv st) * chunk_bytes st + n_cur_unload_layers (wt st) * weight_layer_bytes st"

type_synonym report = "rat \<times> int \<times> int \<times> int"

text \<open>The result tuple: the current ratio and the changes since the start of the call.\<close>

definition report_of :: "'m core \<Rightarrow> 'm core \<Rightarrow> report" where
  "report_of ini st =
     (ratio_of (current_freed st) (full_bytes st), n_cur_comp_chunks (kv st) - n_cur_comp_chunks (kv ini),
      n_cur_store_chunks (kv st) - n_cur_store_chunks (kv ini),
      n_cur_unload_layers (wt st) - n_cur_unload_layers (wt ini))"

definition check_target :: "rat \<Rightarrow> 'm core \<Rightarrow> 'm core \<Rightarrow> report option" where
  "check_target target ini st =
     (if ratio_of (current_freed st) (full_bytes st) \<le> target then Some (report_of ini st) else None)"

subsection \<open>Growth\<close>

definition sync_chunk_count :: "'m core \<Rightarrow> 'm core" where
  "sync_chunk_count st =
     (if num_chunks_per_tensor (kv st) \<noteq> core_num_chunks st then
        st\<lparr>core_num_chunks := num_chunks_per_tensor (kv st),
           full_bytes := weight_layer_bytes st * core_num_layers st +
             int TOKENS_PER_CHUNK * int (kv_hidden_dim (kv st)) * 2 * 2 * num_chunks_per_tensor (kv st) * core_num_layers st\<rparr>
      else st)"

definition on_kv_chunks_grown :: "config \<Rightarrow> int \<Rightarrow> 'm core \<Rightarrow> 'm core" where
  "on_kv_chunks_grown cfg n_chunks_total st =
     sync_chunk_count (st\<lparr>kv := register_grown_chunks cfg n_chunks_total (kv st)\<rparr>)"

subsection \<open>Phase 1\<close>

definition total_chunks :: "'m core \<Rightarrow> int" where
  "total_chunks st = core_num_chunks st * core_num_layers st"

definition bound_chunks :: "'m core \<Rightarrow> int" where
  "bound_chunks st = total_chunks st - per_layer_balance (kv st) * core_num_layers st"

definition processed_chunks :: "'m core \<Rightarrow> int" where
  "processed_chunks st = n_cur_comp_chunks (kv st) + n_cur_store_chunks (kv st)"

text \<open>How many of the requested chunks to compress and to store, within the room of the two regions; what
  does not fit one is moved to the other.\<close>

definition allocate_chunks :: "config \<Rightarrow> int \<Rightarrow> 'm core \<Rightarrow> int \<times> int" where
  "allocate_chunks cfg requested st =
     (let s = kv st;
          max_comp = max_comp_chunks s - per_layer_balance s * core_num_layers st;
          max_store = max_store_chunks s;
          want_comp = trunc (imul32 requested (decomp_load_ratio cfg));
          want_store = requested - want_comp;
          add_comp = min want_comp (max 0 (max_comp - n_cur_comp_chunks s));
          add_store = min want_store (max 0 (max_store - n_cur_store_chunks s));
          shortage = requested - (add_comp + add_store)
      in if shortage > 0 then
           let comp_room = max 0 (max_comp - (n_cur_comp_chunks s + add_comp));
               store_room = max 0 (max_store - (n_cur_store_chunks s + add_store));
               c1 = (if add_comp < want_comp \<and> store_room > 0
                     then min shortage (min (want_comp - add_comp) store_room) else 0);
               add_store' = add_store + c1;
               shortage' = shortage - c1;
               c2 = (if shortage' > 0 \<and> add_store' < want_store \<and> comp_room > 0
                     then min shortage' (min (want_store - add_store') comp_room) else 0)
           in (add_comp + c2, add_store')
         else (add_comp, add_store))"

definition compress_some :: "io_env \<Rightarrow> config \<Rightarrow> 'm codec \<Rightarrow> int \<Rightarrow> 'm kv_state \<Rightarrow> 'm kv_state result" where
  "compress_some env cfg cd n s =
     (if n > 0 then bind_result (mzcache_compress_chunks env cfg cd n s) (\<lambda>(s', _). Ok s') else Ok s)"

definition store_some :: "io_env \<Rightarrow> int \<Rightarrow> 'm kv_state \<Rightarrow> 'm kv_state result" where
  "store_some env n s = (if n > 0 then mzcache_store_chunks env n s else Ok s)"

definition phase1_body :: "io_env \<Rightarrow> config \<Rightarrow> 'm codec \<Rightarrow> 'm core \<Rightarrow> ('m core \<times> int) result" where
  "phase1_body env cfg cd st =
     (let to_process = min 20 (total_chunks st - processed_chunks st);
          (add_comp, add_store) = allocate_chunks cfg to_process st
      in bind_result (compress_some env cfg cd add_comp (kv st)) (\<lambda>s1.
         bind_result (store_some env add_store s1) (\<lambda>s2.
         Ok (st\<lparr>kv := s2\<rparr>, add_comp + add_store))))"

definition close_files :: "'m core \<Rightarrow> 'm core" where
  "close_files st = st\<lparr>kv := mzcache_close_stored_files (kv st)\<rparr>"

text \<open>The result of a phase: the state and, if the target was reached, the report to return.\<close>

partial_function (option) swapout_phase1 ::
  "io_env \<Rightarrow> config \<Rightarrow> 'm codec \<Rightarrow> rat \<Rightarrow> 'm core \<Rightarrow> 'm core \<Rightarrow> ('m core \<times> report option) result option" where
  "swapout_phase1 env cfg cd target ini st =
     (if processed_chunks st < bound_chunks st then
        (case phase1_body env cfg cd st of
           Inl e \<Rightarrow> Some (Inl e)
         | Inr (st', added) \<Rightarrow>
             (case check_target target ini st' of
                Some r \<Rightarrow> Some (Inr (close_files st', Some r))
              | None \<Rightarrow> if added = 0 then Some (Inr (st', None)) else swapout_phase1 env cfg cd target ini st'))
      else Some (Inr (st, None)))"

subsection \<open>Phase 2\<close>

fun swapout_phase2 ::
  "io_env \<Rightarrow> w_env \<Rightarrow> config \<Rightarrow> 'm codec \<Rightarrow> rat \<Rightarrow> 'm core \<Rightarrow> nat \<Rightarrow> 'm core \<Rightarrow> ('m core \<times> report option) result" where
  "swapout_phase2 env we cfg cd target ini 0 st = Ok (st, None)"
| "swapout_phase2 env we cfg cd target ini (Suc i) st =
     (let to_process = min (per_layer_balance (kv st)) (total_chunks st - processed_chunks st) in
      bind_result (compress_some env cfg cd to_process (kv st)) (\<lambda>s1.
      let (w, ok) = mzcache_unload_layers we 1 (wt st);
          st' = st\<lparr>kv := s1, wt := w\<rparr>
      in if \<not> ok then Ok (st', None)
         else (case check_target target ini st' of
             Some r \<Rightarrow> Ok (st', Some r)
           | None \<Rightarrow>
               if n_cur_unload_layers (wt st') = core_num_layers st' \<and> processed_chunks st' = total_chunks st'
               then Ok (st', None) else swapout_phase2 env we cfg cd target ini i st')))"

subsection \<open>Phase 3\<close>

partial_function (option) swapout_phase3 ::
  "io_env \<Rightarrow> rat \<Rightarrow> 'm core \<Rightarrow> 'm core \<Rightarrow> ('m core \<times> report option) option" where
  "swapout_phase3 env target ini st =
     (if next_layer_to_offload (kv st) \<ge> 0 then
        let st' = st\<lparr>kv := fst (mzcache_offload_arenas env (kv st))\<rparr> in
        (case check_target target ini st' of
           Some r \<Rightarrow> Some (st', Some r)
         | None \<Rightarrow> swapout_phase3 env target ini st')
      else Some (st, None))"

subsection \<open>The whole swap-out\<close>

definition swapout_rest ::
  "io_env \<Rightarrow> w_env \<Rightarrow> config \<Rightarrow> 'm codec \<Rightarrow> rat \<Rightarrow> 'm core \<Rightarrow> 'm core \<Rightarrow> ('m core \<times> report) result option" where
  "swapout_rest env we cfg cd target ini st =
     (case swapout_phase2 env we cfg cd target ini (nat (core_num_layers ini - n_cur_unload_layers (wt ini))) (close_files st) of
        Inl e \<Rightarrow> Some (Inl e)
      | Inr (st2, Some r) \<Rightarrow> Some (Inr (st2, r))
      | Inr (st2, None) \<Rightarrow>
          if total_chunks st2 - processed_chunks st2 = 0 \<and> n_cur_unload_layers (wt st2) = core_num_layers st2 then
            (case swapout_phase3 env target ini st2 of
               None \<Rightarrow> None
             | Some (st3, Some r) \<Rightarrow> Some (Inr (st3, r))
             | Some (st3, None) \<Rightarrow> Some (Inr (st3, report_of ini st3)))
          else Some (Inr (st2, report_of ini st2)))"

definition swapout_impl ::
  "io_env \<Rightarrow> w_env \<Rightarrow> config \<Rightarrow> 'm codec \<Rightarrow> rat \<Rightarrow> 'm core \<Rightarrow> ('m core \<times> report) result option" where
  "swapout_impl env we cfg cd target st0 =
     (let st = sync_chunk_count (st0\<lparr>kv := apply_pending_growth cfg (kv st0)\<rparr>) in
      case check_target target st st of
        Some r \<Rightarrow> Some (Inr (st, r))
      | None \<Rightarrow>
          (case swapout_phase1 env cfg cd target st st of
             None \<Rightarrow> None
           | Some (Inl e) \<Rightarrow> Some (Inl e)
           | Some (Inr (st1, Some r)) \<Rightarrow> Some (Inr (st1, r))
           | Some (Inr (st1, None)) \<Rightarrow> swapout_rest env we cfg cd target st st1))"

definition swapout ::
  "io_env \<Rightarrow> w_env \<Rightarrow> config \<Rightarrow> 'm codec \<Rightarrow> rat \<Rightarrow> 'm core \<Rightarrow> ('m core \<times> report) result option" where
  "swapout env we cfg cd target st =
     (case swapout_impl env we cfg cd target st of
        Some (Inr (st', r)) \<Rightarrow> Some (Inr (st'\<lparr>kv := mlock_resident_arenas env (kv st')\<rparr>, r))
      | res \<Rightarrow> res)"

subsection \<open>The plan without the work\<close>

text \<open>\<open>mzcache_profile_chunks_layers\<close> predicts with nominal sizes how far a target ratio needs to go; its working
  variables are the triple of compressed chunks, stored chunks and unloaded layers.\<close>

definition plan_ratio :: "config \<Rightarrow> int \<times> int \<times> int \<Rightarrow> 'm core \<Rightarrow> rat" where
  "plan_ratio cfg v st =
     (case v of (nc, ns, nu) \<Rightarrow> ratio_of (get_freed_bytes cfg nc ns nu st) (full_bytes st))"

definition plan_allocate :: "config \<Rightarrow> int \<Rightarrow> int \<Rightarrow> int \<Rightarrow> 'm core \<Rightarrow> int \<times> int" where
  "plan_allocate cfg requested nc ns st =
     (let s = kv st;
          max_comp = max_comp_chunks s - per_layer_balance s * core_num_layers st;
          want_comp = trunc (imul32 requested (decomp_load_ratio cfg));
          want_store = requested - want_comp;
          comp_room = max 0 (max_comp - nc);
          store_room = max 0 (max_store_chunks s - ns);
          add_comp = min want_comp comp_room;
          add_store = min want_store store_room;
          shortage = requested - (add_comp + add_store)
      in if shortage > 0 then
           if add_comp < want_comp \<and> store_room > add_store then (add_comp, add_store + min shortage (store_room - add_store))
           else if add_store < want_store \<and> comp_room > add_comp then (add_comp + min shortage (comp_room - add_comp), add_store)
           else (add_comp, add_store)
         else (add_comp, add_store))"

partial_function (option) plan_phase1 ::
  "config \<Rightarrow> rat \<Rightarrow> 'm core \<Rightarrow> int \<times> int \<times> int \<Rightarrow> ((int \<times> int \<times> int) \<times> bool) option" where
  "plan_phase1 cfg target st v =
     (if fst v + fst (snd v) < bound_chunks st then
        if plan_ratio cfg v st \<le> target then Some (v, True)
        else
          let (ac, as) = plan_allocate cfg (min 20 (total_chunks st - (fst v + fst (snd v)))) (fst v) (fst (snd v)) st
          in if ac + as = 0 then Some (v, False)
             else plan_phase1 cfg target st (fst v + ac, fst (snd v) + as, snd (snd v))
      else Some (v, False))"

fun plan_phase2 ::
  "config \<Rightarrow> rat \<Rightarrow> 'm core \<Rightarrow> nat \<Rightarrow> int \<Rightarrow> int \<times> int \<times> int \<Rightarrow> (int \<times> int \<times> int) \<times> bool" where
  "plan_phase2 cfg target st 0 processed v = (v, False)"
| "plan_phase2 cfg target st (Suc i) processed v =
     (if plan_ratio cfg v st \<le> target then (v, True)
      else let to_process = min (per_layer_balance (kv st)) (total_chunks st - processed)
           in plan_phase2 cfg target st i (processed + to_process)
                (fst v + to_process, fst (snd v), snd (snd v) + 1))"

definition mzcache_profile_chunks_layers :: "config \<Rightarrow> rat \<Rightarrow> 'm core \<Rightarrow> report option" where
  "mzcache_profile_chunks_layers cfg target st =
     (case plan_phase1 cfg target st (n_cur_comp_chunks (kv st), n_cur_store_chunks (kv st), n_cur_unload_layers (wt st)) of
        None \<Rightarrow> None
      | Some (v, True) \<Rightarrow> Some (plan_ratio cfg v st, v)
      | Some (v, False) \<Rightarrow>
          (let (v', _) = plan_phase2 cfg target st (nat (core_num_layers st)) (fst v + fst (snd v)) v
           in Some (plan_ratio cfg v' st, v')))"

end
