(* ===== verification/Swapout_Correct.thy ===== *)
theory Swapout_Correct
  imports Core_Swapout Kv_Arena_Correct
begin

text \<open>
  The swap-out ladder keeps the invariant, ends, changes the content of the cache only by compressing
  chunks, and stops short of the target only when nothing is left to swap out.
\<close>

subsection \<open>What a swap-out does to the KV state\<close>

definition swap_rel :: "'m codec \<Rightarrow> 'm kv_state \<Rightarrow> 'm kv_state \<Rightarrow> bool" where
  "swap_rel cd s s' \<longleftrightarrow> plan_frame s s' \<and>
     (\<exists>xs ys. comp_rest s = comp_rest s' @ xs \<and> comp_taken s' = xs @ comp_taken s \<and>
        store_rest s = store_rest s' @ ys \<and> store_taken s' = ys @ store_taken s \<and>
        (\<forall>i j. chunk_ix s i j \<longrightarrow> chunk_view cd s' i j =
           (if (i, j) \<in> set xs then map_option (lossy cd i j) (chunk_view cd s i j) else chunk_view cd s i j)))"

lemma swap_rel_refl [simp]: "swap_rel cd s s"
  unfolding swap_rel_def by (intro conjI exI [of _ "[]"]) simp_all

lemma swap_rel_trans:
  assumes "swap_rel cd s t" "swap_rel cd t u"
  shows "swap_rel cd s u"
proof -
  obtain xs ys where x: "comp_rest s = comp_rest t @ xs" "comp_taken t = xs @ comp_taken s"
    "store_rest s = store_rest t @ ys" "store_taken t = ys @ store_taken s"
    "\<And>i j. chunk_ix s i j \<Longrightarrow> chunk_view cd t i j =
       (if (i, j) \<in> set xs then map_option (lossy cd i j) (chunk_view cd s i j) else chunk_view cd s i j)"
    and pf: "plan_frame s t" using assms(1) unfolding swap_rel_def by blast
  obtain xs' ys' where y: "comp_rest t = comp_rest u @ xs'" "comp_taken u = xs' @ comp_taken t"
    "store_rest t = store_rest u @ ys'" "store_taken u = ys' @ store_taken t"
    "\<And>i j. chunk_ix t i j \<Longrightarrow> chunk_view cd u i j =
       (if (i, j) \<in> set xs' then map_option (lossy cd i j) (chunk_view cd t i j) else chunk_view cd t i j)"
    and pf': "plan_frame t u" using assms(2) unfolding swap_rel_def by blast
  have "distinct (comp_rest s)" by (rule distinct_rest)
  then have disj: "set xs' \<inter> set xs = {}" unfolding x(1) y(1) by auto
  have v: "chunk_view cd u i j = (if (i, j) \<in> set (xs' @ xs) then map_option (lossy cd i j) (chunk_view cd s i j)
      else chunk_view cd s i j)" if ix: "chunk_ix s i j" for i j
  proof -
    have "chunk_ix t i j" using ix by (simp add: plan_frame_ix [OF pf])
    from x(5) [OF ix] y(5) [OF this] disj show ?thesis by (auto split: if_splits)
  qed
  show ?thesis
    unfolding swap_rel_def
    by (rule conjI, rule plan_frame_trans [OF pf pf'], rule exI [of _ "xs' @ xs"], rule exI [of _ "ys' @ ys"])
      (use v in \<open>simp add: x y\<close>)
qed

lemma swap_rel_same:
  assumes "same_data s t" "plan_frame s t" "comp_rest t = comp_rest s" "comp_taken t = comp_taken s"
    "store_rest t = store_rest s" "store_taken t = store_taken s"
  shows "swap_rel cd s t"
  unfolding swap_rel_def using assms same_dataD(2) [OF assms(1), of cd]
  by (intro conjI exI [of _ "[]"]) simp_all

lemma compress_swap_rel: "compress_spec cd n s t \<Longrightarrow> swap_rel cd s t"
  unfolding compress_spec_def swap_rel_def by (elim conjE exE, intro conjI exI [of _ "[]"] exI) auto

lemma store_swap_rel: "store_spec cd n s t \<Longrightarrow> swap_rel cd s t"
  unfolding store_spec_def swap_rel_def by (elim conjE exE) (intro conjI exI [of _ "[]"] exI, auto)

subsection \<open>Counting\<close>

lemma region_counts:
  assumes "cursors_ok s"
  shows "int (length (comp_rest s)) = max_comp_chunks s - n_cur_comp_chunks s"
    "int (length (store_rest s)) = max_store_chunks s - n_cur_store_chunks s"
    "max_comp_chunks s + max_store_chunks s = num_chunks_per_tensor s * num_layers s"
    "0 \<le> n_cur_comp_chunks s" "0 \<le> n_cur_store_chunks s"
proof -
  have p: "plan_ok s" using assms by (simp add: cursors_ok_def)
  show "int (length (comp_rest s)) = max_comp_chunks s - n_cur_comp_chunks s"
    "int (length (store_rest s)) = max_store_chunks s - n_cur_store_chunks s"
    using creg.rest_length [OF p, of "cur_layer_idx_to_compress s" "cur_chunk_idx_to_compress s"]
      sreg.rest_length [OF p, of "cur_layer_idx_to_store s" "cur_chunk_idx_to_store s"] assms
    by (simp_all add: cursors_ok_def)
  have "max_comp_chunks s + max_store_chunks s = (\<Sum>i\<in>{0..<num_layers s}. num_chunks_per_tensor s)"
    using assms plan_okD(5,6) [OF p] unfolding cursors_ok_def
    by (simp add: length_rows flip: sum.distrib)
  then show "max_comp_chunks s + max_store_chunks s = num_chunks_per_tensor s * num_layers s"
    using plan_okD(1) [OF p] by simp
  show "0 \<le> n_cur_comp_chunks s" "0 \<le> n_cur_store_chunks s" using assms by (simp_all add: cursors_ok_def)
qed

text \<open>The part of a request that \<open>allocate_chunks\<close> grants fits the regions, and it is empty only if both
  regions are full.\<close>

lemma allocate_chunks_ok:
  assumes "ratio_ok (decomp_load_ratio cfg)" "0 \<le> n" "n \<le> 20" "allocate_chunks cfg n st = (ac, as)"
  defines "mc \<equiv> max_comp_chunks (kv st) - per_layer_balance (kv st) * core_num_layers st"
  shows "0 \<le> ac" "0 \<le> as" "ac + as \<le> n"
    "ac \<le> max 0 (mc - n_cur_comp_chunks (kv st))" "as \<le> max 0 (max_store_chunks (kv st) - n_cur_store_chunks (kv st))"
    "ac + as = 0 \<Longrightarrow> n = 0 \<or> mc \<le> n_cur_comp_chunks (kv st) \<and> max_store_chunks (kv st) \<le> n_cur_store_chunks (kv st)"
proof -
  define w where "w = trunc (imul32 n (decomp_load_ratio cfg))"
  have "0 \<le> imul32 n (decomp_load_ratio cfg)" "imul32 n (decomp_load_ratio cfg) \<le> of_int n"
    using imul32_bounds [of "decomp_load_ratio cfg" n] ratio_okD [OF assms(1)] assms(2,3) by auto
  then have w: "0 \<le> w" "w \<le> n" by (auto simp: w_def intro: trunc_le le_trunc)
  note d = assms(4) [unfolded allocate_chunks_def Let_def, folded w_def mc_def]
  show "0 \<le> ac" "0 \<le> as" "ac + as \<le> n"
    "ac \<le> max 0 (mc - n_cur_comp_chunks (kv st))" "as \<le> max 0 (max_store_chunks (kv st) - n_cur_store_chunks (kv st))"
    "ac + as = 0 \<Longrightarrow> n = 0 \<or> mc \<le> n_cur_comp_chunks (kv st) \<and> max_store_chunks (kv st) \<le> n_cur_store_chunks (kv st)"
    using d w assms(2) by (auto simp: min_def max_def split: if_splits)
qed

subsection \<open>The invariant of the ladder\<close>

text \<open>As long as phase 1 may run, at least \<open>per_layer_balance * num_layers\<close> chunks are kept back for phase 2;
  once weights are unloaded, at most \<open>per_layer_balance\<close> chunks per resident layer are left.\<close>

definition ladder_ok :: "'m core \<Rightarrow> bool" where
  "ladder_ok st \<longleftrightarrow>
     (n_cur_comp_chunks (kv st) \<le> max_comp_chunks (kv st) - per_layer_balance (kv st) * core_num_layers st \<or>
      n_cur_store_chunks (kv st) = max_store_chunks (kv st)) \<and>
     (0 < n_cur_unload_layers (wt st) \<longrightarrow>
        total_chunks st - processed_chunks st \<le> per_layer_balance (kv st) * (core_num_layers st - n_cur_unload_layers (wt st)))"

definition so_inv :: "'m codec \<Rightarrow> (int \<Rightarrow> bytes) \<Rightarrow> config \<Rightarrow> 'm core \<Rightarrow> bool" where
  "so_inv cd orig cfg st \<longleftrightarrow>
     kv_inv cd (kv st) \<and> weight_inv orig (wt st) \<and> core_num_layers st = num_layers (kv st) \<and>
     w_num_layers (wt st) = num_layers (kv st) \<and> core_num_chunks st = num_chunks_per_tensor (kv st) \<and>
     arena_room cfg (kv st) \<and> 0 \<le> per_layer_balance (kv st) \<and> ratio_ok (decomp_load_ratio cfg) \<and> ladder_ok st"

lemma so_invD:
  assumes "so_inv cd orig cfg st"
  shows "kv_inv cd (kv st)" "weight_inv orig (wt st)" "core_num_layers st = num_layers (kv st)"
    "w_num_layers (wt st) = num_layers (kv st)" "core_num_chunks st = num_chunks_per_tensor (kv st)"
    "arena_room cfg (kv st)" "0 \<le> per_layer_balance (kv st)" "ratio_ok (decomp_load_ratio cfg)" "ladder_ok st"
    "cursors_ok (kv st)" "0 < num_layers (kv st)"
  using assms plan_okD(1) [of "kv st"] by (auto simp: so_inv_def kv_inv_def cursors_ok_def)

text \<open>A core whose KV state went through a swap-out step.\<close>

definition so_frame :: "'m core \<Rightarrow> 'm core \<Rightarrow> bool" where
  "so_frame st st' \<longleftrightarrow> (\<exists>s w. st' = st\<lparr>kv := s, wt := w\<rparr>)"

lemma so_frame_refl: "so_frame st st"
  unfolding so_frame_def by (intro exI [of _ "kv st"] exI [of _ "wt st"]) simp

lemma so_frame_kv: "so_frame st (st\<lparr>kv := s\<rparr>)"
  unfolding so_frame_def by (intro exI [of _ s] exI [of _ "wt st"]) simp

lemma so_frame_trans: "so_frame st st' \<Longrightarrow> so_frame st' st'' \<Longrightarrow> so_frame st st''"
  unfolding so_frame_def
  by (elim exE, rule exI, rule exI) simp

lemma so_frameD:
  assumes "so_frame st st'"
  shows "core_num_layers st' = core_num_layers st" "core_num_chunks st' = core_num_chunks st" "full_bytes st' = full_bytes st"
    "weight_layer_bytes st' = weight_layer_bytes st" "pool_of st' = pool_of st" "syncs st' = syncs st"
  using assms by (auto simp: so_frame_def)

text \<open>After phase 1 the store region is exhausted.\<close>

lemma store_exhausted:
  assumes "so_inv cd orig cfg st" "bound_chunks st \<le> processed_chunks st"
  shows "n_cur_store_chunks (kv st) = max_store_chunks (kv st)"
proof -
  note i = so_invD [OF assms(1)] and r = region_counts [OF so_invD(10) [OF assms(1)]]
  have "n_cur_store_chunks (kv st) \<le> max_store_chunks (kv st)" using r(2) by simp
  with i(3,5,9) r(3) assms(2) show ?thesis
    by (auto simp: ladder_ok_def bound_chunks_def total_chunks_def processed_chunks_def)
qed

lemma so_inv_upd:
  assumes inv: "so_inv cd orig cfg st" and s: "kv_inv cd s" "swap_rel cd (kv st) s"
    and w: "weight_inv orig w" "w_num_layers w = w_num_layers (wt st)" and lad: "ladder_ok (st\<lparr>kv := s, wt := w\<rparr>)"
  shows "so_inv cd orig cfg (st\<lparr>kv := s, wt := w\<rparr>)"
  using so_invD(2-8) [OF inv] s w lad by (auto simp: so_inv_def swap_rel_def plan_frame_def arena_room_def)

lemma so_inv_kv:
  assumes inv: "so_inv cd orig cfg st" and s: "kv_inv cd s" "swap_rel cd (kv st) s" and lad: "ladder_ok (st\<lparr>kv := s\<rparr>)"
  shows "so_inv cd orig cfg (st\<lparr>kv := s\<rparr>)"
  using so_inv_upd [OF inv s so_invD(2) [OF inv] HOL.refl] lad by simp

lemma swap_rel_counts:
  assumes "swap_rel cd s t" "cursors_ok s" "cursors_ok t"
  shows "n_cur_comp_chunks s \<le> n_cur_comp_chunks t" "n_cur_store_chunks s \<le> n_cur_store_chunks t"
    "max_comp_chunks t = max_comp_chunks s" "max_store_chunks t = max_store_chunks s"
    "per_layer_balance t = per_layer_balance s" "num_layers t = num_layers s" "num_chunks_per_tensor t = num_chunks_per_tensor s"
    "kv_hidden_dim t = kv_hidden_dim s"
  using assms by (auto simp: swap_rel_def plan_frame_def cursors_ok_def)

context kv_codec
begin

lemma compress_some_ok:
  assumes inv: "so_inv (cdx cfg (kv st)) orig cfg st" and fits: "fits (backend cfg) (kv_hidden_dim (kv st))"
    and n: "n \<le> int (length (comp_rest (kv st)))"
  obtains s' where "compress_some env cfg (cdx cfg (kv st)) n (kv st) = Ok s'" "kv_inv (cdx cfg (kv st)) s'"
    "swap_rel (cdx cfg (kv st)) (kv st) s'" "n_cur_comp_chunks s' = n_cur_comp_chunks (kv st) + max 0 n"
    "n_cur_store_chunks s' = n_cur_store_chunks (kv st)" "next_layer_to_offload s' = next_layer_to_offload (kv st)"
    "layer_fds s' = layer_fds (kv st)"
proof (cases "0 < n")
  case True
  note i = so_invD [OF inv]
  obtain s' t where s': "compress_loop env cfg (cdx cfg (kv st)) (nat n) (kv st) 0 = Ok (s', t)"
    "kv_inv (cdx cfg (kv st)) s'" "compress_spec (cdx cfg (kv st)) (nat n) (kv st) s'"
    using compress_loop_ok [OF i(1) fits i(6), of "nat n"] n by fastforce
  show thesis
  proof (rule that [of s'])
    have c: "cursors_ok s'" "cursors_ok (kv st)" using s'(2) i(10) by (simp_all add: kv_inv_def)
    show "n_cur_comp_chunks s' = n_cur_comp_chunks (kv st) + max 0 n" "n_cur_store_chunks s' = n_cur_store_chunks (kv st)"
      using s'(3) c True by (auto simp: compress_spec_def cursors_ok_def)
    show "swap_rel (cdx cfg (kv st)) (kv st) s'" by (rule compress_swap_rel [OF s'(3)])
    show "compress_some env cfg (cdx cfg (kv st)) n (kv st) = Ok s'"
      using s'(1) True by (simp add: compress_some_def mzcache_compress_chunks_def)
  qed (use s' in \<open>auto simp: compress_spec_def\<close>)
next
  case False
  then show thesis using that [of "kv st"] so_invD(1) [OF inv] by (simp add: compress_some_def)
qed

end

lemma store_some_ok:
  assumes inv: "kv_inv cd s" and io: "io_writes env" and n: "n \<le> int (length (store_rest s))"
  obtains s' where "store_some env n s = Ok s'" "kv_inv cd s'" "swap_rel cd s s'"
    "n_cur_store_chunks s' = n_cur_store_chunks s + max 0 n" "n_cur_comp_chunks s' = n_cur_comp_chunks s"
    "next_layer_to_offload s' = next_layer_to_offload s"
proof (cases "0 < n")
  case True
  obtain s' where s': "store_loop env (nat n) s = Ok s'" "kv_inv cd s'" "store_spec cd (nat n) s s'"
    using store_loop_ok [OF inv io, of "nat n"] n by fastforce
  show thesis
  proof (rule that [of s'])
    have c: "cursors_ok s'" "cursors_ok s" using s'(2) inv by (simp_all add: kv_inv_def)
    show "n_cur_store_chunks s' = n_cur_store_chunks s + max 0 n" "n_cur_comp_chunks s' = n_cur_comp_chunks s"
      using s'(3) c True by (auto simp: store_spec_def cursors_ok_def)
    show "swap_rel cd s s'" by (rule store_swap_rel [OF s'(3)])
    show "store_some env n s = Ok s'"
      using s'(1) True by (simp add: store_some_def mzcache_store_chunks_def)
  qed (use s' in \<open>auto simp: store_spec_def\<close>)
next
  case False
  then show thesis using that [of s] inv by (simp add: store_some_def)
qed

text \<open>One step of the ladder: the invariant is kept, only KV state and weights move, and the content changes
  only by compression.\<close>

definition advanced :: "'m codec \<Rightarrow> (int \<Rightarrow> bytes) \<Rightarrow> config \<Rightarrow> 'm core \<Rightarrow> 'm core \<Rightarrow> bool" where
  "advanced cd orig cfg st st' \<longleftrightarrow> so_inv cd orig cfg st' \<and> so_frame st st' \<and> swap_rel cd (kv st) (kv st')"

lemma advancedD:
  assumes "advanced cd orig cfg st st'"
  shows "so_inv cd orig cfg st'" "so_frame st st'" "swap_rel cd (kv st) (kv st')"
    "kv_hidden_dim (kv st') = kv_hidden_dim (kv st)"
  using assms by (auto simp: advanced_def swap_rel_def plan_frame_def)

lemma advanced_refl: "so_inv cd orig cfg st \<Longrightarrow> advanced cd orig cfg st st"
  by (simp add: advanced_def so_frame_refl)

lemma advanced_trans: "advanced cd orig cfg st st' \<Longrightarrow> advanced cd orig cfg st' st'' \<Longrightarrow> advanced cd orig cfg st st''"
  unfolding advanced_def by (blast intro: so_frame_trans swap_rel_trans)

lemma advanced_same:
  assumes inv: "so_inv cd orig cfg st" and s: "kv_inv cd s" "same_data (kv st) s" "plan_frame (kv st) s"
    "comp_rest s = comp_rest (kv st)" "comp_taken s = comp_taken (kv st)"
    "store_rest s = store_rest (kv st)" "store_taken s = store_taken (kv st)"
  shows "advanced cd orig cfg st (st\<lparr>kv := s\<rparr>)"
proof -
  have r: "swap_rel cd (kv st) s" by (rule swap_rel_same [OF s(2-)])
  have c: "cursors_ok (kv st)" "cursors_ok s" using so_invD(10) [OF inv] s(1) by (simp_all add: kv_inv_def)
  have "n_cur_comp_chunks s = n_cur_comp_chunks (kv st)" "n_cur_store_chunks s = n_cur_store_chunks (kv st)"
    using c s(5,7) by (simp_all add: cursors_ok_def)
  then have "ladder_ok (st\<lparr>kv := s\<rparr>)"
    using so_invD(9) [OF inv] s(3) by (simp add: ladder_ok_def plan_frame_def total_chunks_def processed_chunks_def)
  from so_inv_kv [OF inv s(1) r this] r show ?thesis by (simp add: advanced_def so_frame_kv)
qed

lemma close_files_ok:
  assumes "so_inv cd orig cfg st"
  shows "advanced cd orig cfg st (close_files st)" "wt (close_files st) = wt st"
    "layer_fds (kv (close_files st)) l = Closed" "processed_chunks (close_files st) = processed_chunks st"
    "bound_chunks (close_files st) = bound_chunks st" "report_of ini (close_files st) = report_of ini st"
    "current_freed (close_files st) = current_freed st" "full_bytes (close_files st) = full_bytes st"
proof -
  let ?t = "mzcache_close_stored_files (kv st)"
  have e: "?t = (kv st)\<lparr>layer_fds := layer_fds ?t\<rparr>" by (simp add: mzcache_close_stored_files_def close_fds_def)
  note c = close_fds_inv [OF so_invD(1) [OF assms]]
  show "advanced cd orig cfg st (close_files st)"
    unfolding close_files_def by (rule advanced_same [OF assms c(1,2)]) (subst e, simp add: plan_frame_def)+
  show "layer_fds (kv (close_files st)) l = Closed" by (simp add: close_files_def c(3))
  show "wt (close_files st) = wt st" "processed_chunks (close_files st) = processed_chunks st"
    "bound_chunks (close_files st) = bound_chunks st" "report_of ini (close_files st) = report_of ini st"
    "current_freed (close_files st) = current_freed st" "full_bytes (close_files st) = full_bytes st"
    by (simp_all add: close_files_def mzcache_close_stored_files_def close_fds_def processed_chunks_def bound_chunks_def total_chunks_def
        report_of_def current_freed_def chunk_bytes_def)
qed

subsection \<open>Phase 1\<close>

context kv_codec
begin

lemma phase1_body_ok:
  assumes inv: "so_inv cd orig cfg st" and cd: "cd = cdx cfg (kv st)" and fits: "fits (backend cfg) (kv_hidden_dim (kv st))"
    and io: "io_writes env" and go: "processed_chunks st < bound_chunks st"
  obtains st' added where "phase1_body env cfg cd st = Ok (st', added)" "advanced cd orig cfg st st'" "wt st' = wt st"
    "0 < added" "processed_chunks st' = processed_chunks st + added" "bound_chunks st' = bound_chunks st"
    "next_layer_to_offload (kv st') = next_layer_to_offload (kv st)"
proof -
  note i = so_invD [OF inv] and r = region_counts [OF so_invD(10) [OF inv]]
  let ?n = "min 20 (total_chunks st - processed_chunks st)"
  obtain ac as where a: "allocate_chunks cfg ?n st = (ac, as)" by force
  have "0 \<le> per_layer_balance (kv st) * core_num_layers st" using i(3,7,11) by simp
  then have n: "0 < ?n" "0 \<le> ?n" "?n \<le> 20" using go by (auto simp: bound_chunks_def)
  note al = allocate_chunks_ok [OF i(8) n(2,3) a]
  define mc where "mc = max_comp_chunks (kv st) - per_layer_balance (kv st) * core_num_layers st"
  have b: "bound_chunks st = mc + max_store_chunks (kv st)"
    using r(3) i(3,5) by (simp add: bound_chunks_def total_chunks_def mc_def)
  have ca: "ac \<le> int (length (comp_rest (kv st)))" "as \<le> int (length (store_rest (kv st)))"
    using al(4,5) r(1,2) \<open>0 \<le> per_layer_balance (kv st) * core_num_layers st\<close> by auto
  obtain s1 where s1: "compress_some env cfg cd ac (kv st) = Ok s1" "kv_inv cd s1" "swap_rel cd (kv st) s1"
    "n_cur_comp_chunks s1 = n_cur_comp_chunks (kv st) + max 0 ac" "n_cur_store_chunks s1 = n_cur_store_chunks (kv st)"
    "next_layer_to_offload s1 = next_layer_to_offload (kv st)"
    using compress_some_ok [OF inv [unfolded cd] fits ca(1)] unfolding cd by metis
  have c1: "cursors_ok s1" using s1(2) by (simp add: kv_inv_def)
  note q1 = swap_rel_counts [OF s1(3) i(10) c1]
  have "int (length (store_rest s1)) = int (length (store_rest (kv st)))"
    using region_counts(2) [OF c1] r(2) s1(5) q1(4) by simp
  then obtain s2 where s2: "store_some env as s1 = Ok s2" "kv_inv cd s2" "swap_rel cd s1 s2"
    "n_cur_store_chunks s2 = n_cur_store_chunks s1 + max 0 as" "n_cur_comp_chunks s2 = n_cur_comp_chunks s1"
    "next_layer_to_offload s2 = next_layer_to_offload s1"
    using store_some_ok [OF s1(2) io, of as] ca(2) by metis
  have c2: "cursors_ok s2" using s2(2) by (simp add: kv_inv_def)
  note q2 = swap_rel_counts [OF s2(3) c1 c2]
  have rel: "swap_rel cd (kv st) s2" by (rule swap_rel_trans [OF s1(3) s2(3)])
  have cnt: "n_cur_comp_chunks s2 = n_cur_comp_chunks (kv st) + ac" "n_cur_store_chunks s2 = n_cur_store_chunks (kv st) + as"
    using s1(4,5) s2(4,5) al(1,2) by simp_all
  have lad: "ladder_ok (st\<lparr>kv := s2\<rparr>)"
    unfolding ladder_ok_def
  proof (intro conjI impI)
    show "n_cur_comp_chunks (kv (st\<lparr>kv := s2\<rparr>)) \<le> max_comp_chunks (kv (st\<lparr>kv := s2\<rparr>)) -
          per_layer_balance (kv (st\<lparr>kv := s2\<rparr>)) * core_num_layers (st\<lparr>kv := s2\<rparr>) \<or>
        n_cur_store_chunks (kv (st\<lparr>kv := s2\<rparr>)) = max_store_chunks (kv (st\<lparr>kv := s2\<rparr>))"
      using i(9) q1(3-5) q2(3-5) al(1,2,4,5) unfolding ladder_ok_def by (auto simp: cnt)
    assume "0 < n_cur_unload_layers (wt (st\<lparr>kv := s2\<rparr>))"
    then have "total_chunks st - processed_chunks st \<le>
        per_layer_balance (kv st) * (core_num_layers st - n_cur_unload_layers (wt st))"
      using i(9) by (simp add: ladder_ok_def)
    then show "total_chunks (st\<lparr>kv := s2\<rparr>) - processed_chunks (st\<lparr>kv := s2\<rparr>) \<le> per_layer_balance (kv (st\<lparr>kv := s2\<rparr>)) *
        (core_num_layers (st\<lparr>kv := s2\<rparr>) - n_cur_unload_layers (wt (st\<lparr>kv := s2\<rparr>)))"
      using q1(5) q2(5) al(1,2) by (simp add: total_chunks_def processed_chunks_def cnt)
  qed
  show thesis
  proof (rule that [of "st\<lparr>kv := s2\<rparr>" "ac + as"])
    show "phase1_body env cfg cd st = Ok (st\<lparr>kv := s2\<rparr>, ac + as)"
      using a s1(1) s2(1) by (simp add: phase1_body_def)
    show "advanced cd orig cfg st (st\<lparr>kv := s2\<rparr>)"
      using so_inv_kv [OF inv s2(2) rel lad] rel by (simp add: advanced_def so_frame_kv)
    show "0 < ac + as" using al(1,2,6) n(1) go b unfolding mc_def [symmetric] processed_chunks_def by linarith
    show "processed_chunks (st\<lparr>kv := s2\<rparr>) = processed_chunks st + (ac + as)" by (simp add: processed_chunks_def cnt)
    show "bound_chunks (st\<lparr>kv := s2\<rparr>) = bound_chunks st" using q1(5) q2(5) by (simp add: bound_chunks_def total_chunks_def)
    show "next_layer_to_offload (kv (st\<lparr>kv := s2\<rparr>)) = next_layer_to_offload (kv st)" using s1(6) s2(6) by simp
  qed simp
qed

text \<open>Phase 1 ends: each round processes at least one chunk, and \<open>bound_chunks\<close> bounds them.\<close>

lemma swapout_phase1_ok:
  assumes "so_inv cd orig cfg st" "cd = cdx cfg (kv st)" "fits (backend cfg) (kv_hidden_dim (kv st))" "io_writes env"
  shows "\<exists>st' r. swapout_phase1 env cfg cd target ini st = Some (Ok (st', r)) \<and> advanced cd orig cfg st st' \<and>
    wt st' = wt st \<and> next_layer_to_offload (kv st') = next_layer_to_offload (kv st) \<and>
    (r = None \<longrightarrow> bound_chunks st' \<le> processed_chunks st') \<and>
    (\<forall>x. r = Some x \<longrightarrow> fst x \<le> target \<and> x = report_of ini st' \<and> (\<forall>l. layer_fds (kv st') l = Closed))"
  using assms
proof (induction "nat (bound_chunks st - processed_chunks st)" arbitrary: st rule: less_induct)
  case less
  show ?case
  proof (cases "processed_chunks st < bound_chunks st")
    case True
    obtain st1 added where b: "phase1_body env cfg cd st = Ok (st1, added)" "advanced cd orig cfg st st1" "wt st1 = wt st"
      "0 < added" "processed_chunks st1 = processed_chunks st + added" "bound_chunks st1 = bound_chunks st"
      "next_layer_to_offload (kv st1) = next_layer_to_offload (kv st)"
      by (rule phase1_body_ok [OF less.prems True])
    note d = advancedD [OF b(2)]
    show ?thesis
    proof (cases "check_target target ini st1")
      case None
      have "nat (bound_chunks st1 - processed_chunks st1) < nat (bound_chunks st - processed_chunks st)"
        using True b(4-6) by auto
      from less.hyps [OF this d(1)] obtain st' r where
        h: "swapout_phase1 env cfg cd target ini st1 = Some (Ok (st', r))" "advanced cd orig cfg st1 st'"
          "wt st' = wt st1" "next_layer_to_offload (kv st') = next_layer_to_offload (kv st1)"
          "r = None \<longrightarrow> bound_chunks st' \<le> processed_chunks st'"
          "\<forall>x. r = Some x \<longrightarrow> fst x \<le> target \<and> x = report_of ini st' \<and> (\<forall>l. layer_fds (kv st') l = Closed)"
        using less.prems(2-4) d(4) by metis
      have "swapout_phase1 env cfg cd target ini st = Some (Ok (st', r))"
        by (subst swapout_phase1.simps) (use True b(1,4) None h(1) in simp)
      with h(3-6) advanced_trans [OF b(2) h(2)] b(3,7) show ?thesis by metis
    next
      case (Some x)
      then have x: "x = report_of ini st1" "fst x \<le> target"
        by (auto simp: check_target_def report_of_def split: if_splits)
      have e: "swapout_phase1 env cfg cd target ini st = Some (Ok (close_files st1, Some x))"
        by (subst swapout_phase1.simps) (use True b(1) Some in simp)
      note c = close_files_ok [OF d(1)]
      have n: "next_layer_to_offload (kv (close_files st1)) = next_layer_to_offload (kv st)"
        using b(7) by (simp add: close_files_def mzcache_close_stored_files_def close_fds_def)
      show ?thesis
        by (rule exI [of _ "close_files st1"], rule exI [of _ "Some x"])
          (use e x c b(3) n advanced_trans [OF b(2) c(1)] in simp)
    qed
  next
    case False
    then have "swapout_phase1 env cfg cd target ini st = Some (Ok (st, None))"
      by (subst swapout_phase1.simps) simp
    with False advanced_refl [OF less.prems(1)] show ?thesis by (intro exI [of _ st] exI [of _ None]) simp
  qed
qed

end

subsection \<open>Phase 2\<close>

definition unloadable :: "w_env \<Rightarrow> weight \<Rightarrow> bool" where
  "unloadable we w \<longleftrightarrow> (\<forall>L. 0 \<le> L \<and> L < w_num_layers w \<longrightarrow> w_dump w L \<noteq> None \<and> w_unload_ok we L)"

lemma unload_one:
  assumes inv: "weight_inv orig w" and u: "mzcache_unload_layers we 1 w = (w', ok)"
  shows "weight_inv orig w'" "w_num_layers w' = w_num_layers w" "w_dump w' = w_dump w"
    "n_cur_unload_layers w' = n_cur_unload_layers w + (if ok then 1 else 0)" "\<not> ok \<Longrightarrow> w' = w"
    "unloadable we w \<Longrightarrow> n_cur_unload_layers w < w_num_layers w \<Longrightarrow> ok"
proof -
  have one: "unload_loop we (Suc 0) w = (w', ok)" using u by (simp add: mzcache_unload_layers_def)
  show "weight_inv orig w'" "w_num_layers w' = w_num_layers w" "w_dump w' = w_dump w"
    using unload_loop_inv [OF inv one] by auto
  show w': "\<not> ok \<Longrightarrow> w' = w" using one by (auto simp: Let_def split: if_splits)
  show "n_cur_unload_layers w' = n_cur_unload_layers w + (if ok then 1 else 0)"
    using unload_loop_inv [OF inv one] w' by auto
  assume "unloadable we w" "n_cur_unload_layers w < w_num_layers w"
  moreover from this(2) inv have "0 \<le> cur_layer_idx_to_unload w" "cur_layer_idx_to_unload w < w_num_layers w"
    by (auto simp: weight_inv_def)
  ultimately have "w_dump w (cur_layer_idx_to_unload w) \<noteq> None" "w_unload_ok we (cur_layer_idx_to_unload w)"
    unfolding unloadable_def by blast+
  with one show ok by (simp add: Let_def)
qed

text \<open>What is left for phase 2: the store region is exhausted, and there are at most \<open>per_layer_balance\<close>
  chunks for every layer that is still loaded.\<close>

definition balanced :: "'m core \<Rightarrow> bool" where
  "balanced st \<longleftrightarrow> n_cur_store_chunks (kv st) = max_store_chunks (kv st) \<and>
     total_chunks st - processed_chunks st \<le> per_layer_balance (kv st) * (core_num_layers st - n_cur_unload_layers (wt st))"

lemma phase1_balanced:
  assumes inv: "so_inv cd orig cfg st" and b: "bound_chunks st \<le> processed_chunks st"
  shows "balanced st"
proof -
  note i = so_invD [OF inv]
  have "0 \<le> n_cur_unload_layers (wt st)" using i(2) by (simp add: weight_inv_def)
  then have "total_chunks st - processed_chunks st \<le> per_layer_balance (kv st) * (core_num_layers st - n_cur_unload_layers (wt st))"
    using i(9) b by (cases "n_cur_unload_layers (wt st) = 0") (auto simp: ladder_ok_def bound_chunks_def)
  with store_exhausted [OF inv b] show ?thesis by (simp add: balanced_def)
qed

context kv_codec
begin

lemma phase2_step:
  fixes env :: io_env
  assumes inv: "so_inv cd orig cfg st" and cd: "cd = cdx cfg (kv st)" and fits: "fits (backend cfg) (kv_hidden_dim (kv st))"
    and bal: "balanced st" and u: "n_cur_unload_layers (wt st) < core_num_layers st"
    and w: "mzcache_unload_layers we 1 (wt st) = (w', ok)"
  obtains s1 where
    "compress_some env cfg cd (min (per_layer_balance (kv st)) (total_chunks st - processed_chunks st)) (kv st) = Ok s1"
    "advanced cd orig cfg st (st\<lparr>kv := s1, wt := w'\<rparr>)" "ok \<longrightarrow> balanced (st\<lparr>kv := s1, wt := w'\<rparr>)"
    "layer_fds s1 = layer_fds (kv st)" "next_layer_to_offload s1 = next_layer_to_offload (kv st)"
proof -
  note i = so_invD [OF inv] and r = region_counts [OF so_invD(10) [OF inv]] and o = unload_one [OF so_invD(2) [OF inv] w]
  let ?p = "per_layer_balance (kv st)" and ?rem = "total_chunks st - processed_chunks st"
  have rem: "?rem = int (length (comp_rest (kv st)))"
    using bal r(1,3) i(3,5) by (simp add: balanced_def total_chunks_def processed_chunks_def)
  obtain s1 where s1: "compress_some env cfg cd (min ?p ?rem) (kv st) = Ok s1" "kv_inv cd s1" "swap_rel cd (kv st) s1"
    "n_cur_comp_chunks s1 = n_cur_comp_chunks (kv st) + max 0 (min ?p ?rem)"
    "n_cur_store_chunks s1 = n_cur_store_chunks (kv st)" "next_layer_to_offload s1 = next_layer_to_offload (kv st)"
    "layer_fds s1 = layer_fds (kv st)"
    using compress_some_ok [OF inv [unfolded cd] fits, of "min ?p ?rem"] rem unfolding cd by (metis min.cobounded2)
  let ?st = "st\<lparr>kv := s1, wt := w'\<rparr>"
  have "cursors_ok s1" using s1(2) by (simp add: kv_inv_def)
  note q = swap_rel_counts [OF s1(3) i(10) this]
  have left: "total_chunks ?st - processed_chunks ?st = ?rem - min ?p ?rem"
    using s1(4,5) i(7) rem by (simp add: total_chunks_def processed_chunks_def)
  have st: "n_cur_store_chunks s1 = max_store_chunks s1" using bal s1(5) q(4) by (simp add: balanced_def)
  have bnd: "?rem - min ?p ?rem \<le> ?p * (core_num_layers st - n_cur_unload_layers w')"
  proof (cases "?rem \<le> ?p")
    case True
    have "0 \<le> core_num_layers st - n_cur_unload_layers w'" using u o(4) by auto
    with True i(7) show ?thesis by simp
  next
    case False
    have "?rem \<le> ?p * (core_num_layers st - n_cur_unload_layers (wt st))" using bal by (simp add: balanced_def)
    moreover have "?p * (core_num_layers st - n_cur_unload_layers w') =
        ?p * (core_num_layers st - n_cur_unload_layers (wt st)) - (if ok then ?p else 0)"
      by (simp add: o(4) algebra_simps)
    ultimately show ?thesis using False i(7) by (simp split: if_splits)
  qed
  have lad: "ladder_ok ?st" using st bnd left q(5) by (simp add: ladder_ok_def)
  show thesis
  proof (rule that [OF s1(1) _ _ s1(7,6)])
    show "advanced cd orig cfg st ?st"
      using so_inv_upd [OF inv s1(2,3) o(1,2) lad] s1(3) by (auto simp: advanced_def so_frame_def)
    show "ok \<longrightarrow> balanced ?st" using st bnd left q(5) by (simp add: balanced_def)
  qed
qed

lemma swapout_phase2_ok:
  assumes "so_inv cd orig cfg st" "cd = cdx cfg (kv st)" "fits (backend cfg) (kv_hidden_dim (kv st))" "balanced st"
    "n_cur_unload_layers (wt st) + int k = core_num_layers st"
  shows "\<exists>st' r. swapout_phase2 env we cfg cd target ini k st = Ok (st', r) \<and> advanced cd orig cfg st st' \<and>
    layer_fds (kv st') = layer_fds (kv st) \<and> next_layer_to_offload (kv st') = next_layer_to_offload (kv st) \<and>
    (\<forall>x. r = Some x \<longrightarrow> fst x \<le> target \<and> x = report_of ini st') \<and>
    (r = None \<longrightarrow> unloadable we (wt st) \<longrightarrow>
       total_chunks st' = processed_chunks st' \<and> n_cur_unload_layers (wt st') = core_num_layers st')"
  using assms
proof (induction k arbitrary: st)
  case 0
  note i = so_invD [OF 0(1)]
  have "total_chunks st = processed_chunks st"
    using 0(4,5) region_counts(1,3) [OF i(10)] i(3,5) by (simp add: balanced_def total_chunks_def processed_chunks_def)
  with 0(5) advanced_refl [OF 0(1)] show ?case by (intro exI [of _ st] exI [of _ None]) simp
next
  case (Suc k)
  note i = so_invD [OF Suc.prems(1)]
  obtain w' ok where w: "mzcache_unload_layers we 1 (wt st) = (w', ok)" by force
  have u: "n_cur_unload_layers (wt st) < core_num_layers st" using Suc.prems(5) by simp
  note o = unload_one [OF i(2) w]
  obtain s1 where s1: "compress_some env cfg cd (min (per_layer_balance (kv st)) (total_chunks st - processed_chunks st)) (kv st) = Ok s1"
    "advanced cd orig cfg st (st\<lparr>kv := s1, wt := w'\<rparr>)" "ok \<longrightarrow> balanced (st\<lparr>kv := s1, wt := w'\<rparr>)"
    "layer_fds s1 = layer_fds (kv st)" "next_layer_to_offload s1 = next_layer_to_offload (kv st)"
    by (rule phase2_step [OF Suc.prems(1-4) u w, of env])
  let ?st = "st\<lparr>kv := s1, wt := w'\<rparr>"
  note d = advancedD [OF s1(2)]
  have run: "swapout_phase2 env we cfg cd target ini (Suc k) st =
    (if \<not> ok then Ok (?st, None)
     else (case check_target target ini ?st of
         Some r \<Rightarrow> Ok (?st, Some r)
       | None \<Rightarrow>
           if n_cur_unload_layers (wt ?st) = core_num_layers ?st \<and> processed_chunks ?st = total_chunks ?st
           then Ok (?st, None) else swapout_phase2 env we cfg cd target ini k ?st))"
    using s1(1) w by (simp add: Let_def)
  show ?case
  proof (cases "ok \<and> check_target target ini ?st = None \<and>
      \<not> (n_cur_unload_layers (wt ?st) = core_num_layers ?st \<and> processed_chunks ?st = total_chunks ?st)")
    case True
    have "n_cur_unload_layers (wt ?st) + int k = core_num_layers ?st" using Suc.prems(5) o(4) True by simp
    from Suc.IH [OF d(1) _ _ _ this] s1(3) True Suc.prems(2,3) d(4) obtain st' r where
      h: "swapout_phase2 env we cfg cd target ini k ?st = Ok (st', r)" "advanced cd orig cfg ?st st'"
        "layer_fds (kv st') = layer_fds (kv ?st)" "next_layer_to_offload (kv st') = next_layer_to_offload (kv ?st)"
        "\<forall>x. r = Some x \<longrightarrow> fst x \<le> target \<and> x = report_of ini st'"
        "r = None \<longrightarrow> unloadable we (wt ?st) \<longrightarrow>
          total_chunks st' = processed_chunks st' \<and> n_cur_unload_layers (wt st') = core_num_layers st'"
      by metis
    have "unloadable we (wt ?st) = unloadable we (wt st)" using o(2,3) by (simp add: unloadable_def)
    moreover have "swapout_phase2 env we cfg cd target ini (Suc k) st = Ok (st', r)"
      unfolding run using True h(1) by auto
    ultimately show ?thesis using h(3-6) advanced_trans [OF s1(2) h(2)] s1(4,5)
      by (intro exI [of _ st'] exI [of _ r]) simp
  next
    case False
    have "unloadable we (wt st) \<Longrightarrow> ok" using o(6) u i(3,4) by simp
    then have "\<exists>r. swapout_phase2 env we cfg cd target ini (Suc k) st = Ok (?st, r) \<and>
        (\<forall>x. r = Some x \<longrightarrow> fst x \<le> target \<and> x = report_of ini ?st) \<and>
        (r = None \<longrightarrow> unloadable we (wt st) \<longrightarrow>
          total_chunks ?st = processed_chunks ?st \<and> n_cur_unload_layers (wt ?st) = core_num_layers ?st)"
      unfolding run using False
      by (cases ok; cases "check_target target ini ?st") (auto simp: check_target_def report_of_def split: if_splits)
    with s1(2,4,5) show ?thesis by auto
  qed
qed

end

subsection \<open>Phase 3\<close>

lemma all_compressed:
  assumes "so_inv cd orig cfg st" "total_chunks st = processed_chunks st"
  shows "comp_rest (kv st) = []" "store_rest (kv st) = []"
proof -
  note i = so_invD [OF assms(1)] and r = region_counts [OF so_invD(10) [OF assms(1)]]
  have "int (length (comp_rest (kv st))) + int (length (store_rest (kv st))) = 0"
    using r i(3,5) assms(2) by (simp add: total_chunks_def processed_chunks_def)
  then have "length (comp_rest (kv st)) = 0 \<and> length (store_rest (kv st)) = 0" by linarith
  then show "comp_rest (kv st) = []" "store_rest (kv st) = []" by simp_all
qed

lemma swapout_phase3_ok:
  assumes "so_inv cd orig cfg st" "io_offload env" "comp_rest (kv st) = []"
  shows "\<exists>st' r. swapout_phase3 env target ini st = Some (st', r) \<and> advanced cd orig cfg st st' \<and> wt st' = wt st \<and>
    layer_fds (kv st') = layer_fds (kv st) \<and> processed_chunks st' = processed_chunks st \<and>
    (\<forall>x. r = Some x \<longrightarrow> fst x \<le> target \<and> x = report_of ini st') \<and>
    (r = None \<longrightarrow> next_layer_to_offload (kv st') = - 1)"
  using assms
proof (induction "nat (next_layer_to_offload (kv st) + 1)" arbitrary: st rule: less_induct)
  case less
  note i = so_invD [OF less.prems(1)]
  show ?case
  proof (cases "0 \<le> next_layer_to_offload (kv st)")
    case True
    define s1 where "s1 = fst (mzcache_offload_arenas env (kv st))"
    let ?st = "st\<lparr>kv := s1\<rparr>"
    note o = offload_inv [OF i(1) less.prems(2) True less.prems(3) s1_def]
    have adv: "advanced cd orig cfg st ?st"
      by (rule advanced_same [OF less.prems(1) o(1-3,6,4,7,5)])
    have c: "cursors_ok s1" using o(1) by (simp add: kv_inv_def)
    have p: "processed_chunks ?st = processed_chunks st"
      using c i(10) o(4,5) by (simp add: processed_chunks_def cursors_ok_def)
    have run: "swapout_phase3 env target ini st = (case check_target target ini ?st of
           Some r \<Rightarrow> Some (?st, Some r) | None \<Rightarrow> swapout_phase3 env target ini ?st)"
      using True by (subst swapout_phase3.simps) (simp add: Let_def flip: s1_def)
    show ?thesis
    proof (cases "check_target target ini ?st")
      case None
      have m: "nat (next_layer_to_offload (kv ?st) + 1) < nat (next_layer_to_offload (kv st) + 1)"
        using True o(8) by simp
      have "comp_rest (kv ?st) = []" using o(6) less.prems(3) by simp
      from less.hyps [OF m advancedD(1) [OF adv] less.prems(2) this] obtain st' r where
        h: "swapout_phase3 env target ini ?st = Some (st', r)" "advanced cd orig cfg ?st st'" "wt st' = wt ?st"
          "layer_fds (kv st') = layer_fds (kv ?st)" "processed_chunks st' = processed_chunks ?st"
          "\<forall>x. r = Some x \<longrightarrow> fst x \<le> target \<and> x = report_of ini st'"
          "r = None \<longrightarrow> next_layer_to_offload (kv st') = - 1" by blast
      with run None p o(10) advanced_trans [OF adv h(2)] show ?thesis by simp
    next
      case (Some x)
      with run adv p o(10) show ?thesis by (auto simp: check_target_def report_of_def split: if_splits)
    qed
  next
    case False
    then have "swapout_phase3 env target ini st = Some (st, None)" by (subst swapout_phase3.simps) simp
    moreover have "next_layer_to_offload (kv st) = - 1"
      using False i(1) by (auto simp: kv_inv_def arenas_ok_def)
    ultimately show ?thesis using advanced_refl [OF less.prems(1)] by simp
  qed
qed

subsection \<open>The whole swap-out\<close>

lemma mlock_ok:
  assumes inv: "so_inv cd orig cfg st"
  shows "advanced cd orig cfg st (st\<lparr>kv := mlock_resident_arenas env (kv st)\<rparr>)"
proof -
  let ?t = "mlock_resident_arenas env (kv st)"
  note i = so_invD [OF inv]
  have lk: "pool (lock_used env a) = pool a" "cap (lock_used env a) = cap a" for a
    by (simp_all add: lock_used_def Let_def)
  have lp: "layer_pools ?t = layer_pools (kv st)"
    by (rule ext) (simp add: layer_pools_def mlock_resident_arenas_def comp_def lk split: option.splits)
  have sd: "same_data (kv st) ?t" unfolding same_data_def lp by (simp add: mlock_resident_arenas_def)
  have k: "cursors_ok (kv st)" "arenas_ok (kv st)" "fds_ok (kv st)" using i(1) by (simp_all add: kv_inv_def)
  have c: "cursors_ok ?t" using k(1) same_dataD(3) [OF sd] by (simp add: cursors_ok_def) (simp add: mlock_resident_arenas_def)
  have "arenas_ok ?t"
    using k(2) unfolding arenas_ok_def by (auto simp: mlock_resident_arenas_def lk arena_top_def)
  moreover have "fds_ok ?t" using k(3) by (simp add: fds_ok_def mlock_resident_arenas_def)
  ultimately have "kv_inv cd ?t"
    by (intro kv_inv_same [OF i(1) sd c]) (simp_all add: mlock_resident_arenas_def)
  then show ?thesis
    by (rule advanced_same [OF inv _ sd]) (simp_all add: mlock_resident_arenas_def plan_frame_def)
qed

lemma start_ok:
  assumes inv: "so_inv cd orig cfg st" and p: "pending_chunks_total (kv st) \<le> num_chunks_per_tensor (kv st)"
  defines "st' \<equiv> sync_chunk_count (st\<lparr>kv := apply_pending_growth cfg (kv st)\<rparr>)"
  shows "advanced cd orig cfg st st'" "wt st' = wt st" "layer_fds (kv st') = layer_fds (kv st)"
    "report_of st' = report_of st"
proof -
  let ?t = "(kv st)\<lparr>pending_chunks_total := 0\<rparr>"
  note i = so_invD [OF inv]
  have e: "st' = st\<lparr>kv := ?t\<rparr>"
    using p i(5) by (simp add: st'_def sync_chunk_count_def apply_pending_growth_def)
  have lp: "layer_pools ?t = layer_pools (kv st)" by (rule layer_pools_cong) simp_all
  have sd: "same_data (kv st) ?t" unfolding same_data_def lp by simp
  have k: "cursors_ok ?t = cursors_ok (kv st)" "arenas_ok ?t = arenas_ok (kv st)" "fds_ok ?t = fds_ok (kv st)"
    using same_dataD(3) [OF sd] by (simp_all add: cursors_ok_def arenas_ok_def fds_ok_def)
  have "kv_inv cd ?t"
    by (rule kv_inv_same [OF i(1) sd]) (use k i(1) in \<open>simp_all add: kv_inv_def\<close>)
  then show "advanced cd orig cfg st st'"
    unfolding e by (rule advanced_same [OF inv _ sd])
      (use plan_okD(3) [of "kv st"] i(10) in \<open>simp_all add: plan_frame_def cursors_ok_def\<close>)
  show "wt st' = wt st" "layer_fds (kv st') = layer_fds (kv st)" "report_of st' = report_of st"
    by (simp_all add: e report_of_def fun_eq_iff)
qed

text \<open>Everything that can leave memory has left it.\<close>

definition all_out :: "'m core \<Rightarrow> bool" where
  "all_out st \<longleftrightarrow> comp_rest (kv st) = [] \<and> store_rest (kv st) = [] \<and>
     n_cur_unload_layers (wt st) = core_num_layers st \<and> next_layer_to_offload (kv st) = - 1"

definition swapout_post :: "'m codec \<Rightarrow> (int \<Rightarrow> bytes) \<Rightarrow> config \<Rightarrow> w_env \<Rightarrow> rat \<Rightarrow> 'm core \<Rightarrow> 'm core \<times> report \<Rightarrow> bool" where
  "swapout_post cd orig cfg we target st res \<longleftrightarrow>
     (case res of (st', r) \<Rightarrow> advanced cd orig cfg st st' \<and> (\<forall>l. layer_fds (kv st') l = Closed) \<and> r = report_of st st' \<and>
        (fst r \<le> target \<or> (unloadable we (wt st) \<longrightarrow> all_out st')))"

lemma report_of_mlock [simp]: "report_of ini (st\<lparr>kv := mlock_resident_arenas env (kv st)\<rparr>) = report_of ini st"
  by (simp add: report_of_def current_freed_def chunk_bytes_def mlock_resident_arenas_def)

context kv_codec
begin

lemma swapout_rest_ok:
  assumes inv: "so_inv cd orig cfg st" and cd: "cd = cdx cfg (kv st)" and fits: "fits (backend cfg) (kv_hidden_dim (kv st))"
    and io: "io_offload env" and b: "bound_chunks st \<le> processed_chunks st"
    and ini: "wt ini = wt st" "core_num_layers ini = core_num_layers st"
  shows "\<exists>st' r. swapout_rest env we cfg cd target ini st = Some (Ok (st', r)) \<and> advanced cd orig cfg st st' \<and>
    (\<forall>l. layer_fds (kv st') l = Closed) \<and> r = report_of ini st' \<and> (fst r \<le> target \<or> (unloadable we (wt st) \<longrightarrow> all_out st'))"
proof -
  let ?c = "close_files st" and ?k = "nat (core_num_layers ini - n_cur_unload_layers (wt ini))"
  note c = close_files_ok [OF inv] and d = advancedD [OF close_files_ok(1) [OF inv]] and i = so_invD [OF inv]
  have "n_cur_unload_layers (wt st) \<le> core_num_layers st" using i(2,3,4) by (auto simp: weight_inv_def)
  then have k: "n_cur_unload_layers (wt ?c) + int ?k = core_num_layers ?c"
    using ini so_frameD(1) [OF d(2)] c(2) by simp
  have bal: "balanced ?c" by (rule phase1_balanced [OF d(1)]) (use b c(4,5) in simp)
  obtain st2 r2 where p2: "swapout_phase2 env we cfg cd target ini ?k ?c = Ok (st2, r2)" "advanced cd orig cfg ?c st2"
    "layer_fds (kv st2) = layer_fds (kv ?c)"
    "\<forall>x. r2 = Some x \<longrightarrow> fst x \<le> target \<and> x = report_of ini st2"
    "r2 = None \<longrightarrow> unloadable we (wt st) \<longrightarrow>
       total_chunks st2 = processed_chunks st2 \<and> n_cur_unload_layers (wt st2) = core_num_layers st2"
    using swapout_phase2_ok [OF d(1) _ _ bal k, of env we target ini] cd fits d(4) c(2) by metis
  have adv2: "advanced cd orig cfg st st2" by (rule advanced_trans [OF c(1) p2(2)])
  have fd2: "layer_fds (kv st2) l = Closed" for l using p2(3) c(3) by simp
  show ?thesis
  proof (cases r2)
    case (Some x)
    with p2 adv2 fd2 show ?thesis by (auto simp: swapout_rest_def)
  next
    case None
    show ?thesis
    proof (cases "total_chunks st2 = processed_chunks st2 \<and> n_cur_unload_layers (wt st2) = core_num_layers st2")
      case False
      then have "swapout_rest env we cfg cd target ini st = Some (Ok (st2, report_of ini st2))"
        using None p2(1) by (auto simp: swapout_rest_def)
      moreover have "\<not> unloadable we (wt st)" using False None p2(5) by blast
      ultimately show ?thesis using adv2 fd2 by (intro exI [of _ st2] exI [of _ "report_of ini st2"]) simp
    next
      case True
      note d2 = advancedD [OF p2(2)]
      obtain st3 r3 where p3: "swapout_phase3 env target ini st2 = Some (st3, r3)" "advanced cd orig cfg st2 st3"
        "wt st3 = wt st2" "layer_fds (kv st3) = layer_fds (kv st2)" "processed_chunks st3 = processed_chunks st2"
        "\<forall>x. r3 = Some x \<longrightarrow> fst x \<le> target \<and> x = report_of ini st3"
        "r3 = None \<longrightarrow> next_layer_to_offload (kv st3) = - 1"
        using swapout_phase3_ok [OF d2(1) io all_compressed(1) [OF d2(1)], of target ini] True by blast
      note d3 = advancedD [OF p3(2)]
      have run: "swapout_rest env we cfg cd target ini st =
          Some (Ok (st3, case r3 of Some r \<Rightarrow> r | None \<Rightarrow> report_of ini st3))"
        using None p2(1) p3(1) True by (simp add: swapout_rest_def split: option.splits)
      have "total_chunks st3 = processed_chunks st3"
        using True p3(5) so_frameD(1,2) [OF d3(2)] by (simp add: total_chunks_def)
      then have "r3 = None \<Longrightarrow> all_out st3"
        using all_compressed [OF d3(1)] True p3(3,7) so_frameD(1) [OF d3(2)] by (simp add: all_out_def)
      then show ?thesis
        using run advanced_trans [OF adv2 p3(2)] fd2 p3(4,6) by (cases r3) auto
    qed
  qed
qed

lemma swapout_ok:
  assumes inv: "so_inv cd orig cfg st" and cd: "cd = cdx cfg (kv st)" and fits: "fits (backend cfg) (kv_hidden_dim (kv st))"
    and io: "io_writes env" "io_offload env" and p: "pending_chunks_total (kv st) \<le> num_chunks_per_tensor (kv st)"
    and fd: "\<And>l. layer_fds (kv st) l = Closed"
  obtains st' r where "swapout env we cfg cd target st = Some (Ok (st', r))" "swapout_post cd orig cfg we target st (st', r)"
proof -
  define st0 where "st0 = sync_chunk_count (st\<lparr>kv := apply_pending_growth cfg (kv st)\<rparr>)"
  note s0 = start_ok [OF inv p, folded st0_def]
  note d0 = advancedD [OF s0(1)]
  have "\<exists>st' r. swapout_impl env we cfg cd target st = Some (Ok (st', r)) \<and> swapout_post cd orig cfg we target st (st', r)"
  proof (cases "check_target target st0 st0")
    case (Some r)
    then have "r = report_of st st0" "fst r \<le> target"
      using s0(4) by (auto simp: check_target_def report_of_def fun_eq_iff split: if_splits)
    then show ?thesis
      using Some s0 fd by (auto simp: swapout_impl_def st0_def [symmetric] swapout_post_def)
  next
    case None
    obtain st1 r1 where p1: "swapout_phase1 env cfg cd target st0 st0 = Some (Ok (st1, r1))" "advanced cd orig cfg st0 st1"
      "wt st1 = wt st0" "r1 = None \<longrightarrow> bound_chunks st1 \<le> processed_chunks st1"
      "\<forall>x. r1 = Some x \<longrightarrow> fst x \<le> target \<and> x = report_of st0 st1 \<and> (\<forall>l. layer_fds (kv st1) l = Closed)"
      using swapout_phase1_ok [OF d0(1) _ _ io(1), of target st0] cd fits d0(4) by metis
    note d1 = advancedD [OF p1(2)]
    have adv1: "advanced cd orig cfg st st1" by (rule advanced_trans [OF s0(1) p1(2)])
    show ?thesis
    proof (cases r1)
      case (Some x)
      with None p1 adv1 s0(4) show ?thesis
        by (auto simp: swapout_impl_def st0_def [symmetric] swapout_post_def)
    next
      case none: None
      have "bound_chunks st1 \<le> processed_chunks st1" "wt st0 = wt st1" "core_num_layers st0 = core_num_layers st1"
        using none p1(3,4) so_frameD(1) [OF d1(2)] by simp_all
      from swapout_rest_ok [OF d1(1) _ _ io(2) this, of we target] cd fits d0(4) d1(4) obtain st' r where
        "swapout_rest env we cfg cd target st0 st1 = Some (Ok (st', r))" "advanced cd orig cfg st1 st'"
        "\<forall>l. layer_fds (kv st') l = Closed" "r = report_of st0 st'" "fst r \<le> target \<or> (unloadable we (wt st1) \<longrightarrow> all_out st')"
        by metis
      with none None p1(1,3) s0(2,4) advanced_trans [OF adv1] show ?thesis
        by (auto simp: swapout_impl_def st0_def [symmetric] swapout_post_def)
    qed
  qed
  then obtain st' r where r: "swapout_impl env we cfg cd target st = Some (Ok (st', r))" "swapout_post cd orig cfg we target st (st', r)"
    by blast
  let ?st = "st'\<lparr>kv := mlock_resident_arenas env (kv st')\<rparr>"
  have a: "advanced cd orig cfg st st'" using r(2) by (simp add: swapout_post_def)
  have "advanced cd orig cfg st ?st"
    by (rule advanced_trans [OF a mlock_ok [OF advancedD(1) [OF a]]])
  moreover have "all_out ?st = all_out st'" "layer_fds (kv ?st) = layer_fds (kv st')"
    by (simp_all add: all_out_def mlock_resident_arenas_def)
  ultimately have "swapout_post cd orig cfg we target st (?st, r)"
    using r(2) by (auto simp: swapout_post_def)
  with r(1) show thesis by (intro that [of ?st r]) (simp add: swapout_def)
qed

end

end
