(* ===== verification/Engine.thy ===== *)
theory Engine
  imports Swapin_Cycle Swapout_Correct
begin

text \<open>
  The engine as its users see it: every interleaving of a swap-in, the point where a layer may be used, and the
  composition of a swap-out with the swap-in that undoes it. Everything holds for any backend that meets the
  contract \<open>kv_codec\<close>.
\<close>

text \<open>A state some interleaving of the workers leads to after the sequential part of a swap-in of \<open>st\<close>.\<close>

definition swapin_run :: "io_env \<Rightarrow> w_env \<Rightarrow> 'm codec \<Rightarrow> 'm core \<Rightarrow> 'm core \<Rightarrow> bool" where
  "swapin_run env we cd st st2 \<longleftrightarrow> (\<exists>st1. swapin_begin env st = Ok st1 \<and> sw_reach env we cd st1 st2)"

text \<open>Everything of layer \<open>i\<close> is in memory: its chunks, with the content they stand for in \<open>st\<close>, and its weights.\<close>

definition layer_resident :: "'m codec \<Rightarrow> (int \<Rightarrow> bytes) \<Rightarrow> 'm core \<Rightarrow> int \<Rightarrow> 'm core \<Rightarrow> bool" where
  "layer_resident cd orig st i st2 \<longleftrightarrow>
     w_buf (wt st2) i = Some (orig i) \<and>
     (\<forall>j. 0 \<le> j \<and> j < num_chunks_per_tensor (kv st) \<longrightarrow> states (kv st2) i j = Raw \<and>
        (\<exists>a m. svm_chunk_ptrs (kv st2) i j = Some a \<and> svm_mem (kv st2) a = Some m \<and>
           chunk_view cd (kv st) i j = Some (k_mem m, v_mem m)))"

lemma resident_view:
  assumes "raw_ok s i j" "states s i j = Raw"
  shows "\<exists>a m. svm_chunk_ptrs s i j = Some a \<and> svm_mem s a = Some m \<and> chunk_view cd s i j = Some (k_mem m, v_mem m)"
  using assms by (auto simp: raw_ok_def chunk_view_def)

lemma unrestored_empty:
  assumes "card (unrestored s i) = 0" "0 \<le> j" "j < num_chunks_per_tensor s"
  shows "states s i j = Raw"
proof -
  have "finite (unrestored s i)" by (rule finite_subset [of _ "{0..<num_chunks_per_tensor s}"]) (auto simp: unrestored_def)
  with assms show ?thesis by (auto simp: unrestored_def)
qed

context kv_codec
begin

lemma swapin_run_inv:
  assumes idle: "core_idle cd orig st" and cd: "cd = cdc b h" and fits: "fits b h" and h: "kv_hidden_dim (kv st) = h"
    and io: "io_reads env" "io_reload env" "w_io_ok we" and run: "swapin_run env we cd st st2"
  obtains st1 where "begun st st1" "cycle_frame st1 st2" "routed (pool_of st2)"
    "sw_inv cd (chunk_view cd (kv st)) orig st2" "kv_hidden_dim (kv st2) = h" "plan_frame (kv st) (kv st2)"
proof -
  obtain st1 where s: "swapin_begin env st = Ok st1" "sw_reach env we cd st1 st2" using run by (auto simp: swapin_run_def)
  then have b: "begun st st1" using swapin_begin_ok [OF idle io(1,2)] by simp
  have h1: "kv_hidden_dim (kv st1) = h" using begunD(3) [OF b] h by (simp add: plan_frame_def)
  note i = begun_inv [OF idle b]
  have f: "cycle_frame st1 st2" "routed (pool_of st2)" using sw_reach_frame [OF s(2)] i(2) by auto
  have "plan_frame (kv st) (kv st2)" using begunD(3) [OF b] f(1) plan_frame_trans unfolding cycle_frame_def by blast
  with that [OF b f] sw_reach_safe [OF s(2) [unfolded cd] i(1) [unfolded cd] fits h1 io(1,3)] show thesis
    unfolding cd by blast
qed

lemma swapin_never_fails:
  assumes "core_idle cd orig st" "cd = cdc b h" "fits b h" "kv_hidden_dim (kv st) = h"
    "io_reads env" "io_reload env" "w_io_ok we" "swapin_run env we cd st st2"
  shows "\<not> sw_step env we cd st2 (Err e)"
  using swapin_run_inv [OF assms] sw_step_safe [OF _ assms(3) _ assms(5,7)] unfolding assms(2) by (metis sum.distinct(1))

lemma swapin_progress:
  assumes "core_idle cd orig st" "cd = cdc b h" "fits b h" "kv_hidden_dim (kv st) = h"
    "io_reads env" "io_reload env" "w_io_ok we" "swapin_run env we cd st st2" "pending st2 \<noteq> {#}"
  shows "\<exists>st3. sw_step env we cd st2 (Ok st3)"
  using swapin_run_inv [OF assms(1-8)] sw_progress [OF _ assms(3) _ assms(5,7) _ assms(9)] unfolding assms(2) by metis

text \<open>However far a swap-in has got, it can be completed; with \<open>sw_terminates\<close> every maximal run is complete.\<close>

lemma swapin_completes:
  assumes "core_idle cd orig st" "cd = cdc b h" "fits b h" "kv_hidden_dim (kv st) = h"
    "io_reads env" "io_reload env" "w_io_ok we" "swapin_run env we cd st st2"
  shows "\<exists>st3. sw_reach env we cd st2 st3 \<and> swapin_run env we cd st st3 \<and> pending st3 = {#}"
  using assms(8)
proof (induction "potential (pool_of st2)" arbitrary: st2 rule: less_induct)
  case less
  show ?case
  proof (cases "pending st2 = {#}")
    case True
    with less.prems show ?thesis by (blast intro: sw_start)
  next
    case False
    obtain st3 where s: "sw_step env we cd st2 (Ok st3)" using swapin_progress [OF assms(1-7) less.prems False] by blast
    have run: "swapin_run env we cd st st3" using less.prems s unfolding swapin_run_def by (blast intro: sw_more)
    obtain st4 where f: "sw_reach env we cd st3 st4" "swapin_run env we cd st st4" "pending st4 = {#}"
      using less.hyps [OF sw_step_potential [OF s] run] by blast
    have "sw_reach env we cd st2 st4" using f(1) by induction (blast intro: sw_start sw_more s)+
    with f show ?thesis by blast
  qed
qed

lemma swapin_layer_ready:
  assumes a: "core_idle cd orig st" "cd = cdc b h" "fits b h" "kv_hidden_dim (kv st) = h"
    "io_reads env" "io_reload env" "w_io_ok we" "swapin_run env we cd st st2"
    and i: "0 \<le> i" "i < num_layers (kv st)" and wt: "wait_for_layer_sync i st2"
  shows "layer_resident cd orig st i st2"
proof -
  obtain st1 where r: "sw_inv cd (chunk_view cd (kv st)) orig st2" "plan_frame (kv st) (kv st2)"
    by (rule swapin_run_inv [OF a])
  note v = sw_invD [OF r(1)]
  have pf: "num_layers (kv st2) = num_layers (kv st)" "num_chunks_per_tensor (kv st2) = num_chunks_per_tensor (kv st)"
    using r(2) by (simp_all add: plan_frame_def)
  have "int (length (syncs st2)) = num_layers (kv st2)"
    and sy: "syncs st2 ! nat i = \<lparr>remaining = int (left_count st2 i), prom_set = (left_count st2 i = 0)\<rparr>"
    using v(2) i pf(1) unfolding sync_inv_def by (metis, metis)
  then have z: "left_count st2 i = 0" using wt i pf by (simp add: wait_for_layer_sync_def wait_returns_def)
  then have "WRead i \<notin># pending st2" by (simp add: left_count_def w_unread_def count_eq_zero_iff)
  then have "w_buf (wt st2) i = Some (orig i)" using v(4) i pf unfolding w_inv_def by metis
  moreover have "states (kv st2) i j = Raw \<and> (\<exists>a m. svm_chunk_ptrs (kv st2) i j = Some a \<and> svm_mem (kv st2) a = Some m \<and>
      chunk_view cd (kv st) i j = Some (k_mem m, v_mem m))" if j: "0 \<le> j" "j < num_chunks_per_tensor (kv st)" for j
  proof -
    have ix: "chunk_ix (kv st2) i j" using i j pf by (simp add: chunk_ix_def)
    have raw: "states (kv st2) i j = Raw" using z j pf by (intro unrestored_empty) (simp_all add: left_count_def)
    then have "raw_ok (kv st2) i j" using v(5) ix by (auto simp: mem_inv_def owns_def)
    moreover have "chunk_view cd (kv st2) i j = chunk_view cd (kv st) i j" using v(7) ix by blast
    ultimately show ?thesis using resident_view [OF _ raw, of cd] raw by simp
  qed
  ultimately show ?thesis by (simp add: layer_resident_def)
qed

lemma swapin_cycle:
  assumes a: "core_idle cd orig st" "cd = cdc b h" "fits b h" "kv_hidden_dim (kv st) = h"
    "io_reads env" "io_reload env" "w_io_ok we" "swapin_run env we cd st st2" and pend: "pending st2 = {#}"
  obtains st' where "finish_swapin_cycle (decomp_num_chunks st2) (load_num_chunks st2) st2 = Some st'"
    "core_idle cd orig st'" "comp_taken (kv st') = []" "store_taken (kv st') = []"
    "n_cur_unload_layers (wt st') = 0" "plan_frame (kv st) (kv st')" "core_num_chunks st' = core_num_chunks st"
    "pending_chunks_total (kv st') = pending_chunks_total (kv st)"
    "\<forall>i j. chunk_ix (kv st) i j \<longrightarrow> states (kv st') i j = Raw \<and> chunk_view cd (kv st') i j = chunk_view cd (kv st) i j"
proof -
  obtain st1 where r: "begun st st1" "cycle_frame st1 st2" "routed (pool_of st2)"
    "sw_inv cd (chunk_view cd (kv st)) orig st2" by (rule swapin_run_inv [OF a])
  obtain st' where e: "finish_swapin_cycle (decomp_num_chunks st2) (load_num_chunks st2) st2 = Some st'"
    "core_idle cd orig st'" "comp_taken (kv st') = []" "store_taken (kv st') = []"
    "cur_layer_idx_to_unload (wt st') = num_layers (kv st') - 1" "chunk_ix (kv st') = chunk_ix (kv st)"
    "\<forall>i j. chunk_ix (kv st) i j \<longrightarrow> states (kv st') i j = Raw \<and> chunk_view cd (kv st') i j = chunk_view cd (kv st) i j"
    "plan_frame (kv st) (kv st')" "core_num_chunks st' = core_num_chunks st"
    "pending_chunks_total (kv st') = pending_chunks_total (kv st)"
    by (rule sw_cycle_end [OF a(1) r pend])
  have "n_cur_unload_layers (wt st') = 0" using e(1) by (auto simp: finish_swapin_cycle_def split: if_splits)
  from that [OF e(1-4) this e(8-10,7)] show thesis .
qed

end

subsection \<open>Swapping out and in again\<close>

text \<open>The invariant of the engine between calls.\<close>

definition engine_ok :: "'m codec \<Rightarrow> (int \<Rightarrow> bytes) \<Rightarrow> config \<Rightarrow> 'm core \<Rightarrow> bool" where
  "engine_ok cd orig cfg st \<longleftrightarrow> so_inv cd orig cfg st \<and> core_idle cd orig st \<and> reserve (kv st) \<and>
     pending_chunks_total (kv st) \<le> num_chunks_per_tensor (kv st)"

lemma reserve_frame: "plan_frame s t \<Longrightarrow> reserve t = reserve s"
  by (simp add: reserve_def plan_frame_def)

lemma ladder_start:
  assumes "reserve (kv st)" "core_num_layers st = num_layers (kv st)" "cursors_ok (kv st)"
    "comp_taken (kv st) = []" "store_taken (kv st) = []" "n_cur_unload_layers (wt st) = 0"
  shows "ladder_ok st"
  using assms by (auto simp: ladder_ok_def reserve_def cursors_ok_def)

lemma engine_fresh:
  assumes "core_idle cd orig st" "arena_room cfg (kv st)" "0 \<le> per_layer_balance (kv st)" "ratio_ok (decomp_load_ratio cfg)"
    "core_num_chunks st = num_chunks_per_tensor (kv st)" "reserve (kv st)"
    "pending_chunks_total (kv st) \<le> num_chunks_per_tensor (kv st)"
    "comp_taken (kv st) = []" "store_taken (kv st) = []" "n_cur_unload_layers (wt st) = 0"
  shows "engine_ok cd orig cfg st"
proof -
  note i = core_idleD [OF assms(1)]
  have "ladder_ok st" by (rule ladder_start) (use assms(6,8-) i(3,8) in simp_all)
  with assms i show ?thesis by (simp add: engine_ok_def so_inv_def)
qed

lemma advanced_engine:
  assumes e: "engine_ok cd orig cfg st" and a: "advanced cd orig cfg st st'" and fd: "\<forall>l. layer_fds (kv st') l = Closed"
    and p: "pending_chunks_total (kv st') \<le> num_chunks_per_tensor (kv st')"
  shows "engine_ok cd orig cfg st'"
proof -
  note d = advancedD [OF a]
  note f = so_frameD [OF d(2)] and i = so_invD [OF d(1)]
  have "pool_good (pool_of st')" "pending st' = {#}" using e f(5) by (simp_all add: engine_ok_def core_idle_def)
  then have "core_idle cd orig st'" using i fd by (simp add: core_idle_def)
  moreover have "reserve (kv st')" using e d(3) reserve_frame by (auto simp: engine_ok_def swap_rel_def)
  ultimately show ?thesis using d(1) p by (simp add: engine_ok_def)
qed

context kv_codec
begin

lemma swapin_engine:
  assumes e: "engine_ok cd orig cfg st" and a: "cd = cdx cfg (kv st)" "fits (backend cfg) (kv_hidden_dim (kv st))"
    "io_reads env" "io_reload env" "w_io_ok we" "swapin_run env we cd st st2" "pending st2 = {#}"
  obtains st' where "finish_swapin_cycle (decomp_num_chunks st2) (load_num_chunks st2) st2 = Some st'"
    "engine_ok cd orig cfg st'" "plan_frame (kv st) (kv st')"
    "\<forall>i j. chunk_ix (kv st) i j \<longrightarrow> states (kv st') i j = Raw \<and> chunk_view cd (kv st') i j = chunk_view cd (kv st) i j"
proof -
  have idle: "core_idle cd orig st" using e by (simp add: engine_ok_def)
  obtain st' where f: "finish_swapin_cycle (decomp_num_chunks st2) (load_num_chunks st2) st2 = Some st'"
    "core_idle cd orig st'" "comp_taken (kv st') = []" "store_taken (kv st') = []"
    "n_cur_unload_layers (wt st') = 0" "plan_frame (kv st) (kv st')" "core_num_chunks st' = core_num_chunks st"
    "pending_chunks_total (kv st') = pending_chunks_total (kv st)"
    "\<forall>i j. chunk_ix (kv st) i j \<longrightarrow> states (kv st') i j = Raw \<and> chunk_view cd (kv st') i j = chunk_view cd (kv st) i j"
    by (rule swapin_cycle [OF idle a(1,2) HOL.refl a(3-)])
  have "engine_ok cd orig cfg st'"
    by (rule engine_fresh [OF f(2)])
      (use e f(3-8) reserve_frame [OF f(6)] in \<open>auto simp: engine_ok_def so_inv_def plan_frame_def arena_room_def\<close>)
  with f(1,6,9) that show thesis by blast
qed

lemma swapout_engine:
  assumes e: "engine_ok cd orig cfg st" and cd: "cd = cdx cfg (kv st)" and fits: "fits (backend cfg) (kv_hidden_dim (kv st))"
    and io: "io_writes env" "io_offload env"
  obtains st' r where "swapout env we cfg cd target st = Some (Ok (st', r))" "swapout_post cd orig cfg we target st (st', r)"
    "engine_ok cd orig cfg st'"
proof -
  have i: "so_inv cd orig cfg st" "pending_chunks_total (kv st) \<le> num_chunks_per_tensor (kv st)" "\<And>l. layer_fds (kv st) l = Closed"
    using e by (auto simp: engine_ok_def core_idle_def)
  obtain st' r where o: "swapout env we cfg cd target st = Some (Ok (st', r))" "swapout_post cd orig cfg we target st (st', r)"
    by (rule swapout_ok [OF i(1) cd fits io i(2,3)])
  then have a: "advanced cd orig cfg st st'" "\<forall>l. layer_fds (kv st') l = Closed" by (simp_all add: swapout_post_def)
  have "pending_chunks_total (kv st') \<le> num_chunks_per_tensor (kv st')"
    using advancedD(3) [OF a(1)] i(2) by (simp add: swap_rel_def plan_frame_def)
  with that [OF o advanced_engine [OF e a]] show thesis by blast
qed

end

end
