(* ===== verification/Flexgen_Codec.thy ===== *)
theory Flexgen_Codec
  imports Flexgen_Correct Engine
begin

text \<open>
  The FlexGen kernels implement the contract of a compression backend, for every number of threads and with
  or without fused multiply-add, so the swap-out and swap-in results hold for the FlexGen builds.
\<close>

interpretation fx: kv_codec "flexgen_codec fused nt" flexgen_fits for fused nt
proof
  fix b h key and raw xs :: bytes and i j :: int
  assume "flexgen_fits b h" and len: "length raw = raw_chunk_bytes h"
  then consider "b = FLEXGEN" | "b = FLEXGEN_8BIT" by (auto simp: flexgen_fits_def)
  note b = this
  show "dec (flexgen_codec fused nt b h) key i j (fst (enc (flexgen_codec fused nt b h) key i raw) @ xs)
          (snd (enc (flexgen_codec fused nt b h) key i raw))
      = dec (flexgen_codec fused nt b h) key i j (fst (enc (flexgen_codec fused nt b h) key i raw))
          (snd (enc (flexgen_codec fused nt b h) key i raw))"
    using b by cases (simp_all add: flexgen_codec_def flexgen_decompress_prefix flexgen_decompress_8bit_prefix
        flexgen_compress_size flexgen_compress_8bit_size [OF len])
  show "length (dec (flexgen_codec fused nt b h) key i j (fst (enc (flexgen_codec fused nt b h) key i raw))
          (snd (enc (flexgen_codec fused nt b h) key i raw))) = raw_chunk_bytes h"
    using b by cases (simp_all add: flexgen_codec_def flexgen_decompress_size flexgen_decompress_8bit_size
        flexgen_compress_size flexgen_compress_8bit_size [OF len])
next
  fix b h and k v :: bytes and i :: int
  assume "flexgen_fits b h" "length k = raw_chunk_bytes h" "length v = raw_chunk_bytes h"
  then show "length (fst (enc (flexgen_codec fused nt b h) True i k)) + length (fst (enc (flexgen_codec fused nt b h) False i v))
      \<le> min (kv_raw_size h) (comp_bound b (kv_raw_size h))"
    by (auto simp: flexgen_fits_def flexgen_codec_def flexgen_compress_size flexgen_compress_8bit_size kv_raw_size_def comp_bound_def)
qed (auto simp: flexgen_fits_def)

end
