(* ===== verification/Demo.thy ===== *)
theory Demo
  imports Flexgen_Codec
begin

text \<open>
  A small KV state built by the constructor (two layers, eight chunks per tensor, two hidden dimensions, FlexGen
  4-bit) and the states the swap-out operations make of it. The witnesses of the properties are about these
  states.
\<close>

type_synonym flexgen_meta = "u16 list \<times> u16 list"

definition demo_cfg :: config where
  "demo_cfg = \<lparr>backend = FLEXGEN, decomp_load_ratio = 1 / 2, fp_contract = False\<rparr>"

abbreviation demo_codec :: "flexgen_meta codec" where
  "demo_codec \<equiv> flexgen_codec False 2 FLEXGEN 2"

definition demo_env :: io_env where
  "demo_env = \<lparr>open_w = (\<lambda>_. True), open_r = (\<lambda>_. True), pwrite_n = (\<lambda>_ _ n. n), pread_n = (\<lambda>_ _ n. n),
     swap_w = (\<lambda>_. True), swap_r = (\<lambda>_. True), swap_pwrite_ok = (\<lambda>_ _ _. True), swap_pread_ok = (\<lambda>_ _ _. True),
     svm_alloc_ok = (\<lambda>_ _. True), fresh_mem = (\<lambda>_. []), arena_svm_enabled = False, arena_svm_ok = (\<lambda>_. False),
     mlock_ok = (\<lambda>_. True)\<rparr>"

definition demo_chunk :: chunk_mem where
  "demo_chunk = \<lparr>k_mem = replicate (raw_chunk_bytes 2) 60, v_mem = replicate (raw_chunk_bytes 2) 61, contiguous = True\<rparr>"

text \<open>The pointer table: chunk \<open>(i, j)\<close> at address \<open>256 * i + j\<close>.\<close>

definition demo_kv0 :: "flexgen_meta kv_state" where
  "demo_kv0 =
     \<lparr>num_layers = 0, kv_hidden_dim = 0, num_chunks_per_tensor = 0, per_layer_balance = 0, default_chunk_bound = 0,
      chunk_bound = (\<lambda>_. 0), cur_layer_idx_to_compress = 0, cur_layer_idx_to_store = 0, cur_chunk_idx_to_compress = 0,
      cur_chunk_idx_to_store = 0, max_comp_chunks = 0, max_store_chunks = 0, n_cur_comp_chunks = 0, n_cur_store_chunks = 0,
      n_cur_comp_saved_bytes = 0, n_cur_arena_offload_bytes = 0, arenas = (\<lambda>_. []), arena_bytes = 0, comp_left = (\<lambda>_. 0),
      layer_fds = (\<lambda>_. Closed), pending_chunks_total = 0, next_layer_to_offload = 0, offload_used_bytes = (\<lambda>_. []),
      states = (\<lambda>_ _. Raw), raw_chunks = (\<lambda>_ _. None),
      k_comp = (\<lambda>_ _. \<lparr>stack_id = 0, offset = 0, comp_size = 0, meta = ([], [])\<rparr>),
      v_comp = (\<lambda>_ _. \<lparr>stack_id = 0, offset = 0, comp_size = 0, meta = ([], [])\<rparr>),
      k_stored = (\<lambda>_ _. \<lparr>file_offset = 0, stored_size = 0\<rparr>), v_stored = (\<lambda>_ _. \<lparr>file_offset = 0, stored_size = 0\<rparr>),
      svm_chunk_ptrs = (\<lambda>i j. if 0 \<le> i \<and> i < 2 \<and> 0 \<le> j \<and> j < 8 then Some (nat (256 * i + j)) else None), svm_mem = (\<lambda>_. Some demo_chunk), svm_next = 10240,
      kv_file = (\<lambda>_ _. 0), swap_file = (\<lambda>_. None)\<rparr>"

lemma demo_table: "table_ok 2 2 8 demo_kv0"
  unfolding table_ok_def
proof (intro conjI allI impI)
  fix i j :: int assume a: "0 \<le> i \<and> i < 2 \<and> 0 \<le> j \<and> j < 8"
  show "\<exists>a m. svm_chunk_ptrs demo_kv0 i j = Some a \<and> a < svm_next demo_kv0 \<and> svm_mem demo_kv0 a = Some m \<and>
      length (k_mem m) = raw_chunk_bytes 2 \<and> length (v_mem m) = raw_chunk_bytes 2"
    by (rule exI [of _ "nat (256 * i + j)"], rule exI [of _ demo_chunk]) (use a in \<open>simp add: demo_kv0_def demo_chunk_def nat_less_iff\<close>)
next
  fix i j i' j' :: int
  assume a: "0 \<le> i \<and> i < 2 \<and> 0 \<le> j \<and> j < 8 \<and> 0 \<le> i' \<and> i' < 2 \<and> 0 \<le> j' \<and> j' < 8 \<and>
      svm_chunk_ptrs demo_kv0 i j = svm_chunk_ptrs demo_kv0 i' j'"
  then have "nat (256 * i + j) = nat (256 * i' + j')" "0 \<le> 256 * i + j" "0 \<le> 256 * i' + j'" by (auto simp: demo_kv0_def)
  then have "256 * i + j = 256 * i' + j'" by (simp only: eq_nat_nat_iff)
  moreover have "0 \<le> j" "j < 8" "0 \<le> j'" "j' < 8" using a by simp_all
  ultimately have "i \<le> i'" "i' \<le> i" "256 * i + j = 256 * i' + j'" by linarith+
  then show "i = i'" "j = j'" by simp_all
qed

lemma demo_io: "io_writes demo_env" "io_offload demo_env" "io_reload demo_env"
  by (simp_all add: demo_env_def io_writes_def io_offload_def io_reload_def)

lemma demo_ratio: "ratio_ok (decomp_load_ratio demo_cfg)"
  by (simp add: demo_cfg_def ratio_ok_def)

lemma demo_fits: "flexgen_fits (backend demo_cfg) 2" "backend demo_cfg = FLEXGEN"
  by (simp_all add: demo_cfg_def flexgen_fits_def)

text \<open>The state the constructor leaves, and what one compression and one store step make of it.\<close>

definition demo_kv :: "flexgen_meta kv_state" where
  "demo_kv = projr (mzcache_kv_state demo_cfg 2 2 8 2 demo_kv0)"

lemma demo_kv_facts:
  "mzcache_kv_state demo_cfg 2 2 8 2 demo_kv0 = Ok demo_kv" "kv_inv demo_codec demo_kv" "comp_taken demo_kv = []"
  "store_taken demo_kv = []" "num_layers demo_kv = 2" "kv_hidden_dim demo_kv = 2" "num_chunks_per_tensor demo_kv = 8"
  "layer_fds demo_kv l = Closed" "arena_room demo_cfg demo_kv" "per_layer_balance demo_kv = 2"
  "chunk_ix demo_kv i j \<Longrightarrow> chunk_view demo_codec demo_kv i j = Some (k_mem demo_chunk, v_mem demo_chunk)"
  "next_layer_to_offload demo_kv = 1" "n_cur_comp_saved_bytes demo_kv = 0" "n_cur_arena_offload_bytes demo_kv = 0"
  "reserve demo_kv" "pending_chunks_total demo_kv = 0"
    "svm_chunk_ptrs demo_kv = svm_chunk_ptrs demo_kv0" "svm_mem demo_kv = svm_mem demo_kv0" "svm_next demo_kv = svm_next demo_kv0"
proof -
  obtain s where s: "mzcache_kv_state demo_cfg 2 2 8 2 demo_kv0 = Ok s" "kv_inv demo_codec s" "comp_taken s = []" "store_taken s = []"
    "num_layers s = 2" "kv_hidden_dim s = 2" "num_chunks_per_tensor s = 8" "per_layer_balance s = 2"
    "\<And>l. layer_fds s l = Closed" "arena_room demo_cfg s" "next_layer_to_offload s = 2 - 1"
    "\<And>i j. chunk_ix s i j \<Longrightarrow> chunk_view demo_codec s i j = table_view demo_kv0 i j"
    "n_cur_comp_saved_bytes s = 0" "n_cur_arena_offload_bytes s = 0" "reserve s" "pending_chunks_total s = 0"
    "svm_chunk_ptrs s = svm_chunk_ptrs demo_kv0" "svm_mem s = svm_mem demo_kv0" "svm_next s = svm_next demo_kv0"
    by (rule constructed_inv [OF demo_ratio, of 2 2 8 2 demo_kv0]) (use demo_table in auto)
  have "demo_kv = s" by (simp add: demo_kv_def s(1))
  moreover have "table_view demo_kv0 i j = Some (k_mem demo_chunk, v_mem demo_chunk)" if "chunk_ix s i j"
    using that s(5,7) by (simp add: table_view_def demo_kv0_def chunk_ix_def)
  ultimately show "mzcache_kv_state demo_cfg 2 2 8 2 demo_kv0 = Ok demo_kv" "kv_inv demo_codec demo_kv" "comp_taken demo_kv = []"
    "store_taken demo_kv = []" "num_layers demo_kv = 2" "kv_hidden_dim demo_kv = 2" "num_chunks_per_tensor demo_kv = 8"
    "layer_fds demo_kv l = Closed" "arena_room demo_cfg demo_kv" "per_layer_balance demo_kv = 2"
    "chunk_ix demo_kv i j \<Longrightarrow> chunk_view demo_codec demo_kv i j = Some (k_mem demo_chunk, v_mem demo_chunk)"
    "next_layer_to_offload demo_kv = 1" "n_cur_comp_saved_bytes demo_kv = 0" "n_cur_arena_offload_bytes demo_kv = 0"
    "reserve demo_kv" "pending_chunks_total demo_kv = 0"
    "svm_chunk_ptrs demo_kv = svm_chunk_ptrs demo_kv0" "svm_mem demo_kv = svm_mem demo_kv0" "svm_next demo_kv = svm_next demo_kv0"
    using s by simp_all
qed

text \<open>The plan of the demo: the default bound is 4 chunks; the budget of 4 compress-only chunks makes layer 0 take
  6 of its 8.\<close>

lemma f32_half: "f32 (1 / 2) = 1 / 2"
  using fl_exact [of 1 24 "- 126" "- 1"] by simp

lemma demo_bounds: "chunk_bound demo_kv 0 = 6" "chunk_bound demo_kv 1 = 4"
proof -
  define s1 where "s1 = demo_kv0\<lparr>num_layers := 2, kv_hidden_dim := 2, num_chunks_per_tensor := 8,
                 max_comp_chunks := 0, max_store_chunks := 0, n_cur_comp_chunks := 0, n_cur_store_chunks := 0,
                 n_cur_comp_saved_bytes := 0, n_cur_arena_offload_bytes := 0,
                 arenas := (\<lambda>_. []), offload_used_bytes := (\<lambda>_. []), comp_left := (\<lambda>_. 0),
                 pending_chunks_total := 0, arena_bytes := arena_pool_bytes (backend demo_cfg) 2 8,
                 layer_fds := (\<lambda>_. Closed), per_layer_balance := 2\<rparr>"
  have pa: "plan_args demo_cfg s1" using demo_ratio by (simp add: plan_args_def s1_def)
  have fr: "chunk_bound t = chunk_bound s" if "init_layers tbl k i s = Ok t" for tbl k i and s t :: "flexgen_meta kv_state"
  proof -
    have ch: "chunk_bound t = chunk_bound s" if "init_chunks tbl i k j s = Ok t" for i k j and s t :: "flexgen_meta kv_state"
      using that by (induction k arbitrary: j s) (auto split: option.splits)
    show ?thesis using that by (induction k arbitrary: i s) (auto simp: bind_result_Ok_iff ch)
  qed
  have cb: "chunk_bound demo_kv = chunk_bound (derive_swapout_plan demo_cfg s1)"
    using demo_kv_facts(1) fr unfolding mzcache_kv_state_def Let_def s1_def [symmetric] by fastforce
  have h: "f32 2 = 2" "f32 4 = 4" "f32 6 = 6" "f32 8 = 8" by simp_all
  have "chunk_bound demo_kv i = plan_bound False (1 / 2) 8 4 i" if "0 \<le> i" "i < 2" for i
    using derived_bound [OF pa, of i] that cb by (simp add: s1_def demo_cfg_def)
  then show "chunk_bound demo_kv 0 = 6" "chunk_bound demo_kv 1 = 4"
    by (simp_all add: plan_bound_def split_bound_def default_bound_def imul32_def mla32_def h)
      (simp_all add: trunc_def)
qed

text \<open>Three chunks compressed, then two stored, the files closed again.\<close>

lemma demo_regions: "length (comp_rest demo_kv) = 10" "length (store_rest demo_kv) = 6"
proof -
  have c: "cursors_ok demo_kv" using demo_kv_facts(2) by (simp add: kv_inv_def)
  then have p: "plan_ok demo_kv" by (simp add: cursors_ok_def)
  have i: "{0..<2 :: int} = {0, 1}" by auto
  show "length (comp_rest demo_kv) = 10" "length (store_rest demo_kv) = 6"
    using creg.rest_length [OF p, of "cur_layer_idx_to_compress demo_kv" "cur_chunk_idx_to_compress demo_kv"]
      sreg.rest_length [OF p, of "cur_layer_idx_to_store demo_kv" "cur_chunk_idx_to_store demo_kv"] c demo_kv_facts(3,4)
    by (simp_all add: cursors_ok_def length_rows demo_kv_facts(5,7) i demo_bounds)
qed

definition demo_swapped :: "flexgen_meta kv_state" where
  "demo_swapped = mzcache_close_stored_files
     (projr (mzcache_store_chunks demo_env 2 (fst (projr (mzcache_compress_chunks demo_env demo_cfg demo_codec 3 demo_kv)))))"

lemma demo_swapped_facts:
  "kv_inv demo_codec demo_swapped" "length (comp_taken demo_swapped) = 3" "length (store_taken demo_swapped) = 2"
  "plan_frame demo_kv demo_swapped" "next_layer_to_offload demo_swapped = 1" "n_cur_arena_offload_bytes demo_swapped = 0"
  "layer_fds demo_swapped l = Closed"
proof -
  note d = demo_kv_facts and f = demo_fits
  have inv: "kv_inv (flexgen_codec False 2 (backend demo_cfg) (kv_hidden_dim demo_kv)) demo_kv" using d(2,6) f(2) by simp
  have "\<exists>s' t. compress_loop demo_env demo_cfg (flexgen_codec False 2 (backend demo_cfg) (kv_hidden_dim demo_kv)) 3 demo_kv 0 = Ok (s', t) \<and>
      kv_inv (flexgen_codec False 2 (backend demo_cfg) (kv_hidden_dim demo_kv)) s' \<and>
      compress_spec (flexgen_codec False 2 (backend demo_cfg) (kv_hidden_dim demo_kv)) 3 demo_kv s'"
    by (rule fx.compress_loop_ok [OF inv _ d(9)]) (use f d(6) demo_regions(1) in simp_all)
  then obtain s1 t where c: "mzcache_compress_chunks demo_env demo_cfg demo_codec 3 demo_kv = Ok (s1, t)" "kv_inv demo_codec s1"
    "compress_spec demo_codec 3 demo_kv s1" using d(6) f(2) by (auto simp: mzcache_compress_chunks_def)
  have r: "length (store_rest s1) = 6" "store_taken s1 = []" "next_layer_to_offload s1 = 1" "n_cur_arena_offload_bytes s1 = 0"
    "length (comp_taken s1) = 3" "plan_frame demo_kv s1"
    using c(3) demo_regions(2) d(3,4,12,14) unfolding compress_spec_def by auto
  have "\<exists>s'. store_loop demo_env 2 s1 = Ok s' \<and> kv_inv demo_codec s' \<and> store_spec demo_codec 2 s1 s'"
    by (rule store_loop_ok [OF c(2) demo_io(1)]) (simp add: r)
  then obtain s2 where s2: "mzcache_store_chunks demo_env 2 s1 = Ok s2" "kv_inv demo_codec s2" "store_spec demo_codec 2 s1 s2"
    by (auto simp: mzcache_store_chunks_def)
  have e: "demo_swapped = mzcache_close_stored_files s2" by (simp add: demo_swapped_def c(1) s2(1))
  have x: "next_layer_to_offload s2 = 1" "n_cur_arena_offload_bytes s2 = 0" "length (comp_taken s2) = 3" "length (store_taken s2) = 2"
    "plan_frame s1 s2" using s2(3) r unfolding store_spec_def by auto
  show "kv_inv demo_codec demo_swapped" unfolding e by (rule close_fds_inv(1) [OF s2(2)])
  have pf: "plan_frame demo_kv s2" using r(6) x(5) by (rule plan_frame_trans)
  with x(1-4) d(5) show "length (comp_taken demo_swapped) = 3" "length (store_taken demo_swapped) = 2"
    "plan_frame demo_kv demo_swapped" "next_layer_to_offload demo_swapped = 1" "n_cur_arena_offload_bytes demo_swapped = 0"
    unfolding e by (simp_all add: mzcache_close_stored_files_def close_fds_def plan_frame_def)
  show "layer_fds demo_swapped l = Closed" unfolding e by (rule close_fds_inv(3) [OF s2(2)])
qed

subsection \<open>A core at rest\<close>

text \<open>Both layers have a dump of their weights; layer 1 is unloaded, three chunks are compressed and two stored.\<close>

definition demo_layer :: "int \<Rightarrow> bytes" where
  "demo_layer i = [of_int i, 7, 9]"

definition demo_we :: w_env where
  "demo_we = \<lparr>w_unload_ok = (\<lambda>_. True), w_alloc_ok = (\<lambda>_. True), w_open_ok = (\<lambda>_. True), w_read_ok = (\<lambda>_. True),
     w_aligned = True, w_fresh = (\<lambda>_. [])\<rparr>"

definition demo_weight :: weight where
  "demo_weight = mzcache_weight 2 (\<lambda>i. Some (demo_layer i)) (\<lambda>i. if 0 \<le> i then Some (demo_layer i) else None)"

definition demo_core :: "flexgen_meta kv_state \<Rightarrow> weight \<Rightarrow> flexgen_meta core" where
  "demo_core s w = \<lparr>core_num_layers = 2, core_num_chunks = 8, decomp_num_chunks = 0, load_num_chunks = 0,
     weight_layer_bytes = 3, full_bytes = 6 + 2 * 8 * int (kv_raw_size 2), kv = s, wt = w, syncs = [],
     kv_alloc_done = (\<lambda>_. None), weight_alloc_done = (\<lambda>_. None), pool_of = ThreadPool (\<lambda>_. Some [0, 1])\<rparr>"

lemma demo_core_simps [simp]:
  "core_num_layers (demo_core s w) = 2" "core_num_chunks (demo_core s w) = 8" "kv (demo_core s w) = s" "wt (demo_core s w) = w"
  by (simp_all add: demo_core_def)

lemma demo_weight_inv: "weight_inv demo_layer demo_weight" "w_num_layers demo_weight = 2" "n_cur_unload_layers demo_weight = 0"
  by (auto simp: weight_inv_def demo_weight_def mzcache_weight_def)

lemma demo_idle:
  assumes "kv_inv demo_codec s" "num_layers s = 2" "\<And>l. layer_fds s l = Closed" "weight_inv demo_layer w" "w_num_layers w = 2"
  shows "core_idle demo_codec demo_layer (demo_core s w)"
  using assms
  by (auto simp: core_idle_def demo_core_def pool_good_def ThreadPool_def routed_def group_routed_def pool_pending_def pending_of_def group_pending_def)

definition demo_unloaded :: weight where
  "demo_unloaded = fst (mzcache_unload_layers demo_we 1 demo_weight)"

lemma demo_unloaded_inv: "weight_inv demo_layer demo_unloaded" "w_num_layers demo_unloaded = 2" "n_cur_unload_layers demo_unloaded = 1"
proof -
  have "mzcache_unload_layers demo_we 1 demo_weight = (demo_unloaded, True)"
    by (simp add: demo_unloaded_def mzcache_unload_layers_def demo_we_def demo_weight_def mzcache_weight_def Let_def)
  from unload_one(1,2,4) [OF demo_weight_inv(1) this] demo_weight_inv(2,3)
  show "weight_inv demo_layer demo_unloaded" "w_num_layers demo_unloaded = 2" "n_cur_unload_layers demo_unloaded = 1" by simp_all
qed

definition demo_swapped_core :: "flexgen_meta core" where
  "demo_swapped_core = demo_core demo_swapped demo_unloaded"

lemma demo_swapped_idle: "core_idle demo_codec demo_layer demo_swapped_core"
  unfolding demo_swapped_core_def
  by (rule demo_idle) (use demo_swapped_facts demo_kv_facts(5) demo_unloaded_inv in \<open>auto simp: plan_frame_def\<close>)

definition demo_fresh_core :: "flexgen_meta core" where
  "demo_fresh_core = demo_core demo_kv demo_weight"

lemma demo_fresh_ok: "engine_ok demo_codec demo_layer demo_cfg demo_fresh_core"
  unfolding demo_fresh_core_def
  by (rule engine_fresh [OF demo_idle])
    (use demo_kv_facts demo_weight_inv demo_ratio in auto)

lemma demo_reads: "io_reads demo_env" "w_io_ok demo_we" "unloadable demo_we demo_weight"
  by (auto simp: io_reads_def demo_env_def w_io_ok_def demo_we_def unloadable_def demo_weight_def mzcache_weight_def)

end
