(* ===== verification/Slices.thy ===== *)
theory Slices
  imports Mz_Prelude
begin

text \<open>
  Contiguous parts of a byte list, and overwriting one. A tensor of the model is a row of equally long chunks; these
  lemmas relate a part of one chunk to a part of the whole.
\<close>

definition slice :: "'a list \<Rightarrow> nat \<Rightarrow> nat \<Rightarrow> 'a list" where
  "slice xs i j = take (j - i) (drop i xs)"

definition splice :: "'a list \<Rightarrow> nat \<Rightarrow> 'a list \<Rightarrow> 'a list" where
  "splice xs i ys = take i xs @ ys @ drop (i + length ys) xs"

lemma length_slice [simp]: "j \<le> length xs \<Longrightarrow> length (slice xs i j) = j - i"
  by (simp add: slice_def)

lemma length_splice [simp]: "i + length ys \<le> length xs \<Longrightarrow> length (splice xs i ys) = length xs"
  by (simp add: splice_def)

lemma slice_same [simp]: "slice xs i i = []"
  by (simp add: slice_def)

lemma splice_Nil [simp]: "splice xs i [] = xs"
  by (simp add: splice_def)

lemma slice_append:
  assumes "i \<le> j" "j \<le> k" shows "slice xs i j @ slice xs j k = slice xs i k"
proof -
  obtain m n where "j = i + m" "k = i + m + n" using assms by (metis le_iff_add)
  then show ?thesis by (simp add: slice_def take_add add.commute)
qed

lemma slice_splice: "i + length ys \<le> length xs \<Longrightarrow> slice (splice xs i ys) i (i + length ys) = ys"
  by (simp add: slice_def splice_def)

lemma nth_splice:
  assumes "i + length ys \<le> length xs" "n < length xs"
  shows "splice xs i ys ! n = (if i \<le> n \<and> n < i + length ys then ys ! (n - i) else xs ! n)"
proof -
  consider "n < i" | "i \<le> n" "n < i + length ys" | "i + length ys \<le> n" by linarith
  then show ?thesis by cases (use assms in \<open>auto simp: splice_def nth_append\<close>)
qed

lemma slice_splice_disjoint:
  assumes "j \<le> i \<or> i + length ys \<le> k" "i + length ys \<le> length xs" "k \<le> j"
  shows "slice (splice xs i ys) k j = slice xs k j"
proof (rule nth_equalityI)
  show "length (slice (splice xs i ys) k j) = length (slice xs k j)" using assms by (simp add: slice_def)
  show "slice (splice xs i ys) k j ! n = slice xs k j ! n" if "n < length (slice (splice xs i ys) k j)" for n
    using assms that by (simp add: slice_def nth_splice nth_append) (auto simp: nth_splice)
qed

lemma splice_append:
  assumes "i + length (ys @ zs) \<le> length xs"
  shows "splice (splice xs i ys) (i + length ys) zs = splice xs i (ys @ zs)"
  using assms by (simp add: splice_def ac_simps)

lemma length_concat_eq:
  "(\<And>c. c \<in> set css \<Longrightarrow> length c = m) \<Longrightarrow> length (concat css) = length css * m"
  by (induction css) simp_all

lemma length_concat_take:
  assumes "\<And>c. c \<in> set css \<Longrightarrow> length c = m" "q \<le> length css"
  shows "length (concat (take q css)) = q * m"
proof -
  have "length (concat (take q css)) = length (take q css) * m"
    by (rule length_concat_eq) (use assms(1) in_set_takeD in metis)
  with assms(2) show ?thesis by simp
qed

lemma slice_concat:
  assumes "\<And>c. c \<in> set css \<Longrightarrow> length c = m" "q < length css" "y \<le> m"
  shows "slice (concat css) (q * m + x) (q * m + y) = slice (css ! q) x y"
proof -
  have css: "css = take q css @ css ! q # drop (Suc q) css" by (rule id_take_nth_drop [OF assms(2)])
  have l: "length (concat (take q css)) = q * m"
    by (rule length_concat_take) (use assms in auto)
  have c: "length (css ! q) = m" using assms by simp
  have "concat css = concat (take q css) @ css ! q @ concat (drop (Suc q) css)"
    by (subst css) (simp only: concat_append concat.simps)
  with l c assms(3) show ?thesis by (simp add: slice_def)
qed

lemma splice_concat:
  assumes "\<And>c. c \<in> set css \<Longrightarrow> length c = m" "q < length css" "x + length ys \<le> m"
  shows "splice (concat css) (q * m + x) ys = concat (css[q := splice (css ! q) x ys])"
proof -
  have css: "css = take q css @ css ! q # drop (Suc q) css" by (rule id_take_nth_drop [OF assms(2)])
  have l: "length (concat (take q css)) = q * m"
    by (rule length_concat_take) (use assms in auto)
  have c: "length (css ! q) = m" using assms by simp
  have "concat css = concat (take q css) @ css ! q @ concat (drop (Suc q) css)"
    by (subst css) (simp only: concat_append concat.simps)
  with l c assms(3) show ?thesis
    by (simp add: splice_def upd_conv_take_nth_drop [OF assms(2)] add.assoc)
qed

end
