(* ===== verification/Kv_Ops.thy ===== *)
theory Kv_Ops
  imports Kv_Init Slices
begin

text \<open>
  \<open>mzcache/src/mzcache_kv_ops.cpp\<close>: saving and restoring the rows of a K or V tensor that lives in 256-token chunks,
  and creating the chunks. A slot of \<open>g_svm_chunk_ptrs\<close> is \<open>2 * il\<close> for the K table of layer \<open>il\<close> and \<open>2 * il + 1\<close>
  for its V table. \<open>llama_io_write_i\<close> is the bytes written so far, \<open>llama_io_read_i\<close> the bytes not yet read; a read
  past the end throws. Byte counts are computed in \<open>size_t\<close>, the end of a restored range in \<open>uint32_t\<close>.

  The reference is a contiguous tensor: chunk-wise writing equals writing the rows of the concatenated chunks, and
  chunk-wise reading overwrites exactly those rows.
\<close>

definition size_t :: "int \<Rightarrow> nat" where
  "size_t x = nat (x mod 2 ^ 64)"

definition slot_mem :: "'m kv_state \<Rightarrow> int \<Rightarrow> int \<Rightarrow> bytes option" where
  "slot_mem s slot ci =
     (case svm_chunk_ptrs s (slot div 2) ci of None \<Rightarrow> None
      | Some a \<Rightarrow> map_option (if even slot then k_mem else v_mem) (svm_mem s a))"

definition set_slot_mem :: "'m kv_state \<Rightarrow> int \<Rightarrow> int \<Rightarrow> bytes \<Rightarrow> 'm kv_state" where
  "set_slot_mem s slot ci bs =
     (case svm_chunk_ptrs s (slot div 2) ci of None \<Rightarrow> s
      | Some a \<Rightarrow> s\<lparr>svm_mem := (svm_mem s)(a := map_option
          (\<lambda>m. if even slot then m\<lparr>k_mem := bs\<rparr> else m\<lparr>v_mem := bs\<rparr>) (svm_mem s a))\<rparr>)"

subsection \<open>Writing\<close>

text \<open>Offset in and number of bytes from chunk \<open>ci\<close> for the token range \<open>[start, end)\<close>.\<close>

definition write_extent :: "int \<Rightarrow> int \<Rightarrow> nat \<Rightarrow> int \<Rightarrow> nat \<times> nat" where
  "write_extent start_token end_token size_row ci =
     (let first_chunk = c_div start_token 256; last_chunk = c_div (end_token - 1) 256;
          full_chunk_bytes = size_t (256 * int size_row);
          head_offset = size_t (start_token mod 256 * int size_row)
      in if first_chunk = last_chunk then (head_offset, size_t ((end_token - start_token) * int size_row))
         else if ci = first_chunk then (head_offset, size_t (int full_chunk_bytes - int head_offset))
         else if ci = last_chunk then (0, size_t ((end_token - last_chunk * 256) * int size_row))
         else (0, full_chunk_bytes))"

fun write_loop :: "'m kv_state \<Rightarrow> int \<Rightarrow> nat \<Rightarrow> int \<Rightarrow> int \<Rightarrow> nat \<Rightarrow> int \<Rightarrow> bytes \<Rightarrow> bytes result" where
  "write_loop s slot size_row a b 0 ci io = Ok io"
| "write_loop s slot size_row a b (Suc k) ci io =
     (if ci < 0 \<or> MAX_CHUNKS_PER_TENSOR \<le> ci then Err OutOfBounds
      else let (offset_bytes, bytes_to_write) = write_extent a b size_row ci
           in if bytes_to_write = 0 then write_loop s slot size_row a b k (ci + 1) io
              else (case slot_mem s slot ci of None \<Rightarrow> Err UseAfterFree
                | Some m \<Rightarrow> if length m < offset_bytes + bytes_to_write then Err OutOfBounds
                    else write_loop s slot size_row a b k (ci + 1) (io @ take bytes_to_write (drop offset_bytes m))))"

fun chunk_write :: "'m kv_state \<Rightarrow> int \<Rightarrow> nat \<Rightarrow> (u32 \<times> u32) list \<Rightarrow> bytes \<Rightarrow> bytes result" where
  "chunk_write s slot size_row [] io = Ok io"
| "chunk_write s slot size_row ((st, en) # ranges) io =
     (if uint st \<ge> uint en then chunk_write s slot size_row ranges io
      else bind_result
        (write_loop s slot size_row (uint st) (uint en)
          (nat (c_div (uint en - 1) 256 - c_div (uint st) 256 + 1)) (c_div (uint st) 256) io)
        (chunk_write s slot size_row ranges))"

definition state_write_k_chunked :: "'m kv_state \<Rightarrow> nat \<Rightarrow> nat \<Rightarrow> (u32 \<times> u32) list \<Rightarrow> bytes \<Rightarrow> bytes result" where
  "state_write_k_chunked s il k_size_row cell_ranges io = chunk_write s (2 * int il) k_size_row cell_ranges io"

definition state_write_v_chunked :: "'m kv_state \<Rightarrow> nat \<Rightarrow> nat \<Rightarrow> (u32 \<times> u32) list \<Rightarrow> bytes \<Rightarrow> bytes result" where
  "state_write_v_chunked s il v_size_row cell_ranges io = chunk_write s (2 * int il + 1) v_size_row cell_ranges io"

subsection \<open>Reading\<close>

definition io_read :: "bytes \<Rightarrow> nat \<Rightarrow> (bytes \<times> bytes) result" where
  "io_read io n =
     (if n > length io then Err (RuntimeError ''unexpectedly reached end of buffer'')
      else Ok (take n io, drop n io))"

definition read_extent :: "int \<Rightarrow> int \<Rightarrow> nat \<Rightarrow> nat \<Rightarrow> int \<Rightarrow> nat \<times> nat" where
  "read_extent start_token end_token cell_count size_row ci =
     (let first_chunk = c_div start_token 256; last_chunk = c_div (end_token - 1) 256;
          full_chunk_bytes = size_t (256 * int size_row);
          head_offset = size_t (start_token mod 256 * int size_row)
      in if first_chunk = last_chunk then (head_offset, size_t (int cell_count * int size_row))
         else if ci = first_chunk then (head_offset, size_t (int full_chunk_bytes - int head_offset))
         else if ci = last_chunk then (0, size_t ((end_token - last_chunk * 256) * int size_row))
         else (0, full_chunk_bytes))"

fun read_loop ::
  "int \<Rightarrow> nat \<Rightarrow> nat \<Rightarrow> int \<Rightarrow> int \<Rightarrow> nat \<Rightarrow> int \<Rightarrow> 'm kv_state \<Rightarrow> bytes \<Rightarrow> ('m kv_state \<times> bytes) result" where
  "read_loop slot size_row cell_count a b 0 ci s io = Ok (s, io)"
| "read_loop slot size_row cell_count a b (Suc k) ci s io =
     (if ci < 0 \<or> MAX_CHUNKS_PER_TENSOR \<le> ci then Err OutOfBounds
      else if svm_chunk_ptrs s (slot div 2) ci = None then Err (RuntimeError ''chunk_read: chunk is not resident'')
      else let (offset_bytes, bytes_to_read) = read_extent a b cell_count size_row ci
           in bind_result (io_read io bytes_to_read) (\<lambda>(data, io').
             (case slot_mem s slot ci of None \<Rightarrow> Err UseAfterFree
              | Some m \<Rightarrow> if length m < offset_bytes + bytes_to_read then Err OutOfBounds
                  else read_loop slot size_row cell_count a b k (ci + 1)
                         (set_slot_mem s slot ci (splice m offset_bytes data)) io')))"

text \<open>\<open>head + cell_count\<close> is a sum of two \<open>uint32_t\<close>.\<close>

definition chunk_read ::
  "int \<Rightarrow> nat \<Rightarrow> u32 \<Rightarrow> u32 \<Rightarrow> 'm kv_state \<Rightarrow> bytes \<Rightarrow> ('m kv_state \<times> bytes) result" where
  "chunk_read slot size_row cell_count head s io =
     (let start_token = uint head; end_token = uint (head + cell_count);
          first_chunk = c_div start_token 256; last_chunk = c_div (end_token - 1) 256
      in read_loop slot size_row (unat cell_count) start_token end_token
           (nat (last_chunk - first_chunk + 1)) first_chunk s io)"

definition state_read_k_chunked ::
  "nat \<Rightarrow> nat \<Rightarrow> u32 \<Rightarrow> u32 \<Rightarrow> 'm kv_state \<Rightarrow> bytes \<Rightarrow> ('m kv_state \<times> bytes) result" where
  "state_read_k_chunked il k_size_row cell_count head s io = chunk_read (2 * int il) k_size_row cell_count head s io"

definition state_read_v_chunked ::
  "nat \<Rightarrow> nat \<Rightarrow> u32 \<Rightarrow> u32 \<Rightarrow> 'm kv_state \<Rightarrow> bytes \<Rightarrow> ('m kv_state \<times> bytes) result" where
  "state_read_v_chunked il v_size_row cell_count head s io = chunk_read (2 * int il + 1) v_size_row cell_count head s io"

subsection \<open>The contiguous reference\<close>

definition tensor_bytes :: "'m kv_state \<Rightarrow> int \<Rightarrow> nat \<Rightarrow> bytes" where
  "tensor_bytes s slot n = concat (map (\<lambda>j. the (slot_mem s slot (int j))) [0..<n])"

definition tensor_ok :: "nat \<Rightarrow> 'm kv_state \<Rightarrow> int \<Rightarrow> nat \<Rightarrow> bool" where
  "tensor_ok size_row s slot n \<longleftrightarrow> n \<le> 256 \<and> 256 * size_row < 2 ^ 64 \<and>
     (\<forall>j<n. \<exists>m. slot_mem s slot (int j) = Some m \<and> length m = 256 * size_row)"

lemma c_div_nat: "c_div (int a) 256 = int (a div 256)"
  by (cases "a = 0") (simp_all add: c_div_def zdiv_int)

lemma div256: "256 * (x div 256) \<le> x" "x < 256 * (x div 256) + 256" for x :: nat
  using div_mult_mod_eq [of x 256] mod_less_divisor [of 256 x] by linarith+

lemma size_t_small: "0 \<le> x \<Longrightarrow> x < 2 ^ 64 \<Longrightarrow> size_t x = nat x"
  by (simp add: size_t_def)

lemma size_t_mult: "q \<le> 256 \<Longrightarrow> 256 * r < 2 ^ 64 \<Longrightarrow> size_t (int q * int r) = q * r"
proof -
  assume "q \<le> 256" "256 * r < 2 ^ 64"
  then have "q * r < 2 ^ 64" by (meson mult_le_mono1 order_le_less_trans)
  then have "int q * int r < 2 ^ 64" by (metis of_nat_less_iff of_nat_mult of_nat_numeral of_nat_power)
  then show ?thesis by (simp add: size_t_small nat_mult_distrib)
qed

text \<open>The part of \<open>[a, b)\<close> in chunk \<open>c\<close>, in tokens of the chunk.\<close>

lemma write_extent_eq:
  assumes "a < b" "a div 256 \<le> c" "c \<le> (b - 1) div 256" "256 * w < 2 ^ 64"
  shows "write_extent (int a) (int b) w (int c) = ((max a (256 * c) - 256 * c) * w, (min b (256 * c + 256) - max a (256 * c)) * w)"
proof -
  have d: "c_div (int a) 256 = int (a div 256)" "c_div (int b - 1) 256 = int ((b - 1) div 256)"
    using c_div_nat [of "b - 1"] assms(1) by (simp_all add: c_div_nat of_nat_diff)
  have off: "size_t (int a mod 256 * int w) = (a mod 256) * w"
    using size_t_mult [of "a mod 256" w] assms(4) by (simp add: zmod_int)
  have full: "size_t (256 * int w) = 256 * w" using size_t_mult [of 256 w] assms(4) by simp
  note dv = div256 [of a] div256 [of "b - 1"]
  consider "a div 256 = (b - 1) div 256" | "c = a div 256" "c < (b - 1) div 256" | "a div 256 < c" "c = (b - 1) div 256"
    | "a div 256 < c" "c < (b - 1) div 256" using assms(2,3) by linarith
  then show ?thesis
  proof cases
    case 1
    then have c: "c = a div 256" using assms by linarith
    have "b \<le> 256 * c + 256" "256 * c \<le> a" using 1 c assms(1) dv by linarith+
    then have e: "max a (256 * c) = a" "min b (256 * c + 256) = b" "b - a \<le> 256" "a - 256 * c = a mod 256"
      using c by (simp_all add: minus_mult_div_eq_mod)
    have "size_t ((int b - int a) * int w) = (b - a) * w"
      using size_t_mult [OF e(3) assms(4)] assms(1) by (simp add: of_nat_diff)
    with 1 show ?thesis by (simp add: write_extent_def d off e)
  next
    case 2
    have "256 * c + 256 \<le> b" "256 * c \<le> a" "a < 256 * c + 256" using 2 assms(1) dv by linarith+
    then have e: "max a (256 * c) = a" "min b (256 * c + 256) = 256 * c + 256" "a - 256 * c = a mod 256"
      using 2 by (simp_all add: minus_mult_div_eq_mod)
    have r: "256 * c + 256 - a = 256 - a mod 256" using e(3) \<open>256 * c \<le> a\<close> by linarith
    have "size_t (256 * int w - int (a mod 256 * w)) = (256 - a mod 256) * w"
      using size_t_mult [of "256 - a mod 256" w] assms(4) by (simp add: of_nat_diff left_diff_distrib)
    then show ?thesis using 2 e r by (simp add: write_extent_def d off full)
  next
    case 3
    have "256 * c < b" "b \<le> 256 * c + 256" "a \<le> 256 * c" using 3 assms(1) dv by linarith+
    then have e: "max a (256 * c) = 256 * c" "min b (256 * c + 256) = b" "b - 256 * c \<le> 256" by simp_all
    have "size_t ((int b - int c * 256) * int w) = (b - 256 * c) * w"
      using size_t_mult [OF e(3) assms(4)] \<open>256 * c < b\<close> by (simp add: of_nat_diff mult.commute)
    moreover have "write_extent (int a) (int b) w (int c) = (0, size_t ((int b - int c * 256) * int w))"
      unfolding write_extent_def Let_def d 3(2) [symmetric] using 3(1) by simp
    ultimately show ?thesis using e by simp
  next
    case 4
    have "256 * c + 256 \<le> b" "a \<le> 256 * c" using 4 assms(1) dv by linarith+
    then have e: "max a (256 * c) = 256 * c" "min b (256 * c + 256) = 256 * c + 256" by simp_all
    moreover have "write_extent (int a) (int b) w (int c) = (0, 256 * w)"
      unfolding write_extent_def Let_def d full using 4 by simp
    ultimately show ?thesis by simp
  qed
qed

lemma read_extent_eq:
  assumes "int b = int a + int n" "0 < n"
  shows "read_extent (int a) (int b) n w c = write_extent (int a) (int b) w c"
  using assms by (simp add: read_extent_def write_extent_def Let_def)

lemma tensor_slice:
  assumes "tensor_ok w s slot n" "c < n" "slot_mem s slot (int c) = Some m" "y \<le> 256"
  shows "slice (tensor_bytes s slot n) ((256 * c + x) * w) ((256 * c + y) * w) = slice m (x * w) (y * w)"
proof -
  let ?cs = "map (\<lambda>j. the (slot_mem s slot (int j))) [0..<n]"
  have "slice (concat ?cs) (c * (256 * w) + x * w) (c * (256 * w) + y * w) = slice (?cs ! c) (x * w) (y * w)"
    by (rule slice_concat) (use assms in \<open>auto simp: tensor_ok_def\<close>)
  moreover have "c * (256 * w) + z * w = (256 * c + z) * w" for z by (simp add: algebra_simps)
  ultimately show ?thesis using assms(2,3) by (simp add: tensor_bytes_def)
qed

lemma tensor_length: "tensor_ok w s slot n \<Longrightarrow> length (tensor_bytes s slot n) = n * (256 * w)"
  unfolding tensor_bytes_def by (subst length_concat_eq [where m = "256 * w"]) (auto simp: tensor_ok_def)

lemma write_loop_slice:
  assumes ok: "tensor_ok w s slot n" and ab: "a < b" "b \<le> 256 * n"
    and "a div 256 \<le> c" "k + c = (b - 1) div 256 + 1"
  shows "write_loop s slot w (int a) (int b) k (int c) io = Ok (io @ slice (tensor_bytes s slot n) (max a (256 * c) * w) (b * w))"
  using assms(4,5)
proof (induction k arbitrary: c io)
  case 0
  then have "b \<le> 256 * c" using div256 [of "b - 1"] ab(1) by linarith
  with ab(1) show ?case by (simp add: slice_def)
next
  case (Suc k)
  let ?F = "tensor_bytes s slot n"
  define lo hi where "lo = max a (256 * c)" and "hi = min b (256 * c + 256)"
  have c: "c \<le> (b - 1) div 256" "c < n" "n \<le> 256" "256 * w < 2 ^ 64"
    using Suc.prems ab div256 [of "b - 1"] ok by (auto simp: tensor_ok_def)
  have lohi: "lo < hi" "hi \<le> b" "256 * c \<le> lo" "hi \<le> 256 * c + 256"
    using Suc.prems(1) c(1) ab div256 [of "b - 1"] div256 [of a] unfolding lo_def hi_def by linarith+
  define x y where "x = lo - 256 * c" and "y = hi - 256 * c"
  have xy: "lo = 256 * c + x" "hi = 256 * c + y" "x < y" "y \<le> 256" "hi - lo = y - x"
    using lohi unfolding x_def y_def by linarith+
  have ex: "write_extent (int a) (int b) w (int c) = (x * w, (y - x) * w)"
    using write_extent_eq [OF ab(1) Suc.prems(1) c(1,4)] xy(5) unfolding lo_def [symmetric] hi_def [symmetric] x_def [symmetric] by simp
  obtain m where m: "slot_mem s slot (int c) = Some m" "length m = 256 * w" using ok c(2) by (auto simp: tensor_ok_def)
  have sl: "slice ?F (lo * w) (hi * w) = take ((y - x) * w) (drop (x * w) m)"
    unfolding xy(1,2) tensor_slice [OF ok c(2) m(1) xy(4)] by (simp add: slice_def diff_mult_distrib)
  have "x * w + (y - x) * w = y * w" using xy(3) by (simp add: diff_mult_distrib)
  moreover have "y * w \<le> length m" using xy(4) m(2) by simp
  ultimately have fit: "x * w + (y - x) * w \<le> length m" by simp
  have "a < 256 * c + 256" using Suc.prems(1) div256(2) [of a] by linarith
  then have nxt: "max a (256 * (c + 1)) = hi \<or> b \<le> 256 * (c + 1)" by (auto simp: hi_def)
  have step: "slice ?F (lo * w) (hi * w) @ slice ?F (max a (256 * (c + 1)) * w) (b * w) = slice ?F (lo * w) (b * w)"
  proof (cases "b \<le> 256 * (c + 1)")
    case True
    then have "slice ?F (max a (256 * (c + 1)) * w) (b * w) = []" "hi = b" by (auto simp: slice_def hi_def)
    then show ?thesis by simp
  next
    case False
    with nxt lohi show ?thesis by (simp add: slice_append)
  qed
  have ih: "write_loop s slot w (int a) (int b) k (int (c + 1)) io' = Ok (io' @ slice ?F (max a (256 * (c + 1)) * w) (b * w))" for io'
    using Suc.IH [of "c + 1" io'] Suc.prems by simp
  have "write_loop s slot w (int a) (int b) (Suc k) (int c) io
      = write_loop s slot w (int a) (int b) k (int (c + 1)) (io @ slice ?F (lo * w) (hi * w))"
    using c(2,3) m(1) fit unfolding sl by (simp add: ex add.commute)
  then show ?case unfolding ih using step by (simp add: lo_def)
qed

lemma chunk_write_ranges:
  assumes ok: "tensor_ok w s slot n" and "\<And>x y. (x, y) \<in> set ranges \<Longrightarrow> unat y \<le> 256 * n"
  shows "chunk_write s slot w ranges io = Ok (io @ concat (map (\<lambda>(x, y). slice (tensor_bytes s slot n) (unat x * w) (unat y * w)) ranges))"
  using assms(2)
proof (induction ranges arbitrary: io)
  case (Cons r ranges)
  obtain x y where r: "r = (x, y)" by fastforce
  let ?F = "tensor_bytes s slot n"
  have ih: "chunk_write s slot w ranges io' = Ok (io' @ concat (map (\<lambda>(x, y). slice ?F (unat x * w) (unat y * w)) ranges))" for io'
    using Cons.IH [of io'] Cons.prems by (meson list.set_intros(2))
  have le: "unat y \<le> 256 * n" using Cons.prems [of x y] by (simp add: r)
  show ?case
  proof (cases "unat x < unat y")
    case False
    then have "slice ?F (unat x * w) (unat y * w) = []" by (auto simp: slice_def)
    moreover have "uint y \<le> uint x" using False by (simp flip: word_le_def word_less_nat_alt)
    ultimately show ?thesis using ih by (simp add: r)
  next
    case True
    let ?a = "unat x" and ?b = "unat y"
    have u: "uint x = int ?a" "uint y = int ?b" "int ?b - 1 = int (?b - 1)" using True by (simp_all only: uint_nat)
    have d: "c_div (uint x) 256 = int (?a div 256)" "c_div (uint y - 1) 256 = int ((?b - 1) div 256)"
      unfolding u by (rule c_div_nat)+
    have k: "nat (int ((?b - 1) div 256) - int (?a div 256) + 1) + ?a div 256 = (?b - 1) div 256 + 1"
      using div_le_mono [of ?a "?b - 1" 256] True by simp
    have "max ?a (256 * (?a div 256)) = ?a" using div256(1) [of ?a] by simp
    with write_loop_slice [OF ok True le order_refl k, of io]
    have l: "write_loop s slot w (uint x) (uint y) (nat (int ((?b - 1) div 256) - int (?a div 256) + 1)) (int (?a div 256)) io
        = Ok (io @ slice ?F (?a * w) (?b * w))" unfolding u by simp
    have "\<not> uint y \<le> uint x" using True unfolding u by linarith
    then show ?thesis unfolding r chunk_write.simps d l by (simp add: ih)
  qed
qed simp

subsection \<open>Restoring overwrites the rows\<close>

definition ptrs_inj :: "int \<Rightarrow> int \<Rightarrow> 'm kv_state \<Rightarrow> bool" where
  "ptrs_inj L N s \<longleftrightarrow> (\<forall>i j i' j' a. 0 \<le> i \<and> i < L \<and> 0 \<le> j \<and> j < N \<and> 0 \<le> i' \<and> i' < L \<and> 0 \<le> j' \<and> j' < N \<and>
     svm_chunk_ptrs s i j = Some a \<and> svm_chunk_ptrs s i' j' = Some a \<longrightarrow> i = i' \<and> j = j')"

definition slot_ix :: "int \<Rightarrow> int \<Rightarrow> int \<Rightarrow> int \<Rightarrow> bool" where
  "slot_ix L N slot ci \<longleftrightarrow> 0 \<le> slot \<and> slot < 2 * L \<and> 0 \<le> ci \<and> ci < N"

definition same_shape :: "chunk_mem \<Rightarrow> chunk_mem \<Rightarrow> bool" where
  "same_shape m m' \<longleftrightarrow> length (k_mem m') = length (k_mem m) \<and> length (v_mem m') = length (v_mem m) \<and> contiguous m' = contiguous m"

definition mem_written :: "'m kv_state \<Rightarrow> 'm kv_state \<Rightarrow> bool" where
  "mem_written s s' \<longleftrightarrow> s' = s\<lparr>svm_mem := svm_mem s'\<rparr> \<and> (\<forall>a. rel_option same_shape (svm_mem s a) (svm_mem s' a))"

lemma same_shape_refl [simp]: "same_shape m m"
  by (simp add: same_shape_def)

lemma mem_written_refl [simp]: "mem_written s s"
  by (simp add: mem_written_def option.rel_refl)

lemma mem_written_trans: "mem_written s t \<Longrightarrow> mem_written t u \<Longrightarrow> mem_written s u"
proof -
  assume st: "mem_written s t" and tu: "mem_written t u"
  have "rel_option same_shape (svm_mem s a) (svm_mem u a)" for a
    using st tu unfolding mem_written_def same_shape_def by (auto elim!: allE [of _ a] simp: option_rel_Some2 option.rel_sel)
  moreover have "u = s\<lparr>svm_mem := svm_mem u\<rparr>"
  proof -
    obtain A B where "t = s\<lparr>svm_mem := A\<rparr>" "u = t\<lparr>svm_mem := B\<rparr>" using st tu unfolding mem_written_def by blast
    then show ?thesis by simp
  qed
  ultimately show ?thesis by (simp add: mem_written_def)
qed

lemma slot_ixD: "slot_ix L N slot ci \<Longrightarrow> 0 \<le> slot div 2 \<and> slot div 2 < L \<and> 0 \<le> ci \<and> ci < N"
  by (auto simp: slot_ix_def)

lemma slot_mem_set:
  assumes inj: "ptrs_inj L N s" and ix: "slot_ix L N slot ci" "slot_ix L N slot' cj" and m: "slot_mem s slot ci = Some m"
  shows "slot_mem (set_slot_mem s slot ci bs) slot' cj = (if slot' = slot \<and> cj = ci then Some bs else slot_mem s slot' cj)"
proof -
  obtain a r where a: "svm_chunk_ptrs s (slot div 2) ci = Some a" "svm_mem s a = Some r"
    using m by (auto simp: slot_mem_def split: option.splits)
  have same: "slot' div 2 = slot div 2 \<and> cj = ci" if "svm_chunk_ptrs s (slot' div 2) cj = Some a"
    using inj that a(1) slot_ixD [OF ix(1)] slot_ixD [OF ix(2)] unfolding ptrs_inj_def by blast
  show ?thesis
  proof (cases "svm_chunk_ptrs s (slot' div 2) cj = Some a")
    case True
    note e = same [OF True]
    have "slot' = 2 * (slot div 2) + slot' mod 2" "slot = 2 * (slot div 2) + slot mod 2"
      using e mult_div_mod_eq [of 2 slot'] mult_div_mod_eq [of 2 slot] by auto
    then have "even slot' = even slot \<longleftrightarrow> slot' = slot" by presburger
    with e a m show ?thesis by (auto simp: slot_mem_def set_slot_mem_def)
  next
    case False
    with a have "\<not> (slot' = slot \<and> cj = ci)" by auto
    with False a show ?thesis by (auto simp: slot_mem_def set_slot_mem_def split: option.split)
  qed
qed

lemma set_slot_mem_written:
  assumes "slot_mem s slot ci = Some m" "length bs = length m"
  shows "mem_written s (set_slot_mem s slot ci bs)"
proof -
  obtain a r where a: "svm_chunk_ptrs s (slot div 2) ci = Some a" "svm_mem s a = Some r"
      "m = (if even slot then k_mem r else v_mem r)"
    using assms(1) by (auto simp: slot_mem_def split: option.splits)
  then show ?thesis using assms(2)
    by (simp add: set_slot_mem_def mem_written_def same_shape_def option.rel_refl)
qed

lemma mem_writtenE:
  assumes "mem_written s t" obtains A where "t = s\<lparr>svm_mem := A\<rparr>"
  using assms unfolding mem_written_def by blast

lemma mem_written_ptrs: "mem_written s t \<Longrightarrow> svm_chunk_ptrs t = svm_chunk_ptrs s"
  by (erule mem_writtenE) simp

lemma mem_written_inj: "mem_written s t \<Longrightarrow> ptrs_inj L N t = ptrs_inj L N s"
  by (simp add: ptrs_inj_def mem_written_ptrs)

text \<open>One chunk of a restore.\<close>

lemma tensor_set:
  assumes ok: "tensor_ok w s slot n" "ptrs_inj L N s" "0 \<le> slot" "slot < 2 * L" "int n \<le> N" "c < n"
    and m: "slot_mem s slot (int c) = Some m" and x: "x * w + length d \<le> 256 * w"
  shows "tensor_ok w (set_slot_mem s slot (int c) (splice m (x * w) d)) slot n"
    "tensor_bytes (set_slot_mem s slot (int c) (splice m (x * w) d)) slot n = splice (tensor_bytes s slot n) ((256 * c + x) * w) d"
proof -
  let ?t = "set_slot_mem s slot (int c) (splice m (x * w) d)"
  have lm: "length m = 256 * w" using ok(1,6) m by (auto simp: tensor_ok_def)
  have ix: "slot_ix L N slot (int j)" if "j < n" for j using ok that by (simp add: slot_ix_def)
  have mem: "slot_mem ?t slot (int j) = (if j = c then Some (splice m (x * w) d) else slot_mem s slot (int j))" if "j < n" for j
    using slot_mem_set [OF ok(2) ix [OF ok(6)] ix [OF that] m] by simp
  then show "tensor_ok w ?t slot n" using ok(1) lm x by (auto simp: tensor_ok_def)
  let ?cs = "map (\<lambda>j. the (slot_mem s slot (int j))) [0..<n]"
  have upd: "map (\<lambda>j. the (slot_mem ?t slot (int j))) [0..<n] = ?cs[c := splice (?cs ! c) (x * w) d]"
    by (rule nth_equalityI) (use mem m ok(6) in \<open>auto simp: nth_list_update\<close>)
  have "splice (concat ?cs) (c * (256 * w) + x * w) d = concat (?cs[c := splice (?cs ! c) (x * w) d])"
    by (rule splice_concat) (use ok(1,6) x in \<open>auto simp: tensor_ok_def\<close>)
  moreover have "c * (256 * w) + x * w = (256 * c + x) * w" by (simp add: algebra_simps)
  ultimately show "tensor_bytes ?t slot n = splice (tensor_bytes s slot n) ((256 * c + x) * w) d"
    by (simp add: tensor_bytes_def upd)
qed

definition restored ::
  "int \<Rightarrow> int \<Rightarrow> int \<Rightarrow> nat \<Rightarrow> nat \<Rightarrow> bytes \<Rightarrow> 'm kv_state \<Rightarrow> 'm kv_state \<Rightarrow> bool" where
  "restored L N slot n pos data s s' \<longleftrightarrow>
     tensor_bytes s' slot n = splice (tensor_bytes s slot n) pos data \<and> mem_written s s' \<and>
     (\<forall>slot' cj. slot_ix L N slot' cj \<and> slot' \<noteq> slot \<longrightarrow> slot_mem s' slot' cj = slot_mem s slot' cj)"

lemma read_loop_splice:
  assumes "tensor_ok w s slot n" "ptrs_inj L N s" and fixd: "0 \<le> slot" "slot < 2 * L" "int n \<le> N" and ab: "a < b" "b \<le> 256 * n"
    and "a div 256 \<le> c" "k + c = (b - 1) div 256 + 1" "length d = (b - max a (256 * c)) * w"
  shows "\<exists>s'. read_loop slot w (b - a) (int a) (int b) k (int c) s (d @ io) = Ok (s', io) \<and> tensor_ok w s' slot n \<and>
    restored L N slot n (max a (256 * c) * w) d s s'"
  using assms(1,2,8-)
proof (induction k arbitrary: c s d)
  case 0
  then have "b \<le> 256 * c" using div256 [of "b - 1"] ab(1) by linarith
  with 0 show ?case by (simp add: restored_def)
next
  case (Suc k)
  define lo hi where "lo = max a (256 * c)" and "hi = min b (256 * c + 256)"
  have c: "c \<le> (b - 1) div 256" "c < n" "n \<le> 256" "256 * w < 2 ^ 64"
    using Suc.prems ab div256 [of "b - 1"] by (auto simp: tensor_ok_def)
  have lohi: "lo < hi" "hi \<le> b" "256 * c \<le> lo" "hi \<le> 256 * c + 256"
    using Suc.prems(3) c(1) ab div256 [of "b - 1"] div256 [of a] unfolding lo_def hi_def by linarith+
  define x y where "x = lo - 256 * c" and "y = hi - 256 * c"
  have xy: "lo = 256 * c + x" "hi = 256 * c + y" "x < y" "y \<le> 256" "hi - lo = y - x" "x + (y - x) = y"
    using lohi unfolding x_def y_def by linarith+
  have "read_extent (int a) (int b) (b - a) w (int c) = write_extent (int a) (int b) w (int c)"
    using ab(1) by (intro read_extent_eq) (simp_all add: of_nat_diff)
  also have "\<dots> = (x * w, (y - x) * w)"
    using write_extent_eq [OF ab(1) Suc.prems(3) c(1,4)] xy(5) unfolding lo_def [symmetric] hi_def [symmetric] x_def [symmetric] by simp
  finally have ex: "read_extent (int a) (int b) (b - a) w (int c) = (x * w, (y - x) * w)" .
  obtain m where m: "slot_mem s slot (int c) = Some m" "length m = 256 * w" using Suc.prems(1) c(2) by (auto simp: tensor_ok_def)
  obtain p where ptr: "svm_chunk_ptrs s (slot div 2) (int c) = Some p" using m(1) by (auto simp: slot_mem_def split: option.splits)
  define d1 d2 where "d1 = take ((y - x) * w) d" and "d2 = drop ((y - x) * w) d"
  have ld: "length d = (b - lo) * w" using Suc.prems(5) by (simp add: lo_def)
  have "(y - x) * w \<le> length d" unfolding ld using xy(5) lohi by (intro mult_le_mono1) linarith
  then have d: "d = d1 @ d2" "length d1 = (y - x) * w" "length d2 = (b - hi) * w"
    using ld xy(1,2,3) lohi(2) by (simp_all add: d1_def d2_def flip: diff_mult_distrib)
  have fit: "x * w + (y - x) * w \<le> 256 * w" using xy(4,6) by (simp flip: add_mult_distrib)
  let ?t = "set_slot_mem s slot (int c) (splice m (x * w) d1)"
  note ts = tensor_set [OF Suc.prems(1,2) fixd c(2) m(1) fit [folded d(2)]]
  have wr: "mem_written s ?t" using fit d(2) m by (intro set_slot_mem_written [OF m(1)]) simp
  have step: "read_loop slot w (b - a) (int a) (int b) (Suc k) (int c) s (d @ io)
      = read_loop slot w (b - a) (int a) (int b) k (int (c + 1)) ?t (d2 @ io)"
    using c(2,3) ptr m fit d(2) by (simp add: ex io_read_def d(1) add.commute)
  have "a < 256 * c + 256" using Suc.prems(3) div256(2) [of a] by linarith
  then have nxt: "max a (256 * (c + 1)) = hi \<or> (hi = b \<and> d2 = [])" "b - max a (256 * (c + 1)) = b - hi"
    using d(3) by (auto simp: hi_def)
  have "ptrs_inj L N ?t" using Suc.prems(2) mem_written_inj [OF wr] by blast
  from Suc.IH [OF ts(1) this, of "c + 1" d2] Suc.prems(3,4) d(3) nxt(2)
  obtain s' where s': "read_loop slot w (b - a) (int a) (int b) k (int (c + 1)) ?t (d2 @ io) = Ok (s', io)" "tensor_ok w s' slot n"
    "restored L N slot n (max a (256 * (c + 1)) * w) d2 ?t s'" by auto
  have "lo * w + length (d1 @ d2) \<le> length (tensor_bytes s slot n)"
  proof -
    have "lo * w + (b - lo) * w \<le> 256 * n * w" using lohi ab(2) by (simp flip: add_mult_distrib)
    then show ?thesis using ld d(1) by (simp add: tensor_length [OF Suc.prems(1)] mult.assoc mult.left_commute)
  qed
  moreover have "lo * w + length d1 = hi * w" using xy(1-3) unfolding d(2) by (simp flip: add_mult_distrib)
  ultimately have sp: "splice (splice (tensor_bytes s slot n) (lo * w) d1) (hi * w) d2 = splice (tensor_bytes s slot n) (lo * w) d"
    using splice_append [of "lo * w" d1 d2 "tensor_bytes s slot n"] by (simp add: d(1))
  have "tensor_bytes s' slot n = splice (tensor_bytes s slot n) (lo * w) d"
    using s'(3) nxt(1) sp unfolding restored_def ts(2) xy(1) [symmetric] by auto
  moreover have "mem_written s s'" using mem_written_trans [OF wr] s'(3) by (simp add: restored_def)
  moreover have "slot_mem ?t slot' cj = slot_mem s slot' cj" if "slot_ix L N slot' cj" "slot' \<noteq> slot" for slot' cj
    using slot_mem_set [OF Suc.prems(2) _ that(1) m(1)] that(2) fixd c(2) by (simp add: slot_ix_def)
  ultimately have "restored L N slot n (lo * w) d s s'" using s'(3) by (simp add: restored_def)
  with s'(1,2) step show ?case unfolding lo_def by (intro exI [of _ s']) simp
qed

lemma chunk_read_rows:
  assumes "tensor_ok w s slot n" "ptrs_inj L N s" "0 \<le> slot" "slot < 2 * L" "int n \<le> N"
    and fit: "unat head + unat cell_count \<le> 256 * n" "0 < unat cell_count" and d: "length d = unat cell_count * w"
  shows "\<exists>s'. chunk_read slot w cell_count head s (d @ io) = Ok (s', io) \<and> tensor_ok w s' slot n \<and>
    restored L N slot n (unat head * w) d s s'"
proof -
  let ?a = "unat head" and ?b = "unat head + unat cell_count"
  have "n \<le> 256" using assms(1) by (simp add: tensor_ok_def)
  then have "?b < 2 ^ 32" using fit(1) by simp
  then have b: "unat (head + cell_count) = ?b" by (simp add: unat_word_ariths)
  have u: "uint head = int ?a" "uint (head + cell_count) = int ?b" by (simp_all only: uint_nat b)
  have "int ?b - 1 = int (?b - 1)" using fit(2) by linarith
  then have e: "c_div (uint head) 256 = int (?a div 256)" "c_div (uint (head + cell_count) - 1) 256 = int ((?b - 1) div 256)"
    unfolding u by (simp_all only: c_div_nat)
  have k: "nat (int ((?b - 1) div 256) - int (?a div 256) + 1) + ?a div 256 = (?b - 1) div 256 + 1"
    using div_le_mono [of ?a "?b - 1" 256] fit(2) by simp
  have mx: "max ?a (256 * (?a div 256)) = ?a" using div256(1) [of ?a] by simp
  have ab: "?a < ?b" "?b - ?a = unat cell_count" using fit(2) by simp_all
  have run: "chunk_read slot w cell_count head s io' = read_loop slot w (?b - ?a) (int ?a) (int ?b)
      (nat (int ((?b - 1) div 256) - int (?a div 256) + 1)) (int (?a div 256)) s io'" for io'
    unfolding chunk_read_def Let_def e ab(2) unfolding u by simp
  have ld: "length d = (?b - max ?a (256 * (?a div 256))) * w" unfolding mx d by simp
  from read_loop_splice [OF assms(1-5) ab(1) fit(1) order_refl k ld, of io] show ?thesis
    unfolding run mx .
qed

lemma raw_ptrs_inj:
  assumes "kv_inv cd s" "\<And>i j. chunk_ix s i j \<Longrightarrow> states s i j = Raw"
  shows "ptrs_inj (num_layers s) (num_chunks_per_tensor s) s"
proof -
  have "raw_ok s i j" if "chunk_ix s i j" for i j
    using assms that unfolding kv_inv_def data_ok_def by (metis KVstate.simps(7))
  then have "raw_chunks s i j = svm_chunk_ptrs s i j" if "chunk_ix s i j" for i j
    using that by (metis raw_ok_def)
  moreover have "addrs_ok s" using assms(1) by (simp add: kv_inv_def)
  ultimately show ?thesis using assms(2) unfolding ptrs_inj_def addrs_ok_def chunk_ix_def by metis
qed

text \<open>The invariant speaks of SVM memory only through the chunks that are in memory.\<close>

lemma kv_inv_svm:
  assumes inv: "kv_inv cd s" and t: "t = s\<lparr>svm_mem := A, svm_chunk_ptrs := P, svm_next := nx\<rparr>"
    and ptr: "\<And>i j. chunk_ix s i j \<Longrightarrow> P i j = svm_chunk_ptrs s i j" and raw: "\<And>i j. chunk_ix s i j \<Longrightarrow> raw_ok s i j \<Longrightarrow> raw_ok t i j"
  shows "kv_inv cd t"
proof -
  have lp: "layer_pools t = layer_pools s" by (rule layer_pools_cong) (simp_all add: t)
  have c: "comp_ok cd t i j = comp_ok cd s i j" "stored_ok t i j = stored_ok s i j" "plan_ok t = plan_ok s" for i j
    unfolding comp_ok_def stored_ok_def plan_ok_def lp by (simp_all add: t)
  have "data_ok cd t" unfolding data_ok_def
  proof (intro allI impI)
    fix i j assume "chunk_ix t i j"
    then have ix: "chunk_ix s i j" by (simp add: chunk_ix_def t)
    then have "case states s i j of Raw \<Rightarrow> raw_ok s i j | Compressed \<Rightarrow> svm_chunk_ptrs s i j = None \<and> comp_ok cd s i j
      | Stored \<Rightarrow> svm_chunk_ptrs s i j = None \<and> stored_ok s i j" using inv unfolding kv_inv_def data_ok_def by blast
    then show "case states t i j of Raw \<Rightarrow> raw_ok t i j | Compressed \<Rightarrow> svm_chunk_ptrs t i j = None \<and> comp_ok cd t i j
      | Stored \<Rightarrow> svm_chunk_ptrs t i j = None \<and> stored_ok t i j"
      using raw [OF ix] ptr [OF ix] c(1,2) by (cases "states s i j") (simp_all add: t)
  qed
  moreover have "cursors_ok t = cursors_ok s" unfolding cursors_ok_def c by (simp add: t)
  moreover have "states_ok t = states_ok s" unfolding states_ok_def expected_state_def chunk_ix_def by (simp add: t)
  moreover have "addrs_ok t = addrs_ok s" unfolding addrs_ok_def chunk_ix_def by (simp add: t)
  moreover have "arenas_ok t = arenas_ok s" unfolding arenas_ok_def by (simp add: t)
  moreover have "fds_ok t = fds_ok s" unfolding fds_ok_def by (simp add: t)
  ultimately show ?thesis using inv by (simp add: kv_inv_def)
qed

lemma mem_written_inv:
  assumes inv: "kv_inv cd s" and w: "mem_written s t"
  shows "kv_inv cd t"
proof -
  obtain A where t: "t = s\<lparr>svm_mem := A\<rparr>" by (rule mem_writtenE [OF w])
  have "raw_ok t i j" if "raw_ok s i j" for i j
  proof -
    from that obtain a m where m: "raw_chunks s i j = Some a" "svm_chunk_ptrs s i j = Some a" "a < svm_next s" "svm_mem s a = Some m"
      "length (k_mem m) = rbytes s" "length (v_mem m) = rbytes s" by (auto simp: raw_ok_def)
    have "rel_option same_shape (svm_mem s a) (svm_mem t a)" using w by (simp add: mem_written_def)
    then obtain m' where "svm_mem t a = Some m'" "same_shape m m'" unfolding m(4) by (auto simp: option_rel_Some1)
    with m show ?thesis by (simp add: raw_ok_def t same_shape_def)
  qed
  with t show ?thesis by (intro kv_inv_svm [OF inv, where A = A and P = "svm_chunk_ptrs s" and nx = "svm_next s"]) simp_all
qed

end
