(* ===== verification/Kv_Growth.thy ===== *)
theory Kv_Growth
  imports Kv_Ops Core_Swapout
begin

text \<open>
  Creating chunks (\<open>mzcache/src/mzcache_kv_ops.cpp\<close>) and growing the cache while it fills
  (\<open>llama_kv_cache_unified::mz_grow_chunks\<close> in \<open>src/llama-kv-cache-unified.cpp\<close>). The tensor tables
  \<open>layers_k_chunks\<close> and \<open>layers_v_chunks\<close> of the cache say which chunk tensors exist.

  Growth gives zeroed chunks at fresh addresses, leaves every existing chunk as it is, and keeps the invariant of
  the KV state; the book-keeping follows at once when nothing is swapped out and is deferred otherwise.
\<close>

record kv_tensors =
  layers_k_chunks :: "int \<Rightarrow> int \<Rightarrow> bool"
  layers_v_chunks :: "int \<Rightarrow> int \<Rightarrow> bool"
  n_chunks_alloc :: nat

definition chunks_for :: "u32 \<Rightarrow> nat" where
  "chunks_for n_tokens = unat ((n_tokens + 256 - 1) div 256)"

definition create_chunked_kv_tensors :: "u32 \<Rightarrow> int \<Rightarrow> kv_tensors \<Rightarrow> kv_tensors result" where
  "create_chunked_kv_tensors kv_size il t =
     (if int (chunks_for kv_size) > MAX_CHUNKS_PER_TENSOR
      then Err (RuntimeError ''kv cache size is too large for the number of chunks'')
      else Ok (t\<lparr>layers_k_chunks := upd2 (layers_k_chunks t) il 0 True,
                 layers_v_chunks := upd2 (layers_v_chunks t) il 0 True\<rparr>))"

definition grow_layer_chunk ::
  "io_env \<Rightarrow> int \<Rightarrow> int \<Rightarrow> nat \<Rightarrow> kv_tensors \<times> 'm kv_state \<Rightarrow> (kv_tensors \<times> 'm kv_state) result" where
  "grow_layer_chunk env il idx n_embd_k_gqa ts =
     (case ts of (t, s) \<Rightarrow>
      if idx = 0 \<or> idx \<ge> MAX_CHUNKS_PER_TENSOR then Err (RuntimeError ''grow_layer_chunk: chunk index out of range'')
      else if layers_k_chunks t il idx then Ok (t, s)
      else if \<not> svm_alloc_ok env il idx then Err (RuntimeError ''grow_layer_chunk: clSVMAlloc failed'')
      else let a = svm_next s; z = replicate (256 * n_embd_k_gqa * 2) 0
           in Ok (t\<lparr>layers_k_chunks := upd2 (layers_k_chunks t) il idx True,
                    layers_v_chunks := upd2 (layers_v_chunks t) il idx True\<rparr>,
                  s\<lparr>svm_next := a + 1,
                    svm_mem := (svm_mem s)(a \<mapsto> \<lparr>k_mem = z, v_mem = z, contiguous = True\<rparr>),
                    svm_chunk_ptrs := upd2 (svm_chunk_ptrs s) il idx (Some a)\<rparr>))"

fun grow_one_layer ::
  "io_env \<Rightarrow> int \<Rightarrow> nat \<Rightarrow> nat \<Rightarrow> int \<Rightarrow> kv_tensors \<times> 'm kv_state \<Rightarrow> (kv_tensors \<times> 'm kv_state) result" where
  "grow_one_layer env il n_embd 0 idx ts = Ok ts"
| "grow_one_layer env il n_embd (Suc k) idx ts =
     bind_result (grow_layer_chunk env il idx n_embd ts) (grow_one_layer env il n_embd k (idx + 1))"

fun grow_all_layers ::
  "io_env \<Rightarrow> (int \<times> nat) list \<Rightarrow> nat \<Rightarrow> int \<Rightarrow> kv_tensors \<times> 'm kv_state \<Rightarrow> (kv_tensors \<times> 'm kv_state) result" where
  "grow_all_layers env [] k idx ts = Ok ts"
| "grow_all_layers env ((il, n_embd) # ls) k idx ts =
     bind_result (grow_one_layer env il n_embd k idx ts) (grow_all_layers env ls k idx)"

text \<open>\<open>layers\<close> lists the cached layers with their \<open>n_embd_k_gqa\<close>; \<open>has_core\<close> says whether \<open>g_mzcache_core\<close> is set.\<close>

definition mz_grow_chunks ::
  "io_env \<Rightarrow> config \<Rightarrow> (int \<times> nat) list \<Rightarrow> bool \<Rightarrow> u32 \<Rightarrow> kv_tensors \<Rightarrow> 'm core \<Rightarrow> (kv_tensors \<times> 'm core) result" where
  "mz_grow_chunks env cfg layers has_core n_tokens_needed t st =
     (let need = chunks_for n_tokens_needed in
      if need \<le> n_chunks_alloc t then Ok (t, st)
      else if int need > MAX_CHUNKS_PER_TENSOR
        then Err (RuntimeError ''mz_grow_chunks: token count exceeds MAX_CHUNKS_PER_TENSOR'')
      else bind_result (grow_all_layers env layers (need - n_chunks_alloc t) (int (n_chunks_alloc t)) (t, kv st))
        (\<lambda>(t', s'). let st' = st\<lparr>kv := s'\<rparr> in
           Ok (t'\<lparr>n_chunks_alloc := need\<rparr>, if has_core then on_kv_chunks_grown cfg (int need) st' else st')))"

subsection \<open>Fresh chunks\<close>

definition zero_chunk :: "nat \<Rightarrow> nat \<Rightarrow> 'm kv_state \<Rightarrow> int \<Rightarrow> int \<Rightarrow> bool" where
  "zero_chunk lo h s i j \<longleftrightarrow> (\<exists>a m. svm_chunk_ptrs s i j = Some a \<and> lo \<le> a \<and> a < svm_next s \<and> svm_mem s a = Some m \<and>
     k_mem m = replicate (raw_chunk_bytes h) 0 \<and> v_mem m = replicate (raw_chunk_bytes h) 0)"

definition table_below :: "'m kv_state \<Rightarrow> bool" where
  "table_below s \<longleftrightarrow> (\<forall>i j a. svm_chunk_ptrs s i j = Some a \<longrightarrow> a < svm_next s)"

text \<open>\<open>t\<close> is \<open>s\<close> with some entries of columns from \<open>N\<close> on pointing to zeroed chunks of their own.\<close>

definition freshened :: "int \<Rightarrow> nat \<Rightarrow> 'm kv_state \<Rightarrow> 'm kv_state \<Rightarrow> bool" where
  "freshened N h s t \<longleftrightarrow>
     t = s\<lparr>svm_mem := svm_mem t, svm_chunk_ptrs := svm_chunk_ptrs t, svm_next := svm_next t\<rparr> \<and>
     svm_next s \<le> svm_next t \<and> table_below t \<and>
     (\<forall>a. a < svm_next s \<longrightarrow> svm_mem t a = svm_mem s a) \<and>
     (\<forall>i j. svm_chunk_ptrs t i j = svm_chunk_ptrs s i j \<or> N \<le> j \<and> zero_chunk (svm_next s) h t i j) \<and>
     (\<forall>i j i' j' a. svm_next s \<le> a \<and> svm_chunk_ptrs t i j = Some a \<and> svm_chunk_ptrs t i' j' = Some a \<longrightarrow> i = i' \<and> j = j')"

lemma freshened_refl: "table_below s \<Longrightarrow> freshened N h s s"
  by (auto simp: freshened_def table_below_def dest: leD)

definition put_chunk :: "nat \<Rightarrow> int \<Rightarrow> int \<Rightarrow> 'm kv_state \<Rightarrow> 'm kv_state" where
  "put_chunk h i j s =
     s\<lparr>svm_next := svm_next s + 1,
       svm_mem := (svm_mem s)(svm_next s \<mapsto> \<lparr>k_mem = replicate (raw_chunk_bytes h) 0, v_mem = replicate (raw_chunk_bytes h) 0,
         contiguous = True\<rparr>),
       svm_chunk_ptrs := upd2 (svm_chunk_ptrs s) i j (Some (svm_next s))\<rparr>"

lemma put_chunk_freshened:
  assumes f: "freshened N h s t" and N: "N \<le> j"
  shows "freshened N h s (put_chunk h i j t)" "zero_chunk (svm_next s) h (put_chunk h i j t) i j"
    "zero_chunk (svm_next s) h t x y \<Longrightarrow> zero_chunk (svm_next s) h (put_chunk h i j t) x y"
proof -
  let ?u = "put_chunk h i j t"
  have u: "svm_next ?u = svm_next t + 1" "svm_chunk_ptrs ?u = upd2 (svm_chunk_ptrs t) i j (Some (svm_next t))"
    "\<And>a. a < svm_next t \<Longrightarrow> svm_mem ?u a = svm_mem t a" by (simp_all add: put_chunk_def)
  have below: "\<And>i j a. svm_chunk_ptrs t i j = Some a \<Longrightarrow> a < svm_next t" using f by (simp add: freshened_def table_below_def)
  have le: "svm_next s \<le> svm_next t" using f by (simp add: freshened_def)
  then show z: "zero_chunk (svm_next s) h ?u i j" by (simp add: zero_chunk_def put_chunk_def)
  show keep: "zero_chunk (svm_next s) h ?u x y" if "zero_chunk (svm_next s) h t x y" for x y
    using that below z unfolding zero_chunk_def by (cases "x = i \<and> y = j") (force simp: u)+
  have "t = s\<lparr>svm_mem := svm_mem t, svm_chunk_ptrs := svm_chunk_ptrs t, svm_next := svm_next t\<rparr>" using f by (simp add: freshened_def)
  then obtain A P n where t: "t = s\<lparr>svm_mem := A, svm_chunk_ptrs := P, svm_next := n\<rparr>" by blast
  have "?u = s\<lparr>svm_mem := svm_mem ?u, svm_chunk_ptrs := svm_chunk_ptrs ?u, svm_next := svm_next ?u\<rparr>"
    by (simp add: put_chunk_def t)
  moreover note le
  moreover have "table_below ?u" using below by (auto simp: table_below_def u less_Suc_eq)
  moreover have "svm_mem ?u a = svm_mem s a" if "a < svm_next s" for a
    using f le that u(3) [of a] by (simp add: freshened_def)
  moreover have "svm_chunk_ptrs ?u x y = svm_chunk_ptrs s x y \<or> N \<le> y \<and> zero_chunk (svm_next s) h ?u x y" for x y
  proof (cases "x = i \<and> y = j")
    case True
    with z N le show ?thesis by (simp add: u)
  next
    case False
    then have "svm_chunk_ptrs ?u x y = svm_chunk_ptrs t x y" by (auto simp: u)
    with f keep show ?thesis unfolding freshened_def by metis
  qed
  moreover have "x = x' \<and> y = y'" if "svm_next s \<le> a" "svm_chunk_ptrs ?u x y = Some a" "svm_chunk_ptrs ?u x' y' = Some a" for x y x' y' a
  proof -
    have inj: "x = x' \<and> y = y'" if "svm_chunk_ptrs t x y = Some a" "svm_chunk_ptrs t x' y' = Some a"
      using f \<open>svm_next s \<le> a\<close> that unfolding freshened_def by blast
    show ?thesis
    proof (cases "a = svm_next t")
      case True
      with that below [of x y a] below [of x' y' a] show ?thesis by (auto simp: u split: if_splits)
    next
      case False
      with that inj show ?thesis by (auto simp: u split: if_splits)
    qed
  qed
  ultimately show "freshened N h s ?u" unfolding freshened_def by (auto simp: u(1))
qed

text \<open>What the growth loops establish: the entries in \<open>G\<close> now exist and are zeroed, no other tensor appeared.\<close>

definition grew :: "int \<Rightarrow> nat \<Rightarrow> (int \<times> int) set \<Rightarrow> kv_tensors \<times> 'm kv_state \<Rightarrow> kv_tensors \<times> 'm kv_state \<Rightarrow> bool" where
  "grew N h G ts ts' \<longleftrightarrow>
     freshened N h (snd ts) (snd ts') \<and> n_chunks_alloc (fst ts') = n_chunks_alloc (fst ts) \<and>
     (\<forall>i j. layers_k_chunks (fst ts') i j = (layers_k_chunks (fst ts) i j \<or> (i, j) \<in> G)) \<and>
     (\<forall>i j. layers_v_chunks (fst ts') i j = (layers_v_chunks (fst ts) i j \<or> (i, j) \<in> G)) \<and>
     (\<forall>(i, j)\<in>G. zero_chunk (svm_next (snd ts)) h (snd ts') i j)"

lemma grow_layer_chunk_grew:
  assumes g: "grew N h G ts0 (t, s)" and ix: "0 < idx" "N \<le> idx" "idx < MAX_CHUNKS_PER_TENSOR" and al: "svm_alloc_ok env il idx"
    and new: "\<not> layers_k_chunks (fst ts0) il idx" "(il, idx) \<notin> G"
  shows "\<exists>ts'. grow_layer_chunk env il idx h (t, s) = Ok ts' \<and> grew N h (insert (il, idx) G) ts0 ts'"
proof -
  let ?t = "t\<lparr>layers_k_chunks := upd2 (layers_k_chunks t) il idx True, layers_v_chunks := upd2 (layers_v_chunks t) il idx True\<rparr>"
  have "freshened N h (snd ts0) s" "\<not> layers_k_chunks t il idx" using g new by (simp_all add: grew_def)
  then have run: "grow_layer_chunk env il idx h (t, s) = Ok (?t, put_chunk h il idx s)"
    using ix al by (simp add: grow_layer_chunk_def put_chunk_def raw_chunk_bytes_def Let_def)
  note p = put_chunk_freshened [OF \<open>freshened N h (snd ts0) s\<close> ix(2)]
  have "\<forall>(i, j)\<in>insert (il, idx) G. zero_chunk (svm_next (snd ts0)) h (put_chunk h il idx s) i j" using g p(2,3) unfolding grew_def by auto
  with p(1) g have "grew N h (insert (il, idx) G) ts0 (?t, put_chunk h il idx s)" unfolding grew_def by auto
  with run show ?thesis by blast
qed

lemma grow_one_layer_grew:
  assumes "grew N h G ts0 ts" "0 < idx" "N \<le> idx" "idx + int k \<le> MAX_CHUNKS_PER_TENSOR"
    and "\<And>j. idx \<le> j \<Longrightarrow> j < idx + int k \<Longrightarrow> svm_alloc_ok env il j \<and> \<not> layers_k_chunks (fst ts0) il j \<and> (il, j) \<notin> G"
  shows "\<exists>ts'. grow_one_layer env il h k idx ts = Ok ts' \<and> grew N h (G \<union> {il} \<times> {idx..<idx + int k}) ts0 ts'"
  using assms
proof (induction k arbitrary: idx ts G)
  case (Suc k)
  obtain t s where ts: "ts = (t, s)" by fastforce
  have "svm_alloc_ok env il idx" "\<not> layers_k_chunks (fst ts0) il idx" "(il, idx) \<notin> G" using Suc.prems(5) [of idx] by simp_all
  from grow_layer_chunk_grew [OF Suc.prems(1) [unfolded ts] Suc.prems(2,3) _ this] Suc.prems(4)
  obtain ts1 where 1: "grow_layer_chunk env il idx h ts = Ok ts1" "grew N h (insert (il, idx) G) ts0 ts1" by (auto simp: ts)
  have set: "insert (il, idx) G \<union> {il} \<times> {idx + 1..<idx + 1 + int k} = G \<union> {il} \<times> {idx..<idx + int (Suc k)}" by auto
  have "svm_alloc_ok env il j \<and> \<not> layers_k_chunks (fst ts0) il j \<and> (il, j) \<notin> insert (il, idx) G"
    if "idx + 1 \<le> j" "j < idx + 1 + int k" for j using Suc.prems(5) [of j] that by auto
  from Suc.IH [of "insert (il, idx) G" ts1 "idx + 1", OF 1(2) _ _ _ this] Suc.prems(2-4) obtain ts2
    where "grow_one_layer env il h k (idx + 1) ts1 = Ok ts2" "grew N h (G \<union> {il} \<times> {idx..<idx + int (Suc k)}) ts0 ts2"
    unfolding set by auto
  with 1(1) show ?case by simp
qed simp

lemma grow_all_layers_grew:
  assumes "grew N h G ts0 ts" "0 < idx" "N \<le> idx" "idx + int k \<le> MAX_CHUNKS_PER_TENSOR" "distinct (map fst ls)" "\<forall>(il, e)\<in>set ls. e = h"
    and "\<And>il j. il \<in> fst ` set ls \<Longrightarrow> idx \<le> j \<Longrightarrow> j < idx + int k \<Longrightarrow> svm_alloc_ok env il j \<and> \<not> layers_k_chunks (fst ts0) il j \<and> (il, j) \<notin> G"
  shows "\<exists>ts'. grow_all_layers env ls k idx ts = Ok ts' \<and> grew N h (G \<union> fst ` set ls \<times> {idx..<idx + int k}) ts0 ts'"
  using assms
proof (induction ls arbitrary: ts G)
  case (Cons l ls)
  obtain il where l: "l = (il, h)" using Cons.prems(6) by (cases l) auto
  let ?J = "{idx..<idx + int k}"
  have "svm_alloc_ok env il j \<and> \<not> layers_k_chunks (fst ts0) il j \<and> (il, j) \<notin> G" if "idx \<le> j" "j < idx + int k" for j
    using Cons.prems(7) [of il j] that by (simp add: l)
  from grow_one_layer_grew [OF Cons.prems(1-4) this]
  obtain ts1 where 1: "grow_one_layer env il h k idx ts = Ok ts1" "grew N h (G \<union> {il} \<times> ?J) ts0 ts1" by auto
  have set: "G \<union> {il} \<times> ?J \<union> fst ` set ls \<times> ?J = G \<union> fst ` set (l # ls) \<times> ?J" by (auto simp: l)
  have "svm_alloc_ok env i j \<and> \<not> layers_k_chunks (fst ts0) i j \<and> (i, j) \<notin> G \<union> {il} \<times> ?J"
    if "i \<in> fst ` set ls" "idx \<le> j" "j < idx + int k" for i j
    using Cons.prems(5) Cons.prems(7) [of i j] that by (auto simp: l)
  from Cons.IH [OF 1(2) Cons.prems(2-4) _ _ this] Cons.prems(5,6) obtain ts2
    where "grow_all_layers env ls k idx ts1 = Ok ts2" "grew N h (G \<union> fst ` set (l # ls) \<times> ?J) ts0 ts2"
    unfolding set by auto
  with 1(1) show ?case by (simp add: l)
qed simp

subsection \<open>The invariant\<close>

lemma freshened_inv:
  assumes inv: "kv_inv cd s" and f: "freshened (num_chunks_per_tensor s) h s t"
  shows "kv_inv cd t" "chunk_ix s i j \<Longrightarrow> chunk_view cd t i j = chunk_view cd s i j"
proof -
  have "t = s\<lparr>svm_mem := svm_mem t, svm_chunk_ptrs := svm_chunk_ptrs t, svm_next := svm_next t\<rparr>" using f by (simp add: freshened_def)
  then obtain A P n where t: "t = s\<lparr>svm_mem := A, svm_chunk_ptrs := P, svm_next := n\<rparr>" by blast
  have n: "svm_next s \<le> n" and mem: "\<And>a. a < svm_next s \<Longrightarrow> A a = svm_mem s a" using f by (simp_all add: freshened_def t)
  have ptr: "P i j = svm_chunk_ptrs s i j" if "chunk_ix s i j" for i j
  proof -
    have "svm_chunk_ptrs t i j = svm_chunk_ptrs s i j \<or> num_chunks_per_tensor s \<le> j" using f unfolding freshened_def by blast
    with that show ?thesis by (auto simp: t chunk_ix_def)
  qed
  have raw: "raw_ok t i j" if x: "chunk_ix s i j" "raw_ok s i j" for i j
  proof -
    obtain a m where m: "raw_chunks s i j = Some a" "svm_chunk_ptrs s i j = Some a" "a < svm_next s" "svm_mem s a = Some m"
      "length (k_mem m) = rbytes s" "length (v_mem m) = rbytes s" using x(2) by (auto simp: raw_ok_def)
    with ptr [OF x(1)] mem n show ?thesis by (simp add: raw_ok_def t)
  qed
  show "kv_inv cd t" by (rule kv_inv_svm [OF inv t ptr raw])
  have lp: "layer_pools t = layer_pools s" by (rule layer_pools_cong) (simp_all add: t)
  show "chunk_view cd t i j = chunk_view cd s i j" if x: "chunk_ix s i j"
  proof (cases "states s i j")
    case Raw
    then have "raw_ok s i j" using inv x unfolding kv_inv_def data_ok_def by (metis KVstate.simps(7))
    with Raw mem show ?thesis by (auto simp: chunk_view_def t raw_ok_def)
  qed (use lp in \<open>simp_all add: chunk_view_def t\<close>)
qed

lemma freshened_table:
  assumes inv: "kv_inv cd s" and cl: "clean_ladder s" and h: "h = kv_hidden_dim s" and f: "freshened (num_chunks_per_tensor s) h s t"
    and z: "\<And>i j. 0 \<le> i \<Longrightarrow> i < num_layers s \<Longrightarrow> num_chunks_per_tensor s \<le> j \<Longrightarrow> j < n \<Longrightarrow> zero_chunk (svm_next s) h t i j"
  shows "table_ok (num_layers s) h n t"
proof -
  have n0: "n_cur_comp_chunks s = 0" "n_cur_store_chunks s = 0" using cl by (simp_all add: clean_ladder_def)
  note cs = clean_states [OF inv n0]
  have fr: "svm_next s \<le> svm_next t" "\<And>a. a < svm_next s \<Longrightarrow> svm_mem t a = svm_mem s a"
    "\<And>i j. svm_chunk_ptrs t i j = svm_chunk_ptrs s i j \<or> num_chunks_per_tensor s \<le> j"
    using f unfolding freshened_def by blast+
  have inj: "i = i' \<and> j = j'" if "svm_next s \<le> a" "svm_chunk_ptrs t i j = Some a" "svm_chunk_ptrs t i' j' = Some a" for i j i' j' a
    using f that unfolding freshened_def by blast
  have old: "\<exists>a m. svm_chunk_ptrs t i j = Some a \<and> raw_chunks s i j = Some a \<and> a < svm_next s \<and> svm_mem t a = Some m \<and>
      length (k_mem m) = raw_chunk_bytes h \<and> length (v_mem m) = raw_chunk_bytes h" if x: "chunk_ix s i j" for i j
  proof -
    have "raw_ok s i j" using inv x cs(3) [OF x] unfolding kv_inv_def data_ok_def by (metis KVstate.simps(7))
    moreover have "svm_chunk_ptrs t i j = svm_chunk_ptrs s i j" using fr(3) [of i j] x by (auto simp: chunk_ix_def)
    ultimately show ?thesis using fr(2) h by (auto simp: raw_ok_def)
  qed
  have cov: "chunk_ix s i j \<or> zero_chunk (svm_next s) h t i j" if "0 \<le> i" "i < num_layers s" "0 \<le> j" "j < n" for i j
    using that z by (cases "j < num_chunks_per_tensor s") (auto simp: chunk_ix_def)
  have "\<exists>a m. svm_chunk_ptrs t i j = Some a \<and> a < svm_next t \<and> svm_mem t a = Some m \<and>
      length (k_mem m) = raw_chunk_bytes h \<and> length (v_mem m) = raw_chunk_bytes h" if "0 \<le> i" "i < num_layers s" "0 \<le> j" "j < n" for i j
    using cov [OF that] old [of i j] fr(1) unfolding zero_chunk_def by (metis length_replicate order_less_le_trans)
  moreover have "i = i' \<and> j = j'" if ix: "0 \<le> i" "i < num_layers s" "0 \<le> j" "j < n" "0 \<le> i'" "i' < num_layers s" "0 \<le> j'" "j' < n"
      and eq: "svm_chunk_ptrs t i j = svm_chunk_ptrs t i' j'" for i j i' j'
  proof -
    note c = cov [OF ix(1-4)] cov [OF ix(5-8)]
    show ?thesis
    proof (cases "chunk_ix s i j \<and> chunk_ix s i' j'")
      case True
      then have "raw_chunks s i j = raw_chunks s i' j'" using old eq by metis
      then show ?thesis using inv True cs(3) unfolding kv_inv_def addrs_ok_def by blast
    next
      case False
      then show ?thesis using c eq old inj unfolding zero_chunk_def by (metis not_le)
    qed
  qed
  ultimately show ?thesis unfolding table_ok_def by blast
qed

lemma chunks_for_eq:
  assumes "unat n \<le> 65536" shows "chunks_for n = (unat n + 255) div 256"
proof -
  have "n + 256 - 1 = 255 + n" by simp
  moreover have "unat (255 + n) = unat n + 255" using assms by (simp add: unat_word_ariths)
  ultimately show ?thesis by (simp add: chunks_for_def unat_div_distrib)
qed

subsection \<open>Growing\<close>

text \<open>The cache and the KV state agree, allocation succeeds, and nothing is in the columns that are to be created.\<close>

definition growable :: "io_env \<Rightarrow> (int \<times> nat) list \<Rightarrow> kv_tensors \<Rightarrow> 'm kv_state \<Rightarrow> bool" where
  "growable env ls t s \<longleftrightarrow>
     int (n_chunks_alloc t) = num_chunks_per_tensor s \<and> table_below s \<and>
     ls = map (\<lambda>i. (i, kv_hidden_dim s)) [0..num_layers s - 1] \<and>
     (\<forall>i j. 0 \<le> i \<and> i < num_layers s \<and> num_chunks_per_tensor s \<le> j \<and> j < MAX_CHUNKS_PER_TENSOR \<longrightarrow>
        svm_alloc_ok env i j \<and> \<not> layers_k_chunks t i j)"

lemma grow_columns:
  assumes inv: "kv_inv cd s" and g: "growable env ls t s" and n: "n_chunks_alloc t \<le> n" "int n \<le> MAX_CHUNKS_PER_TENSOR"
  shows "\<exists>t' s'. grow_all_layers env ls (n - n_chunks_alloc t) (int (n_chunks_alloc t)) (t, s) = Ok (t', s') \<and>
    freshened (num_chunks_per_tensor s) (kv_hidden_dim s) s s' \<and>
    (\<forall>i j. 0 \<le> i \<and> i < num_layers s \<and> num_chunks_per_tensor s \<le> j \<and> j < int n \<longrightarrow>
       zero_chunk (svm_next s) (kv_hidden_dim s) s' i j)"
proof -
  let ?N = "num_chunks_per_tensor s" and ?h = "kv_hidden_dim s"
  have N: "int (n_chunks_alloc t) = ?N" and tb: "table_below s" and ls: "ls = map (\<lambda>i. (i, ?h)) [0..num_layers s - 1]"
    and ok: "\<And>i j. 0 \<le> i \<Longrightarrow> i < num_layers s \<Longrightarrow> ?N \<le> j \<Longrightarrow> j < MAX_CHUNKS_PER_TENSOR \<Longrightarrow> svm_alloc_ok env i j \<and> \<not> layers_k_chunks t i j"
    using g by (auto simp: growable_def)
  have "plan_ok s" using inv by (simp add: kv_inv_def cursors_ok_def)
  then have pos: "0 < ?N" by (rule plan_okD)
  have e: "?N + int (n - n_chunks_alloc t) = int n" using n(1) N by simp
  have ix: "fst ` set ls = {0..<num_layers s}" by (auto simp: ls image_image)
  have "grew ?N ?h {} (t, s) (t, s)" using freshened_refl [OF tb] by (simp add: grew_def)
  moreover have "distinct (map fst ls)" by (simp add: ls comp_def distinct_map)
  moreover have "\<forall>(il, e)\<in>set ls. e = ?h" by (auto simp: ls)
  moreover have "svm_alloc_ok env i j \<and> \<not> layers_k_chunks (fst (t, s)) i j \<and> (i, j) \<notin> {}"
    if "i \<in> fst ` set ls" "?N \<le> j" "j < ?N + int (n - n_chunks_alloc t)" for i j
    using that ok [of i j] n(2) unfolding ix e by simp
  ultimately obtain ts' where ts: "grow_all_layers env ls (n - n_chunks_alloc t) ?N (t, s) = Ok ts'"
    "grew ?N ?h ({} \<union> fst ` set ls \<times> {?N..<?N + int (n - n_chunks_alloc t)}) (t, s) ts'"
    using grow_all_layers_grew [of ?N ?h "{}" "(t, s)" "(t, s)" ?N "n - n_chunks_alloc t" ls env] pos n(2) e by auto
  obtain t' s' where ts': "ts' = (t', s')" by fastforce
  have "freshened ?N ?h s s'" "\<forall>i j. 0 \<le> i \<and> i < num_layers s \<and> ?N \<le> j \<and> j < int n \<longrightarrow> zero_chunk (svm_next s) ?h s' i j"
    using ts(2) unfolding grew_def ts' ix e by auto
  with ts(1) show ?thesis unfolding N ts' by blast
qed

lemma freshened_fields:
  assumes "freshened N h s t"
  shows "layer_fds t = layer_fds s" "num_layers t = num_layers s" "kv_hidden_dim t = kv_hidden_dim s"
    "num_chunks_per_tensor t = num_chunks_per_tensor s" "per_layer_balance t = per_layer_balance s"
    "next_layer_to_offload t = next_layer_to_offload s" "clean_ladder t = clean_ladder s" "pending_chunks_total t = pending_chunks_total s"
proof -
  have "t = s\<lparr>svm_mem := svm_mem t, svm_chunk_ptrs := svm_chunk_ptrs t, svm_next := svm_next t\<rparr>" using assms by (simp add: freshened_def)
  then obtain A P n where "t = s\<lparr>svm_mem := A, svm_chunk_ptrs := P, svm_next := n\<rparr>" by blast
  then show "layer_fds t = layer_fds s" "num_layers t = num_layers s" "kv_hidden_dim t = kv_hidden_dim s"
    "num_chunks_per_tensor t = num_chunks_per_tensor s" "per_layer_balance t = per_layer_balance s"
    "next_layer_to_offload t = next_layer_to_offload s" "clean_ladder t = clean_ladder s" "pending_chunks_total t = pending_chunks_total s"
    by (simp_all add: clean_ladder_def)
qed

lemma sync_chunk_count_kv [simp]: "kv (sync_chunk_count st) = kv st"
  by (simp add: sync_chunk_count_def)

text \<open>The book-keeping step on a state whose new columns are zeroed.\<close>

lemma register_fresh:
  assumes inv: "kv_inv cd s" and fd: "\<And>l. layer_fds s l = Closed" and nx: "clean_ladder s \<Longrightarrow> next_layer_to_offload s = num_layers s - 1"
    and bal: "ratio_ok (decomp_load_ratio cfg)" "0 \<le> per_layer_balance s"
    and f: "freshened (num_chunks_per_tensor s) (kv_hidden_dim s) s t" and n: "num_chunks_per_tensor s < n" "n \<le> MAX_CHUNKS_PER_TENSOR"
    and z: "\<forall>i j. 0 \<le> i \<and> i < num_layers s \<and> num_chunks_per_tensor s \<le> j \<and> j < n \<longrightarrow> zero_chunk (svm_next s) (kv_hidden_dim s) t i j"
    and s': "s' = register_grown_chunks cfg n t"
  shows "kv_inv cd s' \<and> (\<forall>i j. chunk_ix s i j \<longrightarrow> chunk_view cd s' i j = chunk_view cd s i j) \<and>
    (if clean_ladder s then num_chunks_per_tensor s' = n \<and>
       (\<forall>i j. 0 \<le> i \<and> i < num_layers s \<and> num_chunks_per_tensor s \<le> j \<and> j < n \<longrightarrow>
          chunk_view cd s' i j = Some (replicate (rbytes s) 0, replicate (rbytes s) 0))
     else num_chunks_per_tensor s' = num_chunks_per_tensor s \<and> pending_chunks_total s' = max (pending_chunks_total s) n)"
proof -
  note ff = freshened_fields [OF f] and fi = freshened_inv [OF inv f]
  have ix: "chunk_ix t = chunk_ix s" by (simp add: chunk_ix_def ff fun_eq_iff)
  show ?thesis
  proof (cases "clean_ladder s")
    case False
    then have e: "s' = t\<lparr>pending_chunks_total := max (pending_chunks_total s) n\<rparr>" using n s' ff by (simp add: register_grown_chunks_def)
    from deferred_growth [OF fi(1) e] fi(2) False ff show ?thesis by (simp add: e ix)
  next
    case True
    have tb: "table_ok (num_layers t) (kv_hidden_dim t) n t"
      using freshened_table [OF inv True HOL.refl f] z unfolding ff by blast
    have ne: "svm_chunk_ptrs t x y \<noteq> None" if "0 \<le> x" "x < num_layers t" "num_chunks_per_tensor t \<le> y" "y < n" for x y
      using z that unfolding ff zero_chunk_def by (metis option.distinct(1))
    have cl: "clean_ladder t" "next_layer_to_offload t = num_layers t - 1" "num_chunks_per_tensor t < n" "0 \<le> per_layer_balance t" "\<And>l. layer_fds t l = Closed"
      using True nx n bal fd by (simp_all add: ff)
    have L: "0 < num_layers t" using fi(1) by (simp add: kv_inv_def cursors_ok_def plan_ok_def)
    obtain u where "grow_layers (num_chunks_per_tensor t) n (nat (num_layers t)) 0 t = (u, True)"
      using grow_layers_complete [of "num_layers t" "num_chunks_per_tensor t" n t] ne L cl(3) by auto
    note p = register_grown_publish(1) [OF cl(3) n(2) cl(1) L this, of cfg]
    note gc = grown_clean [OF fi(1) cl(5) cl(1,2) bal(1) cl(4,3) n(2) tb HOL.refl s' [unfolded p]]
    have "chunk_view cd s' i j = Some (replicate (rbytes s) 0, replicate (rbytes s) 0)"
      if "0 \<le> i" "i < num_layers s" "num_chunks_per_tensor s \<le> j" "j < n" for i j
    proof -
      have "0 < num_chunks_per_tensor s" using inv by (simp add: kv_inv_def cursors_ok_def plan_ok_def)
      then have "chunk_ix s' i j" using that by (simp add: chunk_ix_def gc(5,8) ff)
      then have "chunk_view cd s' i j = table_view t i j" by (rule gc(2))
      moreover have "zero_chunk (svm_next s) (kv_hidden_dim s) t i j" using z that by blast
      ultimately show ?thesis by (auto simp: zero_chunk_def table_view_def)
    qed
    with gc(1,3,8) fi(2) True show ?thesis by (simp add: ix)
  qed
qed

end
