(* ===== verification/Kv_Cache_Props.thy ===== *)
theory Kv_Cache_Props
  imports Demo Kv_Growth
begin

text \<open>
  What the cache can rely on when it saves, restores and grows its chunks: properties of \<open>Kv_Ops\<close> and \<open>Kv_Growth\<close>.
\<close>

section \<open>Saving and restoring rows\<close>

text \<open>
  C10. Chunk-wise writing is writing of a contiguous tensor. With the chunks of a tensor in memory, \<open>chunk_write\<close> emits, range
  by range, exactly the rows of the concatenated chunks; empty ranges emit nothing and a range that ends on a chunk boundary
  keeps its last chunk.
\<close>

theorem chunk_write_contiguous:
  assumes "tensor_ok w s slot n" "\<forall>(x, y)\<in>set ranges. unat y \<le> 256 * n"
  shows "chunk_write s slot w ranges io =
    Ok (io @ concat (map (\<lambda>(x, y). slice (tensor_bytes s slot n) (unat x * w) (unat y * w)) ranges))"
  by (rule chunk_write_ranges [OF assms(1)]) (use assms(2) in auto)

lemma demo_states: "chunk_ix demo_kv i j \<Longrightarrow> states demo_kv i j = Raw"
  using demo_kv_facts(2,3,4) by (simp add: kv_inv_def states_ok_def expected_state_def)

lemma demo_slot: "0 \<le> slot \<Longrightarrow> slot < 4 \<Longrightarrow> 0 \<le> j \<Longrightarrow> j < 8 \<Longrightarrow>
    slot_mem demo_kv slot j = Some (if even slot then k_mem demo_chunk else v_mem demo_chunk)"
  by (simp add: slot_mem_def demo_kv_facts demo_kv0_def)

lemma demo_tensor: "0 \<le> slot \<Longrightarrow> slot < 4 \<Longrightarrow> tensor_ok 4 demo_kv slot 8"
  by (auto simp: tensor_ok_def demo_slot demo_chunk_def raw_chunk_bytes_def)

theorem chunk_write_contiguous_witness:
  "chunk_write demo_kv 0 4 [(0, 256), (300, 300)] [] = Ok (slice (tensor_bytes demo_kv 0 8) 0 1024)"
  using chunk_write_contiguous [OF demo_tensor, of 0 "[(0, 256), (300, 300)]" "[]"] by simp

text \<open>
  C11. Save and restore. The rows of any list of ranges, written from one KV state and read into another one at any head, with
  other chunk boundaries, are the rows of the target tensor from the head on; its other rows and all other tensors keep their
  bytes, the whole stream is consumed and nothing is read past it.
\<close>

theorem state_roundtrip:
  assumes src: "tensor_ok w s slot n" "\<forall>(x, y)\<in>set ranges. unat x \<le> unat y \<and> unat y \<le> 256 * n"
    and dst: "tensor_ok w t slot m" "ptrs_inj L N t" "0 \<le> slot" "slot < 2 * L" "int m \<le> N"
    and cells: "sum_list (map (\<lambda>(x, y). unat y - unat x) ranges) = unat cell_count" "0 < unat cell_count"
      "unat head + unat cell_count \<le> 256 * m"
  shows "\<exists>data t'. chunk_write s slot w ranges [] = Ok data \<and> chunk_read slot w cell_count head t (data @ io) = Ok (t', io) \<and>
    data = concat (map (\<lambda>(x, y). slice (tensor_bytes s slot n) (unat x * w) (unat y * w)) ranges) \<and>
    tensor_bytes t' slot m = splice (tensor_bytes t slot m) (unat head * w) data \<and>
    (\<forall>slot' ci. slot_ix L N slot' ci \<and> slot' \<noteq> slot \<longrightarrow> slot_mem t' slot' ci = slot_mem t slot' ci)"
proof -
  let ?d = "concat (map (\<lambda>(x, y). slice (tensor_bytes s slot n) (unat x * w) (unat y * w)) ranges)"
  have wr: "chunk_write s slot w ranges [] = Ok ?d"
    using chunk_write_ranges [OF src(1), of ranges "[]"] src(2) by auto
  have "length (slice (tensor_bytes s slot n) (unat x * w) (unat y * w)) = (unat y - unat x) * w" if "(x, y) \<in> set ranges" for x y
  proof -
    have "unat y * w \<le> length (tensor_bytes s slot n)"
      using src(2) that mult_le_mono1 [of "unat y" "256 * n" w] by (auto simp: tensor_length [OF src(1)] ac_simps)
    then show ?thesis by (simp add: diff_mult_distrib)
  qed
  then have "length ?d = sum_list (map (\<lambda>(x, y). (unat y - unat x) * w) ranges)"
    unfolding length_concat by (auto simp: comp_def intro!: arg_cong [of _ _ sum_list])
  also have "\<dots> = sum_list (map (\<lambda>(x, y). unat y - unat x) ranges) * w"
    by (induction ranges) (auto simp: add_mult_distrib)
  finally have "length ?d = unat cell_count * w" using cells(1) by simp
  from chunk_read_rows [OF dst cells(3,2) this, of io] wr show ?thesis by (auto simp: restored_def)
qed

lemma demo_inj: "ptrs_inj 2 8 demo_kv"
  using raw_ptrs_inj [OF demo_kv_facts(2) demo_states] by (simp add: demo_kv_facts)

theorem state_roundtrip_witness:
  "\<exists>data t'. chunk_write demo_kv 0 4 [(0, 256), (300, 310)] [] = Ok data \<and>
     chunk_read 0 4 266 1 demo_kv data = Ok (t', []) \<and> tensor_bytes t' 0 8 = splice (tensor_bytes demo_kv 0 8) 4 data"
  using state_roundtrip [OF demo_tensor _ demo_tensor demo_inj, of 0 "[(0, 256), (300, 310)]" 266 1 "[]"] by auto

text \<open>
  C12. Restoring rows keeps the invariant of the KV state, so a restored cache can be swapped out like any other.
\<close>

theorem chunk_read_invariant:
  assumes "kv_inv cd s" "\<forall>i j. chunk_ix s i j \<longrightarrow> states s i j = Raw" "0 \<le> slot" "slot < 2 * num_layers s"
    and "tensor_ok w s slot n" "int n = num_chunks_per_tensor s"
    and "unat head + unat cell_count \<le> 256 * n" "0 < unat cell_count" "length data = unat cell_count * w"
  shows "\<exists>s'. chunk_read slot w cell_count head s data = Ok (s', []) \<and> kv_inv cd s'"
proof -
  have "ptrs_inj (num_layers s) (num_chunks_per_tensor s) s" using raw_ptrs_inj assms(1,2) by blast
  from chunk_read_rows [OF assms(5) this assms(3,4) _ assms(7-9), of "[]"] assms(6)
  obtain s' where "chunk_read slot w cell_count head s data = Ok (s', [])" "mem_written s s'" by (auto simp: restored_def)
  with mem_written_inv [OF assms(1)] show ?thesis by blast
qed

theorem chunk_read_invariant_witness:
  "\<exists>s'. chunk_read 1 4 2 3 demo_kv [1, 2, 3, 4, 5, 6, 7, 8] = Ok (s', []) \<and> kv_inv demo_codec s'"
  by (rule chunk_read_invariant [OF demo_kv_facts(2) _ _ _ demo_tensor]) (auto simp: demo_states demo_kv_facts)



section \<open>Growth\<close>

text \<open>
  C14. Growing the cache. When tokens need more chunks than exist, \<open>mz_grow_chunks\<close> creates them for every layer: the cache
  then covers all tokens, the invariant of the KV state and every existing chunk are kept, and the new chunks are zero and part
  of the swap-out plan at once if nothing is swapped out; otherwise the plan keeps its size and the growth is noted for later.
\<close>

theorem growth_covers:
  assumes "kv_inv cd (kv st)" "growable env ls t (kv st)" "\<forall>l. layer_fds (kv st) l = Closed"
    "clean_ladder (kv st) \<longrightarrow> next_layer_to_offload (kv st) = num_layers (kv st) - 1"
    "ratio_ok (decomp_load_ratio cfg)" "0 \<le> per_layer_balance (kv st)"
    and n: "unat n_tokens \<le> 65536" "256 * n_chunks_alloc t < unat n_tokens"
  shows "\<exists>t' st'. mz_grow_chunks env cfg ls True n_tokens t st = Ok (t', st') \<and> unat n_tokens \<le> 256 * n_chunks_alloc t' \<and>
    kv_inv cd (kv st') \<and> (\<forall>i j. chunk_ix (kv st) i j \<longrightarrow> chunk_view cd (kv st') i j = chunk_view cd (kv st) i j) \<and>
    (if clean_ladder (kv st)
     then num_chunks_per_tensor (kv st') = int (n_chunks_alloc t') \<and>
       (\<forall>i j. 0 \<le> i \<and> i < num_layers (kv st) \<and> num_chunks_per_tensor (kv st) \<le> j \<and> j < int (n_chunks_alloc t') \<longrightarrow>
          chunk_view cd (kv st') i j = Some (replicate (rbytes (kv st)) 0, replicate (rbytes (kv st)) 0))
     else num_chunks_per_tensor (kv st') = num_chunks_per_tensor (kv st) \<and>
       pending_chunks_total (kv st') = max (pending_chunks_total (kv st)) (int (n_chunks_alloc t')))"
proof -
  let ?need = "chunks_for n_tokens" and ?s = "kv st"
  have c: "?need = (unat n_tokens + 255) div 256" by (rule chunks_for_eq [OF n(1)])
  have need: "n_chunks_alloc t < ?need" "int ?need \<le> MAX_CHUNKS_PER_TENSOR" "unat n_tokens \<le> 256 * ?need"
    using n div256 [of "unat n_tokens + 255"] unfolding c by linarith+
  obtain t' s' where g: "grow_all_layers env ls (?need - n_chunks_alloc t) (int (n_chunks_alloc t)) (t, ?s) = Ok (t', s')"
    "freshened (num_chunks_per_tensor ?s) (kv_hidden_dim ?s) ?s s'"
    "\<forall>i j. 0 \<le> i \<and> i < num_layers ?s \<and> num_chunks_per_tensor ?s \<le> j \<and> j < int ?need \<longrightarrow> zero_chunk (svm_next ?s) (kv_hidden_dim ?s) s' i j"
    using grow_columns [OF assms(1,2) less_imp_le [OF need(1)] need(2)] by blast
  define st' where "st' = on_kv_chunks_grown cfg (int ?need) (st\<lparr>kv := s'\<rparr>)"
  have kv: "kv st' = register_grown_chunks cfg (int ?need) s'" by (simp add: st'_def on_kv_chunks_grown_def)
  have "num_chunks_per_tensor ?s < int ?need" using assms(2) need(1) by (simp add: growable_def)
  from register_fresh [OF assms(1) _ _ assms(5,6) g(2) this need(2) g(3) kv] assms(3,4)
  have r: "kv_inv cd (kv st') \<and> (\<forall>i j. chunk_ix ?s i j \<longrightarrow> chunk_view cd (kv st') i j = chunk_view cd ?s i j) \<and>
    (if clean_ladder ?s then num_chunks_per_tensor (kv st') = int ?need \<and>
       (\<forall>i j. 0 \<le> i \<and> i < num_layers ?s \<and> num_chunks_per_tensor ?s \<le> j \<and> j < int ?need \<longrightarrow>
          chunk_view cd (kv st') i j = Some (replicate (rbytes ?s) 0, replicate (rbytes ?s) 0))
     else num_chunks_per_tensor (kv st') = num_chunks_per_tensor ?s \<and> pending_chunks_total (kv st') = max (pending_chunks_total ?s) (int ?need))"
    by blast
  have "mz_grow_chunks env cfg ls True n_tokens t st = Ok (t'\<lparr>n_chunks_alloc := ?need\<rparr>, st')"
    using need(1,2) g(1) by (simp add: mz_grow_chunks_def Let_def st'_def)
  with r need(3) show ?thesis
    by (intro exI [of _ "t'\<lparr>n_chunks_alloc := ?need\<rparr>"] exI [of _ st']) simp
qed

definition demo_tensors :: kv_tensors where
  "demo_tensors = \<lparr>layers_k_chunks = (\<lambda>i j. j < 8), layers_v_chunks = (\<lambda>i j. j < 8), n_chunks_alloc = 8\<rparr>"

lemma demo_growable: "growable demo_env [(0, 2), (1, 2)] demo_tensors demo_kv"
  by (auto simp: growable_def demo_tensors_def demo_kv_facts table_below_def demo_kv0_def demo_env_def upto.simps nat_less_iff split: if_splits)

theorem growth_covers_witness:
  "\<exists>t' st'. mz_grow_chunks demo_env demo_cfg [(0, 2), (1, 2)] True 2049 demo_tensors demo_fresh_core = Ok (t', st') \<and>
     2049 \<le> 256 * n_chunks_alloc t' \<and> kv_inv demo_codec (kv st')"
proof -
  have "\<exists>t' st'. mz_grow_chunks demo_env demo_cfg [(0, 2), (1, 2)] True 2049 demo_tensors demo_fresh_core = Ok (t', st') \<and>
     unat (2049 :: u32) \<le> 256 * n_chunks_alloc t' \<and> kv_inv demo_codec (kv st')"
    using growth_covers [of demo_codec demo_fresh_core demo_env "[(0, 2), (1, 2)]" demo_tensors demo_cfg 2049]
      demo_growable demo_kv_facts demo_ratio by (auto simp: demo_fresh_core_def demo_tensors_def)
  then show ?thesis by simp
qed

end
