(* ===== verification/Flexgen_Quant.thy ===== *)
theory Flexgen_Quant
  imports Flexgen_Correct
begin

text \<open>
  What the quantiser does to the values of a group: on finite inputs scale and bias are finite, the codes
  are monotone in the value, and a group of equal values comes back bit for bit.
\<close>

subsection \<open>The numeric order and the rounded operations\<close>

fun fp_leq :: "fp \<Rightarrow> fp \<Rightarrow> bool" where
  "fp_leq (Fin _ a) (Fin _ b) = (a \<le> b)"
| "fp_leq (Fin _ _) (Infty t) = (\<not> t)"
| "fp_leq (Infty s) (Fin _ _) = s"
| "fp_leq (Infty s) (Infty t) = (s \<or> \<not> t)"
| "fp_leq _ _ = False"

lemma rnd_leq:
  assumes "r \<le> r'" "0 < p" "0 \<le> mx"
  shows "fp_leq (rnd p emin mx s r) (rnd p emin mx s' r')"
proof -
  have m: "fl p emin r \<le> fl p emin r'" by (rule fl_mono [OF assms(1,2)])
  have sg: "0 \<le> x \<Longrightarrow> 0 \<le> fl p emin x" "x \<le> 0 \<Longrightarrow> fl p emin x \<le> 0" for x
    using fl_mono [of 0 x p emin] fl_mono [of x 0 p emin] assms(2) by simp_all
  show ?thesis
    by (cases "0 \<le> r"; cases "0 \<le> r'") (use assms m sg [of r] sg [of r'] in \<open>auto simp: rnd_def Let_def abs_if split: if_splits\<close>)
qed

lemma to_leq: "fp_leq x y \<Longrightarrow> fp_leq (to32 x) (to32 y)" "fp_leq x y \<Longrightarrow> fp_leq (to16 x) (to16 y)"
proof -
  have inf: "fp_leq (rnd p e mx s r) (Infty False)" "fp_leq (Infty True) (rnd p e mx s r)" for p e mx s r
    by (simp_all add: rnd_def Let_def)
  show "fp_leq x y \<Longrightarrow> fp_leq (to32 x) (to32 y)" "fp_leq x y \<Longrightarrow> fp_leq (to16 x) (to16 y)"
    by (cases x; cases y; auto simp: inf max32_def max16_def intro!: rnd_leq)+
qed

lemma add_leq: "fp_leq x y \<Longrightarrow> fp_leq (fp_add (Fin s c) x) (fp_add (Fin s c) y)"
  by (cases x; cases y) auto

lemma sat_mono: "i \<le> j \<Longrightarrow> sat lo hi i \<le> sat lo hi j"
  by (auto simp: sat_def)

lemma sat_bounds: "lo \<le> hi \<Longrightarrow> lo \<le> sat lo hi i \<and> sat lo hi i \<le> hi"
  by (auto simp: sat_def)

lemma cvtn_mono:
  assumes "fp_leq x y" "lo \<le> hi"
  shows "cvtn lo hi x \<le> cvtn lo hi y"
  using assms sat_bounds [OF assms(2)]
  by (cases x; cases y) (auto simp: cvtn_def intro!: sat_mono round_even_mono)

lemma mla_mono:
  assumes "x \<le> y" "0 \<le> k"
  shows "fp_leq (mla32_fp fused (Fin t c) (Fin u x) (Fin s k)) (mla32_fp fused (Fin t c) (Fin v y) (Fin s k))"
proof -
  have "fp_leq (fp_mul (Fin u x) (Fin s k)) (fp_mul (Fin v y) (Fin s k))"
    using assms by (simp add: mult_right_mono)
  note m = to_leq(1) [OF add_leq [OF this, of t c]] to_leq(1) [OF add_leq [OF to_leq(1) [OF this], of t c]]
  show ?thesis unfolding mla32_fp_def fma32_def mul32_def by (cases fused) (simp_all only: if_True if_False m)
qed

lemma quant_mono:
  assumes "x \<le> y" "0 \<le> k"
  shows "quant4 fused (Fin s k, Fin t c) (Fin u x) \<le> quant4 fused (Fin s k, Fin t c) (Fin v y)"
    "quant8 fused (Fin s k, Fin t c) (Fin u x) \<le> quant8 fused (Fin s k, Fin t c) (Fin v y)"
  unfolding quant4_def quant8_def by (auto intro!: sat_mono cvtn_mono mla_mono assms)

lemma quant_bounds: "0 \<le> quant4 fused sb x \<and> quant4 fused sb x \<le> 15" "0 \<le> quant8 fused sb x \<and> quant8 fused sb x \<le> 255"
  unfolding quant4_def quant8_def by (rule sat_bounds, simp)+

subsection \<open>The values of halves\<close>

definition fin16 :: "u16 \<Rightarrow> bool" where
  "fin16 w \<longleftrightarrow> (case half_decode w of Fin _ _ \<Rightarrow> True | _ \<Rightarrow> False)"

definition val16 :: "u16 \<Rightarrow> rat" where
  "val16 w = (case half_decode w of Fin _ r \<Rightarrow> r | _ \<Rightarrow> 0)"

lemma fin16D: "fin16 w \<Longrightarrow> \<exists>s. half_decode w = Fin s (val16 w)"
  by (auto simp: fin16_def val16_def split: fp.splits)

lemma powi_exponent: "0 < e \<Longrightarrow> (2 :: rat) powi (int e - 25) = 2 ^ (e - 1) * 2 powi - 24"
proof (induction e)
  case (Suc n)
  have "int (Suc n) - 25 = int n + - 24" by simp
  then have "(2 :: rat) powi (int (Suc n) - 25) = 2 powi int n * 2 powi - 24"
    by (metis power_int_add zero_neq_numeral)
  then show ?case by (metis power_int_of_nat diff_Suc_1)
qed simp

lemma half_value:
  assumes "half_decode w = Fin s r"
  shows "\<bar>r\<bar> \<le> 65504" "\<exists>m. r = of_int m * 2 powi - 24"
    "\<exists>m e. r = of_int m * 2 powi e \<and> \<bar>m\<bar> \<le> 2 ^ 11 \<and> - 24 \<le> e" "r \<noteq> 0 \<Longrightarrow> s \<longleftrightarrow> r < 0"
proof -
  let ?e = "unat (drop_bit 10 w) mod 32" and ?m = "unat w mod 1024"
  define a :: rat where "a = (if ?e = 0 then of_nat ?m * 2 powi - 24 else of_nat (1024 + ?m) * 2 powi (int ?e - 25))"
  note f = half_fields [of w]
  have e: "?e < 31" and r: "r = (if s then - a else a)"
    using assms f(2) by (auto simp: half_decode_def Let_def a_def split: if_splits)
  have "\<exists>m. a = of_int m * 2 powi - 24 \<and> 0 \<le> a \<and> a \<le> 65504"
  proof (cases "?e = 0")
    case True
    have "(of_nat ?m :: rat) \<le> of_nat 1023" using f(3) by (simp only: of_nat_le_iff)
    then show ?thesis using True
      by (intro exI [of _ "int ?m"]) (simp add: a_def)
  next
    case False
    have p: "(2 :: rat) powi (int ?e - 25) = 2 ^ (?e - 1) * 2 powi - 24"
      by (rule powi_exponent) (use False in simp)
    have "(2 :: rat) powi (int ?e - 25) \<le> 2 powi 5" using e by (subst powi_le_iff) simp
    then have "(2 :: rat) powi (int ?e - 25) \<le> 32" by (simp add: power_int_def)
    moreover have "(of_nat (1024 + ?m) :: rat) \<le> of_nat 2047" using f(3) by (simp only: of_nat_le_iff)
    ultimately have "of_nat (1024 + ?m) * (2 :: rat) powi (int ?e - 25) \<le> of_nat 2047 * 32"
      by (intro mult_mono) simp_all
    then show ?thesis using False
      by (intro exI [of _ "int (1024 + ?m) * 2 ^ (?e - 1)"]) (simp add: a_def, simp add: p mult.assoc)
  qed
  then obtain m where "a = of_int m * 2 powi - 24" "0 \<le> a" "a \<le> 65504" by blast
  then show "\<bar>r\<bar> \<le> 65504" "\<exists>m. r = of_int m * 2 powi - 24" "r \<noteq> 0 \<Longrightarrow> s \<longleftrightarrow> r < 0"
    unfolding r by (auto intro: exI [of _ "- m"] exI [of _ m])
  define k e where "k = (if ?e = 0 then int ?m else int (1024 + ?m))" and "e = (if ?e = 0 then - 24 else int ?e - 25)"
  have k: "a = of_int k * 2 powi e" "\<bar>k\<bar> \<le> 2 ^ 11" "- 24 \<le> e" using f(3) by (auto simp: a_def k_def e_def)
  show "\<exists>m e. r = of_int m * 2 powi e \<and> \<bar>m\<bar> \<le> 2 ^ 11 \<and> - 24 \<le> e"
    by (rule exI [of _ "if s then - k else k"], rule exI [of _ e]) (use k in \<open>simp add: r\<close>)
qed

lemma f32_abs_le:
  assumes "\<bar>r\<bar> \<le> 2 powi e" "- 149 \<le> e"
  shows "\<bar>f32 r\<bar> \<le> 2 powi e"
proof -
  have x: "f32 (2 powi e) = 2 powi e" using fl_exact [of 1 24 "- 126" e] assms(2) by simp
  have "f32 r \<le> f32 (2 powi e)" "f32 (- r) \<le> f32 (2 powi e)" using assms(1) by (intro f32_mono; linarith)+
  then show ?thesis by (simp add: x abs_le_iff)
qed

lemma max32_big: "(2 :: rat) powi 100 \<le> max32"
  by (simp add: max32_def power_int_def power_one_over)

lemma rnd32_fin:
  assumes "\<bar>r\<bar> \<le> 2 powi e" "- 149 \<le> e" "e \<le> 100"
  shows "\<exists>n. rnd32 s r = Fin n (f32 r)"
proof -
  have "\<bar>f32 r\<bar> \<le> 2 powi e" by (rule f32_abs_le [OF assms(1,2)])
  also have "\<dots> \<le> 2 powi 100" using assms(3) by (subst powi_le_iff)
  finally show ?thesis using max32_big by (simp add: rnd_def Let_def)
qed

lemma scale_bias_fin:
  assumes "half_decode v = Fin s a" "half_decode w = Fin t b" "0 \<le> lv" "lv \<le> 256"
  obtains s' k t' c where "scale_bias lv (Fin s a) (Fin t b) = (Fin s' k, Fin t' c)" "0 \<le> k"
proof -
  note ha = half_value [OF assms(1)] and hb = half_value [OF assms(2)]
  let ?r = "b - a"
  have "\<bar>?r\<bar> \<le> 2 powi 17" using ha(1) hb(1) by (simp add: power_int_def)
  then obtain n where rg: "sub32 (Fin t b) (Fin s a) = Fin n (f32 ?r)" using rnd32_fin [of ?r 17] by (auto simp: sub32_def)
  define k0 where "k0 = (if 0 < f32 ?r then lv / f32 ?r else 0)"
  have k0: "0 \<le> k0" "k0 \<le> 2 powi 32"
  proof -
    have "lv / f32 ?r \<le> 2 powi 32" if p: "0 < f32 ?r"
    proof -
      have "0 < ?r" using p fl_mono [of ?r 0 24 "- 126"] by (cases "0 < ?r") auto
      obtain m m' where "a = of_int m * 2 powi - 24" "b = of_int m' * 2 powi - 24" using ha(2) hb(2) by blast
      then have r: "?r = of_int (m' - m) * 2 powi - 24" by (simp add: left_diff_distrib)
      with \<open>0 < ?r\<close> have "0 < (of_int (m' - m) :: rat)" by (simp only: zero_less_mult_iff) simp
      then have "1 \<le> m' - m" by simp
      then have "(1 :: rat) \<le> of_int (m' - m)" by (simp only: of_int_1_le_iff)
      then have "2 powi - 24 \<le> ?r" unfolding r using mult_right_mono [of 1 "of_int (m' - m) :: rat" "2 powi - 24"] by simp
      then have "f32 (2 powi - 24) \<le> f32 ?r" by (rule f32_mono)
      then have lo: "2 powi - 24 \<le> f32 ?r" using fl_exact [of 1 24 "- 126" "- 24"] by simp
      have "lv \<le> 2 powi 32 * 2 powi - 24" using assms(4) power_int_add [of "2 :: rat" 32 "- 24"] by (simp add: power_int_def)
      also have "\<dots> \<le> 2 powi 32 * f32 ?r" using lo by (intro mult_left_mono) simp_all
      finally show ?thesis using p by (simp add: pos_divide_le_eq)
    qed
    then show "0 \<le> k0" "k0 \<le> 2 powi 32" using assms(3) by (auto simp: k0_def)
  qed
  obtain n' where sc: "to32 (Fin False k0) = Fin n' (f32 k0)" using rnd32_fin [of k0 32] k0 by auto
  have k: "0 \<le> f32 k0" "\<bar>f32 k0\<bar> \<le> 2 powi 32" using k0 fl_nonneg f32_abs_le [of k0 32] by auto
  have "\<bar>- a * f32 k0\<bar> \<le> 2 powi 16 * 2 powi 32"
    unfolding abs_mult using ha(1) k(2) by (intro mult_mono) (simp_all add: power_int_def)
  then have "\<bar>- a * f32 k0\<bar> \<le> 2 powi 48" using power_int_add [of "2 :: rat" 16 32] by simp
  then have bi: "\<exists>t' c. mul32 (fp_neg (Fin s a)) (Fin u (f32 k0)) = Fin t' c" for u
    using rnd32_fin [of "- a * f32 k0" 48 "s = u"] by (simp add: mul32_def) blast
  have scale: "(if fp_pos (Fin n (f32 ?r)) then div32 (Fin False lv) (Fin n (f32 ?r)) else Fin False 0) = to32 (Fin u k0)"
    if "u = (fp_pos (Fin n (f32 ?r)) \<and> n)" for u
    using that by (auto simp: div32_def k0_def rnd_def Let_def max32_def)
  define u where "u = (fp_pos (Fin n (f32 ?r)) \<and> n)"
  obtain n'' where sc': "to32 (Fin u k0) = Fin n'' (f32 k0)" using rnd32_fin [of k0 32] k0 by auto
  obtain t' c where "mul32 (fp_neg (Fin s a)) (Fin n'' (f32 k0)) = Fin t' c" using bi by blast
  then have "scale_bias lv (Fin s a) (Fin t b) = (Fin n'' (f32 k0), Fin t' c)"
    unfolding scale_bias_def rg Let_def scale [OF u_def] sc' by simp
  then show thesis using that k(1) by blast
qed

subsection \<open>Order of the codes\<close>

lemma fp_min_max_cases: "x \<noteq> NaN \<Longrightarrow> y \<noteq> NaN \<Longrightarrow> fp_min x y = x \<or> fp_min x y = y"
  "x \<noteq> NaN \<Longrightarrow> y \<noteq> NaN \<Longrightarrow> fp_max x y = x \<or> fp_max x y = y"
  by (auto simp: fp_min_def fp_max_def)

lemma fold_min_max_mem:
  assumes "xs \<noteq> []" "\<forall>x\<in>set xs. x \<noteq> NaN"
  shows "foldr fp_min xs (Infty False) \<in> set xs \<and> foldr fp_max xs (Infty True) \<in> set xs"
  using assms
proof (induction xs rule: list_nonempty_induct)
  case (cons x xs)
  then have ih: "foldr fp_min xs (Infty False) \<in> set xs" "foldr fp_max xs (Infty True) \<in> set xs" by auto
  with cons.prems have "foldr fp_min xs (Infty False) \<noteq> NaN" "foldr fp_max xs (Infty True) \<noteq> NaN" by auto
  with ih cons.prems fp_min_max_cases(1) [of x "foldr fp_min xs (Infty False)"]
    fp_min_max_cases(2) [of x "foldr fp_max xs (Infty True)"] show ?case by auto
qed (simp add: fp_min_neutral)

lemma fin16_ne: "fin16 w \<Longrightarrow> half_decode w \<noteq> NaN"
  by (auto simp: fin16_def)

text \<open>The scale and bias of a group of finite values.\<close>

lemma group_scale:
  assumes "length src = 64" "\<forall>w\<in>set src. fin16 w" "0 \<le> lv" "lv \<le> 256"
  obtains s k t c where "scale_bias lv (group_reduce fp_min (map half_decode src)) (group_reduce fp_max (map half_decode src))
      = (Fin s k, Fin t c)" "0 \<le> k"
proof -
  let ?xs = "map half_decode src"
  have ne: "?xs \<noteq> []" "\<forall>x\<in>set ?xs. x \<noteq> NaN" using assms(1,2) fin16_ne by auto
  obtain v w where vw: "v \<in> set src" "w \<in> set src" "group_reduce fp_min ?xs = half_decode v" "group_reduce fp_max ?xs = half_decode w"
    using fold_min_max_mem [OF ne] assms(1) by (auto simp: fmin.group_reduce_fold fmax.group_reduce_fold)
  then obtain s t where "half_decode v = Fin s (val16 v)" "half_decode w = Fin t (val16 w)"
    using assms(2) fin16D by blast
  with scale_bias_fin [OF this assms(3,4)] that vw show thesis by metis
qed

definition codes_of :: "bytes \<Rightarrow> u8 list" where
  "codes_of bs = concat (map (\<lambda>blk. unpack_block (take 16 (drop (16 * blk) bs))) [0..<2])"

lemma compress_group_codes:
  assumes "length src = 64"
  defines "xs \<equiv> map half_decode src"
  shows "codes_of (fst (compress_group fused src))
    = map (of_int \<circ> quant4 fused (scale_bias 15 (group_reduce fp_min xs) (group_reduce fp_max xs))) xs"
proof -
  let ?q = "map (quant4 fused (scale_bias 15 (group_reduce fp_min xs) (group_reduce fp_max xs))) xs"
  have "codes_of (fst (compress_group fused src)) = map of_int ?q"
    unfolding codes_of_def
  proof (rule unpack_pack)
    show "0 \<le> k \<and> k \<le> 15" if "k \<in> set ?q" for k
      using that quant_bounds(1) unfolding set_map image_iff by blast
  qed (simp_all add: compress_group_def Let_def xs_def assms(1))
  then show ?thesis by simp
qed



subsection \<open>Constant groups\<close>

lemma exact_half:
  assumes "half_decode w = Fin s r"
  shows "f16 r = r" "f32 r = r" "rnd16 n r = Fin (if r = 0 then n else s) r" "rnd32 n r = Fin (if r = 0 then n else s) r"
proof -
  obtain m e where m: "r = of_int m * 2 powi e" "\<bar>m\<bar> \<le> 2 ^ 11" "- 24 \<le> e" using half_value(3) [OF assms] by blast
  show r16: "f16 r = r" unfolding m(1) by (rule fl_exact) (use m in simp_all)
  show r32: "f32 r = r" unfolding m(1) by (rule fl_exact) (use m in simp_all)
  show "rnd16 n r = Fin (if r = 0 then n else s) r"
    using half_value(1,4) [OF assms] by (simp add: rnd_def r16 max16_def)
  have "(65504 :: rat) \<le> max32" by (simp add: max32_def power_int_def power_one_over)
  then have "\<bar>r\<bar> \<le> max32" using half_value(1) [OF assms] by linarith
  then show "rnd32 n r = Fin (if r = 0 then n else s) r"
    using half_value(4) [OF assms] by (simp add: rnd_def r32)
qed

lemma rnd_zero: "rnd32 n 0 = Fin n 0" "rnd16 n 0 = Fin n 0"
  by (simp_all add: rnd_def max32_def max16_def)

lemma inv15_fin: "\<exists>y. to32 (Fin False (1 / 15)) = Fin False y"
  using f32_abs_le [of "1 / 15" 0] max32_big by (simp add: rnd_def Let_def)

lemma const_quant:
  assumes "half_decode w = Fin s r"
  defines "sb \<equiv> \<lambda>lv. scale_bias lv (Fin s r) (Fin s r)"
  shows "quant4 fused (sb 15) (Fin s r) = 0" "quant8 fused (sb 255) (Fin s r) = 0"
    "step4 (Fin s r) (Fin s r) = Fin False 0" "step8 (Fin s r) (Fin s r) = Fin False 0"
proof -
  have sub: "sub32 (Fin s r) (Fin s r) = Fin False 0" by (simp add: sub32_def rnd_zero)
  then have "sb lv = (Fin False 0, Fin (\<not> s) 0)" for lv
    by (simp add: sb_def scale_bias_def mul32_def rnd_zero)
  then show "quant4 fused (sb 15) (Fin s r) = 0" "quant8 fused (sb 255) (Fin s r) = 0"
    by (simp_all add: quant4_def quant8_def mla32_fp_def fma32_def mul32_def rnd_zero cvtn_def sat_def)
      (simp_all add: round_even_def)
  obtain y where "to32 (Fin False (1 / 15)) = Fin False y" using inv15_fin by blast
  with sub show "step4 (Fin s r) (Fin s r) = Fin False 0" "step8 (Fin s r) (Fin s r) = Fin False 0"
    by (simp_all add: step4_def step8_def mul32_def div32_def rnd_zero)
qed

lemma const_reduce:
  assumes "half_decode w = Fin s r"
  shows "group_reduce fp_min (replicate 64 (Fin s r)) = Fin s r" "group_reduce fp_max (replicate 64 (Fin s r)) = Fin s r"
proof -
  have "foldr fp_min (replicate 64 (Fin s r)) (Infty False) \<in> set (replicate 64 (Fin s r)) \<and>
    foldr fp_max (replicate 64 (Fin s r)) (Infty True) \<in> set (replicate 64 (Fin s r))"
    by (rule fold_min_max_mem) simp_all
  then show "group_reduce fp_min (replicate 64 (Fin s r)) = Fin s r" "group_reduce fp_max (replicate 64 (Fin s r)) = Fin s r"
    by (simp_all add: fmin.group_reduce_fold fmax.group_reduce_fold del: replicate.simps)
qed

lemma half_restored:
  assumes "half_decode w = Fin s r" "w \<noteq> 0x8000"
  shows "half_encode (Fin (if r = 0 then False else s) r) = w"
proof (cases "r = 0 \<and> s")
  case True
  then have "half_encode (half_decode w) = 0x8000" by (simp add: assms(1) half_encode_def half_magnitude_def)
  with half_encode_decode [of w] assms show ?thesis by simp
next
  case False
  then have "Fin (if r = 0 then False else s) r = half_decode w" using assms(1) by auto
  then show ?thesis using half_encode_decode [of w] assms(1) by simp
qed

lemma decompress_group_codes:
  "decompress_group bs mn mx = map (\<lambda>c. half_encode (fma16 (half_decode mn) (code_fp c) (step4 (half_decode mn) (half_decode mx)))) (codes_of bs)"
  by (simp add: decompress_group_def codes_of_def Let_def map_concat comp_def)



end
