(* ===== verification/Component_Props.thy ===== *)
theory Component_Props
  imports Demo Flexgen_Quant
begin

text \<open>
  Properties of single components: construction and plan of the KV state, its swap-out operations one by one, the thread
  pool, the weights and the compression kernels. Each rests on the lemmas of the component's own theory.
\<close>

section \<open>The KV state\<close>





text \<open>
  C23. Compressing \<open>n\<close> chunks succeeds, keeps the invariant, takes the last \<open>n\<close> chunks of the compress region in order, replaces
  their content by what decoding gives and leaves every other chunk alone.
\<close>

theorem compress_chunks_effect:
  assumes "cd = flexgen_codec fused nt (backend cfg) (kv_hidden_dim s)" "kv_inv cd s" "flexgen_fits (backend cfg) (kv_hidden_dim s)"
    "arena_room cfg s" "n \<le> length (comp_rest s)"
  shows "\<exists>s' t xs. mzcache_compress_chunks env cfg cd (int n) s = Ok (s', t) \<and> kv_inv cd s' \<and>
    length xs = n \<and> comp_rest s = comp_rest s' @ xs \<and> comp_taken s' = xs @ comp_taken s \<and>
    (\<forall>i j. chunk_ix s i j \<longrightarrow> chunk_view cd s' i j =
       (if (i, j) \<in> set xs then map_option (lossy cd i j) (chunk_view cd s i j) else chunk_view cd s i j))"
proof -
  obtain s' t where "compress_loop env cfg cd n s 0 = Ok (s', t)" "kv_inv cd s'" "compress_spec cd n s s'"
    using fx.compress_loop_ok [OF assms(2) [unfolded assms(1)] assms(3,4,5), of env 0] unfolding assms(1) by blast
  then show ?thesis unfolding compress_spec_def by (auto simp: mzcache_compress_chunks_def)
qed

lemma demo_cd: "demo_codec = flexgen_codec False 2 (backend demo_cfg) (kv_hidden_dim demo_kv)"
  "flexgen_fits (backend demo_cfg) (kv_hidden_dim demo_kv)"
  using demo_kv_facts(6) demo_fits by simp_all

theorem compress_chunks_effect_witness:
  "\<exists>s' t. mzcache_compress_chunks demo_env demo_cfg demo_codec 3 demo_kv = Ok (s', t) \<and> kv_inv demo_codec s'"
proof -
  have "3 \<le> length (comp_rest demo_kv)" using demo_regions by simp
  from compress_chunks_effect [OF demo_cd(1) demo_kv_facts(2) demo_cd(2) demo_kv_facts(9) this, of demo_env] show ?thesis by auto
qed

text \<open>
  C24. Storing \<open>n\<close> chunks with working files succeeds, keeps the invariant, takes the last \<open>n\<close> chunks of the store region in
  order, and no chunk changes its content.
\<close>

theorem store_chunks_effect:
  assumes "kv_inv cd s" "io_writes env" "n \<le> length (store_rest s)"
  shows "\<exists>s' xs. mzcache_store_chunks env (int n) s = Ok s' \<and> kv_inv cd s' \<and>
    length xs = n \<and> store_rest s = store_rest s' @ xs \<and> store_taken s' = xs @ store_taken s \<and>
    (\<forall>i j. chunk_ix s i j \<longrightarrow> chunk_view cd s' i j = chunk_view cd s i j)"
  using store_loop_ok [OF assms] unfolding store_spec_def by (auto simp: mzcache_store_chunks_def)

theorem store_chunks_effect_witness:
  "\<exists>s'. mzcache_store_chunks demo_env 2 demo_kv = Ok s' \<and> kv_inv demo_codec s'"
proof -
  have "2 \<le> length (store_rest demo_kv)" using demo_regions by simp
  from store_chunks_effect [OF demo_kv_facts(2) demo_io(1) this] show ?thesis by auto
qed

text \<open>
  C25. Offloading the arenas of a layer and reloading all arenas brings every compressed chunk back: both keep the invariant
  and the content of every chunk, and afterwards all arenas are in memory again.
\<close>

theorem offload_reload:
  assumes "kv_inv cd s" "io_offload env" "io_reload env" "0 \<le> next_layer_to_offload s" "comp_rest s = []"
    and "s1 = fst (mzcache_offload_arenas env s)" "s2 = mzcache_reload_all_arenas env s1"
  shows "kv_inv cd s1 \<and> kv_inv cd s2 \<and> arenas s1 (next_layer_to_offload s) = [] \<and> next_layer_to_offload s2 = num_layers s - 1 \<and>
    (\<forall>i j. chunk_ix s i j \<longrightarrow> chunk_view cd s1 i j = chunk_view cd s i j \<and> chunk_view cd s2 i j = chunk_view cd s i j)"
proof -
  note o = offload_inv [OF assms(1,2,4,5,6)]
  note r = reload_all_inv [OF o(1) assms(3,7)]
  have "num_layers s1 = num_layers s" using o(3) by (simp add: plan_frame_def)
  moreover have "arenas s1 (next_layer_to_offload s) = []" using offload_eq [OF assms(2,4)] assms(6) by (simp add: Let_def)
  ultimately show ?thesis using o(1) r(1,3) same_dataD(2) [OF o(2)] same_dataD(2) [OF r(2)] by simp
qed

lemma demo_all_compressed:
  obtains s where "kv_inv demo_codec s" "comp_rest s = []" "next_layer_to_offload s = 1"
proof -
  have n: "10 \<le> length (comp_rest demo_kv)" using demo_regions by simp
  obtain s t where s: "compress_loop demo_env demo_cfg demo_codec 10 demo_kv 0 = Ok (s, t)" "kv_inv demo_codec s" "compress_spec demo_codec 10 demo_kv s"
    using fx.compress_loop_ok [OF demo_kv_facts(2) [unfolded demo_cd(1)] demo_cd(2) demo_kv_facts(9) n, of demo_env 0]
    unfolding demo_cd(1) [symmetric] by blast
  obtain xs where xs: "length xs = 10" "comp_rest demo_kv = comp_rest s @ xs" "next_layer_to_offload s = 1"
    using s(3) demo_kv_facts(12) unfolding compress_spec_def by auto
  have "length (comp_rest s) = 0" using demo_regions(1) xs(1,2) by (metis add_right_cancel length_append add_0)
  with s(2) xs(3) that show thesis by blast
qed

theorem offload_reload_witness:
  "\<exists>s s2. kv_inv demo_codec s \<and> s2 = mzcache_reload_all_arenas demo_env (fst (mzcache_offload_arenas demo_env s)) \<and> kv_inv demo_codec s2"
proof -
  obtain s where s: "kv_inv demo_codec s" "comp_rest s = []" "next_layer_to_offload s = 1" by (rule demo_all_compressed)
  from offload_reload [OF s(1) demo_io(2,3) _ s(2) HOL.refl HOL.refl] s(3)
  have "kv_inv demo_codec (mzcache_reload_all_arenas demo_env (fst (mzcache_offload_arenas demo_env s)))" by simp
  with s(1) show ?thesis by blast
qed

section \<open>Thread pool and weights\<close>

text \<open>
  C26. The pool loses no task and starts each exactly once and in order. Whatever tasks are enqueued to a group, and whenever
  workers take and finish tasks, the tasks started so far followed by those still queued are the tasks that were queued at the
  beginning followed by those enqueued since.
\<close>

theorem pool_fifo:
  assumes "group_run es g = Some (started, g')"
  shows "started @ queued g' = queued g @ enqueued es \<and> mset (active g') + mset (finished es) = mset (active g) + mset started"
  by (rule wg.run_fifo [OF assms [unfolded group_run_def]])

theorem pool_fifo_witness:
  "\<exists>s g'. group_run [Enqueue (1 :: nat), Enqueue 2, Start, Finish 1, Start] \<lparr>queued = [], active = [], workers = 1\<rparr> = Some (s, g') \<and> s @ queued g' = [1, 2]"
proof -
  have "group_run [Enqueue (1 :: nat), Enqueue 2, Start, Finish 1, Start] \<lparr>queued = [], active = [], workers = 1\<rparr> =
      Some ([1, 2], \<lparr>queued = [], active = [2], workers = 1\<rparr>)"
    by (simp add: group_run_def group_enqueue_def group_take_def group_finish_def)
  from pool_fifo [OF this] this show ?thesis by (simp add: enqueued_def)
qed





section \<open>Compression kernels\<close>

text \<open>
  C29. The kernels do not depend on the number of threads: compression in both widths gives the same bytes and metadata for every
  positive number of threads, and the threaded 4-bit decompression gives what the single-threaded one gives.
\<close>

theorem kernels_thread_independent:
  assumes "0 < m" "0 < n"
  shows "flexgen_compress fused m h raw = flexgen_compress fused n h raw \<and>
    flexgen_compress_8bit fused m h raw = flexgen_compress_8bit fused n h raw \<and>
    flexgen_decompress m h bs mm = flexgen_decompress_single_thread h bs mm"
  using assms by (simp add: flexgen_compress_def flexgen_compress_8bit_def flexgen_decompress_def
      flexgen_decompress_single_thread_def run_threads_map)

theorem kernels_thread_independent_witness:
  "flexgen_compress False 4 2 (replicate 1024 60) = flexgen_compress False 1 2 (replicate 1024 60)"
  using kernels_thread_independent [of 4 1 False 2 "replicate 1024 60" "[]" "([], [])"] by simp

text \<open>
  C30. The vector reduction finds the extremes: the metadata of a group of 64 values is the minimum and the maximum of the group,
  whatever order the lanes are combined in.
\<close>

theorem group_extremes:
  assumes "length src = 64"
  shows "snd (compress_group fused src) =
      (half_encode (foldr fp_min (map half_decode src) (Infty False)), half_encode (foldr fp_max (map half_decode src) (Infty True))) \<and>
    snd (compress_group_8bit fused src) = snd (compress_group fused src)"
  using assms by (simp add: compress_group_def compress_group_8bit_def Let_def fmin.group_reduce_fold fmax.group_reduce_fold)

theorem group_extremes_witness: "snd (compress_group_8bit True (replicate 64 0)) = snd (compress_group True (replicate 64 0))"
  using group_extremes [of "replicate 64 0" True] by simp

text \<open>
  C31. What is packed is unpacked: the nibbles the 4-bit decompressor extracts from the bytes of a group are the codes the quantiser
  computed for its values, in their order.
\<close>

theorem packed_codes:
  assumes "length src = 64"
  shows "codes_of (fst (compress_group fused src)) =
    map (of_int \<circ> quant4 fused (scale_bias 15 (group_reduce fp_min (map half_decode src)) (group_reduce fp_max (map half_decode src))))
      (map half_decode src)"
  by (rule compress_group_codes [OF assms])

theorem packed_codes_witness: "length (codes_of (fst (compress_group False (replicate 64 0)))) = 64"
  using packed_codes [of "replicate 64 0" False] by (simp del: replicate.simps)

text \<open>
  C32. Sizes. A FlexGen build writes exactly 128 (4-bit) or 256 (8-bit) bytes per hidden dimension for a raw chunk of 512, decoding restores the
  raw length, and an encoded pair fits both the raw size and the worst case the arenas are sized for.
\<close>

theorem encoded_sizes:
  assumes "flexgen_fits b h" "length k = raw_chunk_bytes h" "length v = raw_chunk_bytes h" "cd = flexgen_codec fused nt b h"
  shows "length (fst (enc cd True i k)) = (if b = FLEXGEN then 128 * h else 256 * h) \<and>
    length (dec cd True i j (fst (enc cd True i k)) (snd (enc cd True i k))) = length k \<and>
    length (fst (enc cd True i k)) + length (fst (enc cd False i v)) \<le> comp_bound b (kv_raw_size h)"
  using fx.dec_length [OF assms(1,2), of fused nt] fx.enc_bound [OF assms(1-3), of fused nt i] assms
  by (auto simp: flexgen_fits_def flexgen_codec_def flexgen_compress_size flexgen_compress_8bit_size [OF assms(2)])

theorem encoded_sizes_witness: "length (fst (enc demo_codec True 0 (replicate (raw_chunk_bytes 2) 60))) = 256"
  using encoded_sizes [of FLEXGEN 2 "replicate (raw_chunk_bytes 2) 60" "replicate (raw_chunk_bytes 2) 60" demo_codec False 2 0 0]
  by (simp add: flexgen_fits_def)

section \<open>Errors and the planner\<close>

text \<open>
  C33. A swap file that cannot be opened hangs the last phase of the ladder: with layers left to offload and the target missed,
  the loop never returns when the swap file of the next layer cannot be opened for writing.
\<close>

theorem offload_livelock:
  assumes "0 \<le> next_layer_to_offload (kv st)" "\<not> swap_w env (next_layer_to_offload (kv st))" "check_target target ini st = None"
  shows "swapout_phase3 env target ini st = None"
proof (cases "swapout_phase3 env target ini st")
  case (Some y)
  let ?stuck = "\<lambda>env target ini st. 0 \<le> next_layer_to_offload (kv st) \<and> \<not> swap_w env (next_layer_to_offload (kv st)) \<and>
    check_target target ini st = None"
  have "\<not> ?stuck env target ini st"
    by (rule swapout_phase3.raw_induct [where P = "\<lambda>env target ini st y. \<not> ?stuck env target ini st", OF _ Some])
      (fastforce simp: Let_def mzcache_offload_arenas_def split: option.splits if_splits)
  with assms show ?thesis by blast
qed

lemma demo_start_ratio: "check_target 0 demo_fresh_core demo_fresh_core = None"
proof -
  have "n_cur_store_chunks demo_kv = 0" using demo_kv_facts(2,4) by (simp add: kv_inv_def cursors_ok_def)
  then have "current_freed demo_fresh_core = 0"
    by (simp add: current_freed_def demo_fresh_core_def demo_kv_facts(13,14) demo_weight_inv(3))
  moreover have "f64 1 = 1" "f32 1 = 1" using fl_of_int [of 1 53 "- 1022"] f32_of_int [of 1] by simp_all
  ultimately show ?thesis by (simp add: check_target_def ratio_of_def)
qed

theorem offload_livelock_witness:
  "swapout_phase3 (demo_env\<lparr>swap_w := (\<lambda>_. False)\<rparr>) 0 demo_fresh_core demo_fresh_core = None"
  by (rule offload_livelock [OF _ _ demo_start_ratio]) (simp_all add: demo_fresh_core_def demo_kv_facts)

text \<open>
  C34. A failed write loses a chunk. When the system call writes nothing, storing a chunk still succeeds: the chunk is marked stored, its memory
  is released, and its content is whatever the file held before.
\<close>

theorem store_failed_write:
  assumes "idx_ok L C" "L = cur_layer_idx_to_store s" "C = cur_chunk_idx_to_store s" "raw_chunks s L C = Some a" "svm_mem s a = Some m"
    "open_w env L" "\<forall>off n. pwrite_n env L off n = 0"
  shows "\<exists>s'. store_one env s = Ok (s', True) \<and> states s' L C = Stored \<and> svm_mem s' a = None \<and> svm_chunk_ptrs s' L C = None \<and>
    kv_file s' L = kv_file s L"
  using assms by (simp add: store_one_def Let_def store_update_def pwrite_none)

theorem store_failed_write_witness:
  "\<exists>s'. store_one (demo_env\<lparr>pwrite_n := (\<lambda>_ _ _. 0)\<rparr>) (demo_kv\<lparr>cur_layer_idx_to_store := 1, cur_chunk_idx_to_store := 7\<rparr>) = Ok (s', True) \<and>
     states s' 1 7 = Stored"
proof -
  have "chunk_ix demo_kv 1 7" by (simp add: chunk_ix_def demo_kv_facts)
  moreover have "states demo_kv 1 7 = Raw"
    using demo_kv_facts(2,3,4) \<open>chunk_ix demo_kv 1 7\<close> by (simp add: kv_inv_def states_ok_def expected_state_def)
  ultimately have "raw_ok demo_kv 1 7" using demo_kv_facts(2) unfolding kv_inv_def data_ok_def by (metis KVstate.simps(7))
  then obtain a m where "raw_chunks demo_kv 1 7 = Some a" "svm_mem demo_kv a = Some m" by (auto simp: raw_ok_def)
  then show ?thesis
    using store_failed_write [of 1 7 "demo_kv\<lparr>cur_layer_idx_to_store := 1, cur_chunk_idx_to_store := 7\<rparr>" a m
        "demo_env\<lparr>pwrite_n := (\<lambda>_ _ _. 0)\<rparr>"] by (auto simp: idx_ok_def demo_env_def)
qed

subsection \<open>The planner returns\<close>

lemma plan_allocate_range:
  assumes "ratio_ok (decomp_load_ratio cfg)" "0 \<le> n" "n \<le> 20" "plan_allocate cfg n nc ns st = (ac, as)"
  shows "0 \<le> ac" "0 \<le> as"
proof -
  define w where "w = trunc (imul32 n (decomp_load_ratio cfg))"
  have "0 \<le> imul32 n (decomp_load_ratio cfg)" "imul32 n (decomp_load_ratio cfg) \<le> of_int n"
    using ratio_okD [OF assms(1)] assms(2,3) by (auto intro!: imul32_bounds)
  then have "0 \<le> w" "w \<le> n" using le_trunc [of 0] trunc_le by (auto simp: w_def)
  with assms(4) show "0 \<le> ac" "0 \<le> as"
    unfolding plan_allocate_def Let_def w_def [symmetric] by (auto split: if_splits)
qed

lemma plan_phase1_returns:
  assumes "ratio_ok (decomp_load_ratio cfg)" "bound_chunks st \<le> total_chunks st"
  shows "\<exists>r. plan_phase1 cfg target st v = Some r"
proof (induction "nat (bound_chunks st - (fst v + fst (snd v)))" arbitrary: v rule: less_induct)
  case less
  let ?p = "fst v + fst (snd v)"
  show ?case
  proof (cases "?p < bound_chunks st \<and> \<not> plan_ratio cfg v st \<le> target")
    case False
    then show ?thesis by (subst plan_phase1.simps) (simp del: split_paired_Ex)
  next
    case True
    obtain ac as where a: "plan_allocate cfg (min 20 (total_chunks st - ?p)) (fst v) (fst (snd v)) st = (ac, as)" by fastforce
    have "0 \<le> min 20 (total_chunks st - ?p)" using True assms(2) by simp
    with plan_allocate_range [OF assms(1) this _ a] have nn: "0 \<le> ac" "0 \<le> as" by simp_all
    show ?thesis
    proof (cases "ac + as = 0")
      case True': True
      with True a show ?thesis by (subst plan_phase1.simps) (simp del: split_paired_Ex)
    next
      case False
      with less.hyps [of "(fst v + ac, fst (snd v) + as, snd (snd v))"] True nn
      obtain r where "plan_phase1 cfg target st (fst v + ac, fst (snd v) + as, snd (snd v)) = Some r" by force
      with True a False show ?thesis by (subst plan_phase1.simps) (simp del: split_paired_Ex)
    qed
  qed
qed

text \<open>
  C35. The planner returns: for every target \<open>mzcache_profile_chunks_layers\<close> ends, and it plans at most \<open>num_layers\<close> more unloaded layers.
\<close>

theorem planner_returns:
  assumes "ratio_ok (decomp_load_ratio cfg)" "0 \<le> per_layer_balance (kv st)" "0 \<le> core_num_layers st"
  shows "\<exists>ratio nc ns nu. mzcache_profile_chunks_layers cfg target st = Some (ratio, nc, ns, nu) \<and>
    nu \<le> n_cur_unload_layers (wt st) + core_num_layers st"
proof -
  have "bound_chunks st \<le> total_chunks st" using assms(2,3) by (simp add: bound_chunks_def)
  from plan_phase1_returns [OF assms(1) this] obtain v b
    where v: "plan_phase1 cfg target st (n_cur_comp_chunks (kv st), n_cur_store_chunks (kv st), n_cur_unload_layers (wt st)) = Some (v, b)"
    by (metis surj_pair)
  have k: "snd (snd v) = u" if "plan_phase1 cfg target st x = Some (v, b)" "snd (snd x) = u" for x u
  proof -
    have "snd (snd (fst y)) = snd (snd x)" if "plan_phase1 cfg target st x = Some y" for x y
      by (rule plan_phase1.raw_induct [where P = "\<lambda>cfg target st x y. snd (snd (fst y)) = snd (snd x)", OF _ that])
        (auto simp: Let_def split: if_splits prod.splits)
    from this [OF \<open>plan_phase1 cfg target st x = Some (v, b)\<close>] that(2) show ?thesis by simp
  qed
  have p2: "snd (snd (fst (plan_phase2 cfg target st n p x))) \<le> snd (snd x) + int n" for n p x
  proof (induction n arbitrary: p x)
    case (Suc n)
    let ?t = "min (per_layer_balance (kv st)) (total_chunks st - p)"
    from Suc.IH [of "p + ?t" "(fst x + ?t, fst (snd x), snd (snd x) + 1)"] show ?case by (simp add: Let_def)
  qed simp
  obtain v' b' where v': "plan_phase2 cfg target st (nat (core_num_layers st)) (fst v + fst (snd v)) v = (v', b')" by fastforce
  have "snd (snd v') \<le> n_cur_unload_layers (wt st) + core_num_layers st"
    using p2 [of "nat (core_num_layers st)" "fst v + fst (snd v)" v] k [OF v] assms(3) v' by simp
  then show ?thesis
    using v v' k [OF v] assms(3) by (cases b; cases v; cases v') (simp_all add: mzcache_profile_chunks_layers_def)
qed

theorem planner_returns_witness: "\<exists>r. mzcache_profile_chunks_layers demo_cfg (1 / 2) demo_fresh_core = Some r"
  using planner_returns [OF demo_ratio, of demo_fresh_core "1 / 2"] demo_kv_facts(10) by (auto simp: demo_fresh_core_def)

end
