(* ===== verification/Decimal.thy ===== *)
theory Decimal
  imports Mz_Float
begin

text \<open>
  Decimal text of floating point numbers, as the device profile uses it: \<open>std::ostream << double\<close> with the default
  precision of six significant digits (the format \<open>%g\<close>) and \<open>atof\<close>. Printing covers the finite non-negative numbers and parsing the
  decimal forms; hexadecimal forms, infinities and NaN do not occur in a profile.
\<close>

subsection \<open>Digits\<close>

definition digit :: "nat \<Rightarrow> char" where
  "digit d = char_of (48 + d)"

definition digit_val :: "char \<Rightarrow> nat" where
  "digit_val c = of_char c - 48"

definition is_digit :: "char \<Rightarrow> bool" where
  "is_digit c \<longleftrightarrow> 48 \<le> (of_char c :: nat) \<and> (of_char c :: nat) \<le> 57"

text \<open>The \<open>k\<close> low decimal digits of a number, with leading zeros.\<close>

fun pad_digits :: "nat \<Rightarrow> nat \<Rightarrow> string" where
  "pad_digits 0 n = []"
| "pad_digits (Suc k) n = pad_digits k (n div 10) @ [digit (n mod 10)]"

definition digits_val :: "string \<Rightarrow> nat" where
  "digits_val s = foldl (\<lambda>a c. 10 * a + digit_val c) 0 s"

lemma digit_simps [simp]: "d < 10 \<Longrightarrow> digit_val (digit d) = d" "d < 10 \<Longrightarrow> is_digit (digit d)"
  by (simp_all add: digit_val_def digit_def is_digit_def of_char_of)

lemma digits_val_snoc [simp]: "digits_val [] = 0" "digits_val (s @ [c]) = 10 * digits_val s + digit_val c"
  by (simp_all add: digits_val_def)

lemma length_pad_digits [simp]: "length (pad_digits k n) = k"
  by (induction k arbitrary: n) simp_all

lemma pad_digits_Nil [simp]: "pad_digits k n = [] \<longleftrightarrow> k = 0"
  by (cases k) simp_all

lemma pad_digits_digits: "list_all is_digit (pad_digits k n)"
  by (induction k arbitrary: n) simp_all

lemma digits_val_pad: "n < 10 ^ k \<Longrightarrow> digits_val (pad_digits k n) = n"
proof (induction k arbitrary: n)
  case (Suc k)
  then have "n div 10 < 10 ^ k" by (simp add: div_less_iff_less_mult mult.commute)
  with Suc.IH show ?case by simp
qed simp

subsection \<open>Printing\<close>

definition ilog10 :: "rat \<Rightarrow> int" where
  "ilog10 x =
     (let (a, b) = quotient_of x; k = int (floorlog 10 (nat a)) - int (floorlog 10 (nat b))
      in if 10 powi k \<le> x then k else k - 1)"

definition strip_zeros :: "string \<Rightarrow> string" where
  "strip_zeros s = rev (dropWhile (\<lambda>c. c = digit 0) (rev s))"

definition with_fraction :: "string \<Rightarrow> string \<Rightarrow> string" where
  "with_fraction ip fp = (let f = strip_zeros fp in if f = [] then ip else ip @ ''.'' @ f)"

text \<open>The six significant digits of a positive number: \<open>(m, E)\<close> stands for \<open>m * 10 ^ (E - 5)\<close>.\<close>

definition six_digits :: "rat \<Rightarrow> nat \<times> int" where
  "six_digits x =
     (let e = ilog10 x; m = nat (round_even (x * 10 powi (5 - e)))
      in if m = 10 ^ 6 then (10 ^ 5, e + 1) else (m, e))"

definition show_exponent :: "int \<Rightarrow> string" where
  "show_exponent e =
     ''e'' @ (if e < 0 then ''-'' else ''+'') @ pad_digits (if \<bar>e\<bar> < 100 then 2 else 3) (nat \<bar>e\<bar>)"

definition show_double :: "rat \<Rightarrow> string" where
  "show_double x =
     (if x = 0 then ''0''
      else let (m, e) = six_digits x in
        if - 4 \<le> e \<and> e < 0 then with_fraction ''0'' (pad_digits (nat (5 - e)) m)
        else if 0 \<le> e \<and> e < 6 then
          with_fraction (pad_digits (nat (e + 1)) (m div 10 ^ nat (5 - e))) (pad_digits (nat (5 - e)) (m mod 10 ^ nat (5 - e)))
        else with_fraction (pad_digits 1 (m div 10 ^ 5)) (pad_digits 5 (m mod 10 ^ 5)) @ show_exponent e)"

subsection \<open>Parsing\<close>

definition is_space :: "char \<Rightarrow> bool" where
  "is_space c \<longleftrightarrow> c \<in> {CHR '' '', CHR 0x09, CHR 0x0A, CHR 0x0B, CHR 0x0C, CHR 0x0D}"

definition take_sign :: "string \<Rightarrow> bool \<times> string" where
  "take_sign s = (case s of [] \<Rightarrow> (False, s)
     | c # r \<Rightarrow> if c = CHR ''-'' then (True, r) else if c = CHR ''+'' then (False, r) else (False, s))"

definition parse_exponent :: "string \<Rightarrow> int" where
  "parse_exponent s = (case s of [] \<Rightarrow> 0
     | c # r \<Rightarrow> if c = CHR ''e'' \<or> c = CHR ''E'' then
         let (neg, r') = take_sign r; ds = takeWhile is_digit r'
         in if ds = [] then 0 else if neg then - int (digits_val ds) else int (digits_val ds)
       else 0)"

definition parse_decimal :: "string \<Rightarrow> rat" where
  "parse_decimal s0 =
     (let (neg, s) = take_sign (dropWhile is_space s0);
          ip = takeWhile is_digit s; r = dropWhile is_digit s;
          fp = (case r of [] \<Rightarrow> [] | c # q \<Rightarrow> if c = CHR ''.'' then takeWhile is_digit q else []);
          r' = (case r of [] \<Rightarrow> [] | c # q \<Rightarrow> if c = CHR ''.'' then dropWhile is_digit q else r);
          v = (if ip = [] \<and> fp = [] then 0
               else (of_nat (digits_val ip) + of_nat (digits_val fp) / 10 ^ length fp) * 10 powi parse_exponent r')
      in if neg then - v else v)"

definition atof :: "string \<Rightarrow> rat" where
  "atof s = f64 (parse_decimal s)"

subsection \<open>Six digits come back\<close>

lemma strip_zeros_snoc [simp]:
  "strip_zeros [] = []" "strip_zeros (s @ [c]) = (if c = digit 0 then strip_zeros s else s @ [c])"
  by (simp_all add: strip_zeros_def)

lemma strip_zeros_value:
  "(of_nat (digits_val (strip_zeros s)) :: rat) / 10 ^ length (strip_zeros s) = of_nat (digits_val s) / 10 ^ length s"
  by (induction s rule: rev_induct) (simp_all add: field_simps)

lemma strip_zeros_digits: "list_all is_digit s \<Longrightarrow> list_all is_digit (strip_zeros s)"
  by (induction s rule: rev_induct) simp_all

lemma takeWhile_digits:
  assumes "list_all is_digit ds" "r = [] \<or> \<not> is_digit (hd r)"
  shows "takeWhile is_digit (ds @ r) = ds" "dropWhile is_digit (ds @ r) = r"
  using assms by (induction ds) (cases r; simp)+

lemma takeWhile_all:
  "\<forall>x\<in>set ds. is_digit x \<Longrightarrow> takeWhile is_digit ds = ds" "\<forall>x\<in>set ds. is_digit x \<Longrightarrow> dropWhile is_digit ds = []"
  by simp_all

lemma not_digits: "\<not> is_digit (CHR ''.'')" "\<not> is_digit (CHR ''e'')" "\<not> is_digit (CHR ''-'')" "\<not> is_digit (CHR ''+'')"
  by (simp_all add: is_digit_def)

lemma digit_head: "is_digit c \<Longrightarrow> \<not> is_space c \<and> c \<noteq> CHR ''-'' \<and> c \<noteq> CHR ''+''"
  by (auto simp: is_digit_def is_space_def)

text \<open>Parsing a number printed with a fraction and an optional exponent.\<close>

lemma parse_printed:
  assumes "list_all is_digit ip" "ip \<noteq> []" "list_all is_digit fp" and ex: "ex = [] \<or> hd ex = CHR ''e''"
  shows "parse_decimal (with_fraction ip fp @ ex) =
    (of_nat (digits_val ip) + of_nat (digits_val fp) / 10 ^ length fp) * 10 powi parse_exponent ex"
proof -
  let ?f = "strip_zeros fp"
  obtain c r where ip: "ip = c # r" "is_digit c" using assms(1,2) by (cases ip) auto
  have start: "take_sign (dropWhile is_space (ip @ xs)) = (False, ip @ xs)" for xs
    using digit_head [OF ip(2)] by (simp add: ip(1) take_sign_def)
  have e: "ex = [] \<or> \<not> is_digit (hd ex)" "ex = [] \<or> hd ex \<noteq> CHR ''.''" using ex not_digits by auto
  have fd: "list_all is_digit ?f" by (rule strip_zeros_digits [OF assms(3)])
  show ?thesis
  proof (cases "?f = []")
    case True
    then have "(0 :: rat) = of_nat (digits_val fp) / 10 ^ length fp" using strip_zeros_value [of fp] by simp
    moreover have "parse_decimal (ip @ ex) = of_nat (digits_val ip) * 10 powi parse_exponent ex"
      using takeWhile_digits [OF assms(1) e(1)] e(2) assms(2) start [of ex] by (cases ex) (simp_all add: parse_decimal_def Let_def takeWhile_all)
    ultimately show ?thesis using True by (simp add: with_fraction_def)
  next
    case False
    have "parse_decimal (ip @ ''.'' @ ?f @ ex) = (of_nat (digits_val ip) + of_nat (digits_val ?f) / 10 ^ length ?f) * 10 powi parse_exponent ex"
      using takeWhile_digits [OF assms(1), of "''.'' @ ?f @ ex"] takeWhile_digits [OF fd e(1)] assms(2) start [of "''.'' @ ?f @ ex"]
      by (simp add: parse_decimal_def not_digits Let_def)
    with False show ?thesis by (simp add: with_fraction_def strip_zeros_value)
  qed
qed

lemma parse_show_exponent:
  assumes "\<bar>e\<bar> < 1000" shows "parse_exponent (show_exponent e) = e"
proof -
  define k where "k = (if \<bar>e\<bar> < 100 then 2 else 3 :: nat)"
  define ds where "ds = pad_digits k (nat \<bar>e\<bar>)"
  have d: "takeWhile is_digit ds = ds" "ds \<noteq> []"
    using takeWhile_digits(1) [OF pad_digits_digits, of "[]"] by (auto simp: ds_def k_def)
  have "nat \<bar>e\<bar> < 10 ^ k" using assms by (auto simp: nat_less_iff k_def)
  then have v: "digits_val ds = nat \<bar>e\<bar>" unfolding ds_def by (rule digits_val_pad)
  have "show_exponent e = ''e'' @ (if e < 0 then ''-'' else ''+'') @ ds"
    by (simp add: show_exponent_def ds_def k_def)
  then show ?thesis using d v by (auto simp: parse_exponent_def take_sign_def takeWhile_all Let_def)
qed

subsection \<open>The decimal exponent\<close>

lemma floorlog_powi:
  assumes "0 < a"
  shows "10 powi (int (floorlog 10 (nat a)) - 1) \<le> (of_int a :: rat)" "(of_int a :: rat) < 10 powi int (floorlog 10 (nat a))"
proof -
  let ?l = "floorlog 10 (nat a)"
  have l: "0 < ?l" using assms by (simp add: floorlog_def)
  have b: "10 ^ (?l - 1) \<le> nat a" "nat a < 10 ^ ?l" using floorlog_bounds [of "nat a" 10] assms by auto
  have "(10 :: rat) ^ (?l - 1) \<le> of_nat (nat a)" "of_nat (nat a) < (10 :: rat) ^ ?l"
    using b by (metis of_nat_le_iff of_nat_numeral of_nat_power, metis of_nat_less_iff of_nat_numeral of_nat_power)
  then show "10 powi (int ?l - 1) \<le> (of_int a :: rat)" "(of_int a :: rat) < 10 powi int ?l"
    using assms l by (simp_all add: power_int_def nat_diff_distrib)
qed

lemma ilog10_bounds:
  assumes "0 < x"
  shows "10 powi ilog10 x \<le> x" "x < 10 powi (ilog10 x + 1)"
proof -
  obtain a b where q: "quotient_of x = (a, b)" by fastforce
  then have x: "x = of_int a / of_int b" and b: "0 < b"
    by (auto intro: quotient_of_div quotient_of_denom_pos)
  with assms have a: "0 < a" by (auto simp: zero_less_divide_iff)
  define la where "la = int (floorlog 10 (nat a))"
  define lb where "lb = int (floorlog 10 (nat b))"
  note A = floorlog_powi [OF a, folded la_def] and B = floorlog_powi [OF b, folded lb_def]
  have "(10::rat) powi (la - lb - 1) * of_int b \<le> 10 powi (la - lb - 1) * 10 powi lb"
    using B(2) by (intro mult_left_mono) auto
  also have "\<dots> = 10 powi (la - 1)" by (simp flip: power_int_add)
  finally have lo: "10 powi (la - lb - 1) \<le> x" using A(1) b by (simp add: x pos_le_divide_eq)
  have "(10::rat) powi la = 10 powi (la - lb + 1) * 10 powi (lb - 1)" by (simp flip: power_int_add)
  also have "\<dots> \<le> 10 powi (la - lb + 1) * of_int b" using B(1) by (intro mult_left_mono) auto
  finally have hi: "x < 10 powi (la - lb + 1)" using A(2) b by (simp add: x pos_divide_less_eq)
  from lo hi show "10 powi ilog10 x \<le> x" "x < 10 powi (ilog10 x + 1)"
    by (auto simp: ilog10_def q Let_def la_def lb_def)
qed

lemma six_digits_range:
  assumes "0 < x" "six_digits x = (m, e)"
  shows "10 ^ 5 \<le> m" "m < 10 ^ 6" "e = ilog10 x \<or> e = ilog10 x + 1"
    "\<bar>of_nat m * 10 powi (e - 5) - x\<bar> \<le> 10 powi (ilog10 x - 5) / 2"
proof -
  define k where "k = ilog10 x"
  define y where "y = x * 10 powi (5 - k)"
  have "10 powi k * 10 powi (5 - k) \<le> y" "y < 10 powi (k + 1) * 10 powi (5 - k)"
    using ilog10_bounds [OF assms(1)] by (simp_all add: y_def k_def)
  then have y: "of_int (10 ^ 5) \<le> y" "y \<le> of_int (10 ^ 6)"
    by (simp_all flip: power_int_add)
  define r where "r = round_even y"
  have r: "10 ^ 5 \<le> r" "r \<le> 10 ^ 6"
    using round_even_mono [OF y(1)] round_even_mono [OF y(2)] unfolding round_even_of_int r_def by auto
  have me: "(m, e) = (if r = 10 ^ 6 then (10 ^ 5, k + 1) else (nat r, k))"
    using assms(2) r unfolding six_digits_def Let_def k_def [symmetric] y_def [symmetric] r_def [symmetric] by (auto split: if_splits)
  then show "10 ^ 5 \<le> m" "m < 10 ^ 6" "e = ilog10 x \<or> e = ilog10 x + 1"
    using r by (auto split: if_splits simp: k_def)
  have val: "of_nat m * 10 powi (e - 5) = (of_int r :: rat) * 10 powi (k - 5)"
    using me r by (auto split: if_splits simp: power_int_add [of _ "k - 5" 1, simplified] power_int_diff power_int_add)
  have "x = y * 10 powi (k - 5)" by (simp add: y_def mult.assoc flip: power_int_add)
  then have "\<bar>of_nat m * 10 powi (e - 5) - x\<bar> = \<bar>of_int r - y\<bar> * 10 powi (k - 5)"
    by (simp add: val abs_mult flip: left_diff_distrib)
  also have "\<dots> \<le> 1 / 2 * 10 powi (k - 5)" unfolding r_def by (intro mult_right_mono round_even_near) auto
  finally show "\<bar>of_nat m * 10 powi (e - 5) - x\<bar> \<le> 10 powi (ilog10 x - 5) / 2" by (simp add: k_def)
qed

subsection \<open>Printing and parsing\<close>

lemma divided_digits:
  "(of_nat (m div 10 ^ n) :: rat) + of_nat (m mod 10 ^ n) / 10 ^ n = of_nat m / 10 ^ n"
proof -
  have "(of_nat m :: rat) = of_nat (m div 10 ^ n * 10 ^ n + m mod 10 ^ n)" by (simp only: div_mult_mod_eq)
  then have "(of_nat m :: rat) = of_nat (m div 10 ^ n) * 10 ^ n + of_nat (m mod 10 ^ n)" by (simp del: div_mult_mod_eq)
  then show ?thesis by (simp add: field_simps)
qed

lemma parse_printed_digits:
  assumes "0 < k" "m < 10 ^ (k + n)" "ex = [] \<or> hd ex = CHR ''e''"
  shows "parse_decimal (with_fraction (pad_digits k (m div 10 ^ n)) (pad_digits n (m mod 10 ^ n)) @ ex) =
    of_nat m / 10 ^ n * 10 powi parse_exponent ex"
proof -
  have "m div 10 ^ n < 10 ^ k" using assms(2) by (simp add: div_less_iff_less_mult power_add)
  then show ?thesis
    using assms by (simp add: parse_printed pad_digits_digits digits_val_pad divided_digits)
qed

lemma parse_show_double:
  assumes "0 < x" "six_digits x = (m, e)" "\<bar>e\<bar> < 1000"
  shows "parse_decimal (show_double x) = of_nat m * 10 powi (e - 5)"
proof -
  note m = six_digits_range(1,2) [OF assms(1,2)]
  have none: "parse_exponent [] = 0" by (simp add: parse_exponent_def)
  have zero: "pad_digits 1 0 = ''0''" by code_simp
  have scale: "(of_nat m :: rat) / 10 ^ nat (5 - e) = of_nat m * 10 powi (e - 5)" if "e < 6"
    using that by (cases "e = 5") (auto simp: power_int_def field_simps)
  consider (a) "- 4 \<le> e" "e < 0" | (b) "0 \<le> e" "e < 6" | (c) "\<not> (- 4 \<le> e \<and> e < 6)" by linarith
  then show ?thesis
  proof cases
    case a
    have "m < 10 ^ nat (5 - e)" using less_le_trans [OF m(2) power_increasing [of 6 "nat (5 - e)"]] a by simp
    then show ?thesis
      using parse_printed_digits [of 1 m "nat (5 - e)" "[]"] assms a scale zero none
      by (simp add: show_double_def)
  next
    case b
    have "nat (e + 1) + nat (5 - e) = 6" using b by linarith
    then show ?thesis
      using parse_printed_digits [of "nat (e + 1)" m "nat (5 - e)" "[]"] m(2) assms b scale none
      by (simp add: show_double_def)
  next
    case c
    have "hd (show_exponent e) = CHR ''e''" by (simp add: show_exponent_def)
    then have "parse_decimal (show_double x) = of_nat m / 10 ^ 5 * 10 powi e"
      using parse_printed_digits [of 1 m 5 "show_exponent e"] m(2) assms c parse_show_exponent [OF assms(3)]
      by (auto simp: show_double_def)
    then show ?thesis by (simp add: power_int_diff)
  qed
qed

end
