(* ===== verification/Profile.thy ===== *)
theory Profile
  imports Decimal Kv_State Thread_Pool
begin

text \<open>
  \<open>mzcache/src/mzcache_profile.cpp\<close>: the chipset classes and their core placements, the text file of the one-time device
  profile, and the two scheduling constants derived from it. The build's compression backend is an argument, as elsewhere. The
  file system is a map from paths to contents; Android system properties are the parameter \<open>props\<close> (the empty string: unset).
  The throughputs are finite doubles, so rationals.

  The lemmas show that a saved profile loads back, its numbers rounded to the six significant digits the stream prints, and that
  the derived split ratio is always a valid one.
\<close>

subsection \<open>Build and chipset\<close>

definition compression_name :: "compression \<Rightarrow> string" where
  "compression_name b = (case b of FLEXGEN \<Rightarrow> ''FLEXGEN'' | FLEXGEN_8BIT \<Rightarrow> ''FLEXGEN_8BIT'' | CACHEGEN \<Rightarrow> ''CACHEGEN'' | NONE \<Rightarrow> ''NONE'')"

definition device_profile_path :: "compression \<Rightarrow> string" where
  "device_profile_path b = ''mzcache_device_profile_'' @ compression_name b @ ''.txt''"

definition profiling_supported :: "compression \<Rightarrow> bool" where
  "profiling_supported b \<longleftrightarrow> b = FLEXGEN \<or> b = FLEXGEN_8BIT \<or> b = CACHEGEN"

definition profile_comp_bytes :: "compression \<Rightarrow> nat \<Rightarrow> nat" where
  "profile_comp_bytes b elems = (if b = FLEXGEN then elems div 2 else elems)"

definition soc_model :: "bool \<Rightarrow> (string \<Rightarrow> string) \<Rightarrow> string" where
  "soc_model android props =
     (if android \<and> props ''ro.soc.model'' \<noteq> [] then props ''ro.soc.model''
      else if android \<and> props ''ro.board.platform'' \<noteq> [] then props ''ro.board.platform''
      else [])"

definition classify_soc :: "string \<Rightarrow> soc_class" where
  "classify_soc m =
     (if take 6 m = ''SM8750'' \<or> m = ''sun'' then SM8750
      else if take 6 m = ''SM8650'' \<or> m = ''pineapple'' then SM8650
      else UNKNOWN)"

definition soc_name :: "soc_class \<Rightarrow> string" where
  "soc_name soc = (case soc of SM8750 \<Rightarrow> ''Snapdragon 8 Elite (SM8750)'' | SM8650 \<Rightarrow> ''Snapdragon 8 Gen 3 (SM8650)'' | UNKNOWN \<Rightarrow> ''unknown SoC'')"

definition default_core_configs :: "compression \<Rightarrow> soc_class \<Rightarrow> CoreType \<Rightarrow> nat list option" where
  "default_core_configs b soc =
     (if b = FLEXGEN \<or> b = FLEXGEN_8BIT then
        if soc = SM8750 then [ALLOC \<mapsto> [0, 1, 2, 3, 4, 5], DECOMP \<mapsto> [6, 7], READ \<mapsto> [0, 1], FREE \<mapsto> [0]]
        else [ALLOC \<mapsto> [5, 7], DECOMP \<mapsto> [3, 4, 6], READ \<mapsto> [2, 3], FREE \<mapsto> [0]]
      else
        if soc = SM8750 then [ALLOC \<mapsto> [4, 5], DECOMP \<mapsto> [0, 1, 2, 3, 6, 7], READ \<mapsto> [4, 5], FREE \<mapsto> [0]]
        else [ALLOC \<mapsto> [5, 7], DECOMP \<mapsto> [3, 4, 6], READ \<mapsto> [2, 3], FREE \<mapsto> [0]])"

subsection \<open>The profile file\<close>

record device_profile =
  dp_compression :: string
  dp_soc :: string
  decomp_gbps :: rat
  kv_read_gbps :: rat
  weight_read_gbps :: rat

definition device_profile0 :: device_profile where
  "device_profile0 = \<lparr>dp_compression = [], dp_soc = [], decomp_gbps = 0, kv_read_gbps = 0, weight_read_gbps = 0\<rparr>"

abbreviation newline :: char where
  "newline \<equiv> CHR 0x0A"

text \<open>The lines \<open>std::getline\<close> yields until it fails: text after the last newline is a line unless it is empty.\<close>

function getlines :: "string \<Rightarrow> string list" where
  "getlines s =
     (if s = [] then []
      else takeWhile (\<lambda>c. c \<noteq> newline) s # getlines (tl (dropWhile (\<lambda>c. c \<noteq> newline) s)))"
  by auto

termination
proof (relation "measure length")
  fix s :: string assume "s \<noteq> []"
  then show "(tl (dropWhile (\<lambda>c. c \<noteq> newline) s), s) \<in> measure length"
    using length_dropWhile_le [of "\<lambda>c. c \<noteq> newline" s] by (cases s) auto
qed simp

declare getlines.simps [simp del]

definition load_line :: "device_profile \<Rightarrow> string \<Rightarrow> device_profile" where
  "load_line out line =
     (if line = [] \<or> hd line = CHR ''#'' \<or> CHR ''='' \<notin> set line then out
      else let key = takeWhile (\<lambda>c. c \<noteq> CHR ''='') line; val = tl (dropWhile (\<lambda>c. c \<noteq> CHR ''='') line) in
        if key = ''compression'' then out\<lparr>dp_compression := val\<rparr>
        else if key = ''soc'' then out\<lparr>dp_soc := val\<rparr>
        else if key = ''decomp_gbps'' then out\<lparr>decomp_gbps := atof val\<rparr>
        else if key = ''kv_read_gbps'' then out\<lparr>kv_read_gbps := atof val\<rparr>
        else if key = ''weight_read_gbps'' then out\<lparr>weight_read_gbps := atof val\<rparr>
        else out)"

definition load_device_profile :: "(string \<Rightarrow> string option) \<Rightarrow> string \<Rightarrow> device_profile \<Rightarrow> bool \<times> device_profile" where
  "load_device_profile files path out =
     (case files path of None \<Rightarrow> (False, out)
      | Some txt \<Rightarrow> let p = foldl load_line out (getlines txt)
          in (0 < decomp_gbps p \<and> 0 < kv_read_gbps p \<and> 0 < weight_read_gbps p, p))"

text \<open>The first comment holds a dash outside ASCII, three bytes in UTF-8.\<close>

definition profile_lines :: "device_profile \<Rightarrow> string list" where
  "profile_lines p =
     [''# mzcache device profile '' @ [CHR 0xE2, CHR 0x80, CHR 0x94] @ '' throughputs under the full swap-in emulation'',
      ''# (see examples/mz_device_profile). Delete this file to force re-profiling.'',
      ''version=1'',
      ''compression='' @ dp_compression p,
      ''soc='' @ dp_soc p,
      ''decomp_gbps='' @ show_double (decomp_gbps p),
      ''kv_read_gbps='' @ show_double (kv_read_gbps p),
      ''weight_read_gbps='' @ show_double (weight_read_gbps p)]"

definition profile_text :: "device_profile \<Rightarrow> string" where
  "profile_text p = concat (map (\<lambda>l. l @ [newline]) (profile_lines p))"

text \<open>\<open>opens\<close>: whether the stream opens. Later write errors go unnoticed in the source and are not modelled.\<close>

definition save_device_profile ::
  "bool \<Rightarrow> string \<Rightarrow> device_profile \<Rightarrow> (string \<Rightarrow> string option) \<Rightarrow> bool \<times> (string \<Rightarrow> string option)" where
  "save_device_profile opens path p files = (if opens then (True, files(path \<mapsto> profile_text p)) else (False, files))"

subsection \<open>The scheduling constants\<close>

definition derive_per_layer_balance :: "device_profile \<Rightarrow> int \<Rightarrow> int \<Rightarrow> int" where
  "derive_per_layer_balance p wl hidden =
     (let chunk = f64 (f64 (f64 (256 * f64 (of_int hidden)) * 2) * 2);
          d_chunks = f64 (f64 (decomp_gbps p * 1000000000) / chunk);
          layer_s = f64 (f64 (of_int wl) / f64 (weight_read_gbps p * 1000000000))
      in sint (word_of_int (round_away (f64 (layer_s * d_chunks))) :: 32 word))"

definition derive_decomp_load_ratio :: "device_profile \<Rightarrow> rat" where
  "derive_decomp_load_ratio p = f32 (f64 (decomp_gbps p / f64 (decomp_gbps p + kv_read_gbps p)))"

lemma f64_mono: "x \<le> y \<Longrightarrow> f64 x \<le> f64 y"
  by (rule fl_mono) simp_all

lemma f64_one [simp]: "f64 1 = 1"
  using fl_of_int [of 1 53 "- 1022"] by simp

lemma f32_one [simp]: "f32 1 = 1"
  using f32_of_int [of 1] by simp

lemma decomp_load_ratio_range:
  assumes "0 < decomp_gbps p" "0 < kv_read_gbps p" "f64 (decomp_gbps p) = decomp_gbps p"
  shows "0 \<le> derive_decomp_load_ratio p" "derive_decomp_load_ratio p \<le> 1"
proof -
  let ?d = "decomp_gbps p" and ?t = "f64 (decomp_gbps p + kv_read_gbps p)"
  have t: "?d \<le> ?t" using f64_mono [of ?d "?d + kv_read_gbps p"] assms by simp
  then have q: "0 \<le> ?d / ?t" "?d / ?t \<le> 1" using assms by simp_all
  show "0 \<le> derive_decomp_load_ratio p" unfolding derive_decomp_load_ratio_def by (intro fl_nonneg q)
  show "derive_decomp_load_ratio p \<le> 1"
    unfolding derive_decomp_load_ratio_def using f32_mono [OF f64_mono [OF q(2)]] by simp
qed

subsection \<open>Saving and loading\<close>

lemma getlines_Nil [simp]: "getlines [] = []"
  by (simp add: getlines.simps)

lemma getlines_line [simp]: "newline \<notin> set l \<Longrightarrow> getlines (l @ newline # r) = l # getlines r"
proof -
  assume "newline \<notin> set l"
  then have "takeWhile (\<lambda>c. c \<noteq> newline) (l @ newline # r) = l" "dropWhile (\<lambda>c. c \<noteq> newline) (l @ newline # r) = newline # r"
    by (induction l) auto
  then show ?thesis by (subst getlines.simps) simp
qed

lemma getlines_concat: "\<forall>l\<in>set ls. newline \<notin> set l \<Longrightarrow> getlines (concat (map (\<lambda>l. l @ [newline]) ls)) = ls"
  by (induction ls) simp_all

lemma strip_zeros_subset: "set (strip_zeros s) \<subseteq> set s"
  by (induction s rule: rev_induct) auto

lemma newline_not_digit: "\<not> is_digit newline"
  by (simp add: is_digit_def)

lemma newline_digit [simp]: "newline \<noteq> digit (n mod 10)" "digit (n mod 10) \<noteq> newline"
  using newline_not_digit digit_simps(2) [of "n mod 10"] by (metis mod_less_divisor zero_less_numeral)+

lemma newline_pad [simp]: "newline \<notin> set (pad_digits k n)"
  using pad_digits_digits [of k n] newline_not_digit by (auto simp: list_all_iff)

lemma newline_fraction [simp]: "newline \<notin> set ip \<Longrightarrow> newline \<notin> set fp \<Longrightarrow> newline \<notin> set (with_fraction ip fp)"
  using strip_zeros_subset [of fp] by (auto simp: with_fraction_def Let_def)

lemma newline_show [simp]: "newline \<notin> set (show_double x)"
  by (auto simp: show_double_def show_exponent_def split: prod.splits)

text \<open>A line \<open>key=value\<close> whose key holds no equals sign.\<close>

lemma key_value:
  assumes "CHR ''='' \<notin> set k"
  shows "takeWhile (\<lambda>c. c \<noteq> CHR ''='') (k @ CHR ''='' # v) = k" "dropWhile (\<lambda>c. c \<noteq> CHR ''='') (k @ CHR ''='' # v) = CHR ''='' # v"
  using assms by (induction k) auto

text \<open>The value the stream prints: the nearest number of six significant digits.\<close>

definition six_sig :: "rat \<Rightarrow> rat" where
  "six_sig x = (let (m, e) = six_digits x in of_nat m * 10 powi (e - 5))"

definition profile_number :: "rat \<Rightarrow> bool" where
  "profile_number x \<longleftrightarrow> 10 powi (- 300) \<le> x \<and> x \<le> 10 powi 300"

lemma ilog10_range:
  assumes "0 < x" "10 powi a \<le> x" "x \<le> 10 powi b" shows "a \<le> ilog10 x" "ilog10 x \<le> b"
proof -
  note b = ilog10_bounds [OF assms(1)]
  have "(10 :: rat) powi a < 10 powi (ilog10 x + 1)" using assms(2) b(2) by simp
  then have "a < ilog10 x + 1" by (rule contrapos_pp) (simp add: power_int_increasing not_less)
  then show "a \<le> ilog10 x" by simp
  have "(10 :: rat) powi ilog10 x \<le> 10 powi b" using b(1) assms(3) by simp
  then show "ilog10 x \<le> b" by (rule contrapos_pp) (simp add: power_int_strict_increasing not_le)
qed

lemma profile_number_pos: "profile_number x \<Longrightarrow> 0 < x"
  unfolding profile_number_def by (meson less_le_trans zero_less_numeral zero_less_power_int)

lemma six_sig_near:
  assumes "0 < x" shows "\<bar>six_sig x - x\<bar> \<le> x / 200000"
proof -
  obtain m e where me: "six_digits x = (m, e)" by fastforce
  have "\<bar>six_sig x - x\<bar> \<le> 10 powi (ilog10 x - 5) / 2"
    using six_digits_range(4) [OF assms me] by (simp add: six_sig_def me)
  also have "\<dots> = 10 powi ilog10 x / 200000" by (simp add: power_int_diff)
  also have "\<dots> \<le> x / 200000" using ilog10_bounds(1) [OF assms] by (simp add: divide_right_mono)
  finally show ?thesis .
qed

lemma atof_show_double:
  assumes "profile_number x" shows "atof (show_double x) = f64 (six_sig x)"
proof -
  note x = profile_number_pos [OF assms]
  obtain m e where me: "six_digits x = (m, e)" by fastforce
  have "- 300 \<le> ilog10 x" "ilog10 x \<le> 300" using ilog10_range [OF x, of "- 300" 300] assms unfolding profile_number_def by blast+
  then have "\<bar>e\<bar> < 1000" using six_digits_range(3) [OF x me] by auto
  then show ?thesis using parse_show_double [OF x me] by (simp add: atof_def six_sig_def me)
qed

lemma six_sig_normal:
  assumes "profile_number x" shows "2 powi (- 1022) \<le> six_sig x"
proof -
  have "(2 :: rat) powi (- 1022) \<le> 10 powi (- 300) / 2" by (simp add: power_int_minus)
  also have "\<dots> \<le> x / 2" using assms by (simp add: profile_number_def)
  also have "\<dots> \<le> six_sig x" using six_sig_near [OF profile_number_pos [OF assms]] profile_number_pos [OF assms] by linarith
  finally show ?thesis .
qed

text \<open>What comes back is within a hundred-thousandth of what was measured, and not subnormal.\<close>

lemma stored_number:
  assumes "profile_number x"
  shows "\<bar>f64 (six_sig x) - x\<bar> \<le> x / 100000" "2 powi (- 1022) \<le> f64 (six_sig x)" "0 < f64 (six_sig x)"
proof -
  note x = profile_number_pos [OF assms] and n = six_sig_normal [OF assms]
  note s = six_sig_near [OF x]
  have "\<bar>f64 (six_sig x) - six_sig x\<bar> \<le> six_sig x / 2 ^ 53" by (rule fl_near [OF _ n]) simp
  moreover have "six_sig x \<le> 2 * x" using s x by linarith
  then have "six_sig x / 2 ^ 53 \<le> x / 200000" using x by (simp add: field_simps)
  ultimately show "\<bar>f64 (six_sig x) - x\<bar> \<le> x / 100000" using s by linarith
  have "f64 (2 powi (- 1022)) = 2 powi (- 1022)" using fl_exact [of 1 53 "- 1022" "- 1022"] by simp
  with f64_mono [OF n] show m: "2 powi (- 1022) \<le> f64 (six_sig x)" by simp
  show "0 < f64 (six_sig x)" by (rule less_le_trans [OF _ m]) simp
qed

lemmas six_sig_pos = stored_number(3)

definition stored_profile :: "device_profile \<Rightarrow> device_profile" where
  "stored_profile p =
     p\<lparr>decomp_gbps := f64 (six_sig (decomp_gbps p)), kv_read_gbps := f64 (six_sig (kv_read_gbps p)),
       weight_read_gbps := f64 (six_sig (weight_read_gbps p))\<rparr>"

definition profile_ok :: "device_profile \<Rightarrow> bool" where
  "profile_ok p \<longleftrightarrow> newline \<notin> set (dp_compression p) \<and> newline \<notin> set (dp_soc p) \<and>
     profile_number (decomp_gbps p) \<and> profile_number (kv_read_gbps p) \<and> profile_number (weight_read_gbps p)"

lemma load_profile_lines:
  assumes "profile_ok p"
  shows "foldl load_line out (profile_lines p) = stored_profile p"
  using assms by (simp add: profile_lines_def load_line_def profile_ok_def stored_profile_def atof_show_double)

lemma load_saved:
  assumes "profile_ok p" "files path = Some (profile_text p)"
  shows "load_device_profile files path out = (True, stored_profile p)"
proof -
  have "getlines (profile_text p) = profile_lines p"
    unfolding profile_text_def using assms(1) by (intro getlines_concat) (simp add: profile_lines_def profile_ok_def)
  then show ?thesis using assms six_sig_pos
    by (simp add: load_device_profile_def load_profile_lines) (simp add: stored_profile_def profile_ok_def)
qed

text \<open>Whatever a file contains, a profile that loads has positive throughputs and gives a ratio between 0 and 1.\<close>

lemma loaded_positive:
  assumes "load_device_profile fs path out = (True, p)"
  shows "0 < decomp_gbps p \<and> 0 < kv_read_gbps p \<and> 0 < weight_read_gbps p"
  using assms by (auto simp: load_device_profile_def Let_def split: option.splits)

lemma load_line_f64:
  "f64 (decomp_gbps q) = decomp_gbps q \<Longrightarrow> f64 (decomp_gbps (foldl load_line q ls)) = decomp_gbps (foldl load_line q ls)"
  by (induction ls arbitrary: q) (simp_all add: load_line_def Let_def atof_def)

lemma loaded_ratio:
  assumes "load_device_profile fs path device_profile0 = (True, p)"
  shows "0 \<le> derive_decomp_load_ratio p \<and> derive_decomp_load_ratio p \<le> 1"
proof -
  obtain ls where p: "p = foldl load_line device_profile0 ls"
    using assms by (auto simp: load_device_profile_def Let_def split: option.splits)
  have "f64 (decomp_gbps p) = decomp_gbps p" unfolding p by (rule load_line_f64) (simp add: device_profile0_def)
  with decomp_load_ratio_range loaded_positive [OF assms] show ?thesis by blast
qed

text \<open>Unless decompression outruns reading by more than a factor of 400, the derived ratio stays clear of 1.\<close>

lemma stored_ratio:
  assumes "profile_ok p" "decomp_gbps p \<le> 400 * kv_read_gbps p"
  shows "0 \<le> derive_decomp_load_ratio (stored_profile p)" "derive_decomp_load_ratio (stored_profile p) \<le> 511 / 512"
proof -
  define d where "d = f64 (six_sig (decomp_gbps p))"
  define r where "r = f64 (six_sig (kv_read_gbps p))"
  have pn: "profile_number (decomp_gbps p)" "profile_number (kv_read_gbps p)" using assms(1) by (simp_all add: profile_ok_def)
  note D = stored_number [OF pn(1), folded d_def] and R = stored_number [OF pn(2), folded r_def]
  have dr: "d \<le> 401 * r"
    using D(1) R(1) assms(2) profile_number_pos [OF pn(1)] profile_number_pos [OF pn(2)] by linarith
  have "2 powi (- 1022) \<le> d + r" using D(2) R(3) by linarith
  then have "\<bar>f64 (d + r) - (d + r)\<bar> \<le> (d + r) / 2 ^ 53" by (intro fl_near) simp_all
  then have t: "(d + r) - (d + r) / 2 ^ 53 \<le> f64 (d + r)" by linarith
  have "512 * d \<le> 511 * ((d + r) - (d + r) / 2 ^ 53)" using dr D(3) by (simp add: field_simps)
  also have "\<dots> \<le> 511 * f64 (d + r)" using t by (intro mult_left_mono) simp_all
  finally have le: "512 * d \<le> 511 * f64 (d + r)" .
  then have "0 < f64 (d + r)" using D(3) by linarith
  then have q: "d / f64 (d + r) \<le> of_int 511 * 2 powi (- 9)" "0 \<le> d / f64 (d + r)"
    using le D(3) by (simp_all add: field_simps power_int_minus)
  have e: "f64 (of_int 511 * 2 powi (- 9)) = of_int 511 * 2 powi (- 9)" "f32 (of_int 511 * 2 powi (- 9)) = of_int 511 * 2 powi (- 9)"
    by (rule fl_exact; simp)+
  have *: "derive_decomp_load_ratio (stored_profile p) = f32 (f64 (d / f64 (d + r)))"
    by (simp add: derive_decomp_load_ratio_def stored_profile_def d_def r_def)
  show "0 \<le> derive_decomp_load_ratio (stored_profile p)" unfolding * by (intro fl_nonneg q)
  have "f32 (f64 (d / f64 (d + r))) \<le> of_int 511 * 2 powi (- 9)"
    using f32_mono [OF f64_mono [OF q(1)]] unfolding e .
  then show "derive_decomp_load_ratio (stored_profile p) \<le> 511 / 512" unfolding * by (simp add: power_int_minus)
qed

end
