(* ===== verification/Core_Init.thy ===== *)
theory Core_Init
  imports Profile Engine Kv_Init
begin

text \<open>
  The life cycle of \<open>class mzcache_core\<close>: construction behind the device profile gate, exchange of the thread pool and destruction
  (\<open>mzcache/src/mzcache_core.cpp\<close>). The process the engine starts in - platform, system properties, files of the working
  directory, environment variables - is the record \<open>process\<close>. What the constructor prints is not modelled.
\<close>

record process =
  on_android :: bool
  properties :: "string \<Rightarrow> string"
  files :: "string \<Rightarrow> string option"
  getenv :: "string \<Rightarrow> string option"

record 'm engine =
  eng_cfg :: config
  eng_soc :: soc_class
  eng_model_name :: string
  core_configs :: "CoreType \<Rightarrow> nat list option"
  eng_core :: "'m core"

subsection \<open>Construction\<close>

text \<open>The profile gate and the ratio it yields; without profiler support the ratio is a constant of the chipset.\<close>

definition profile_gate :: "compression \<Rightarrow> soc_class \<Rightarrow> process \<Rightarrow> (device_profile option \<times> rat) result" where
  "profile_gate b soc pr =
     (if profiling_supported b then
        let (ok, p) = load_device_profile (files pr) (device_profile_path b) device_profile0 in
        if \<not> ok then Err (RuntimeError ''mzcache: device profile missing - run mz_device_profile first'')
        else if dp_compression p \<noteq> compression_name b then Err (RuntimeError ''mzcache: device profile compression mismatch'')
        else Ok (Some p, derive_decomp_load_ratio p)
      else Ok (None, if soc = SM8750 then f32 (16 / 100) else 0))"

text \<open>\<open>MZCACHE_DECOMP_LOAD_RATIO\<close> counts only when it parses to a number in \<open>(0, 1]\<close>.\<close>

definition override_ratio :: "string option \<Rightarrow> rat \<Rightarrow> rat" where
  "override_ratio e r =
     (case e of None \<Rightarrow> r
      | Some s \<Rightarrow> let v = f32 (atof s) in if 0 < v \<and> v \<le> 1 then v else r)"

definition sanitize_model_name :: "string \<Rightarrow> string" where
  "sanitize_model_name = map (\<lambda>c. if c = CHR '' '' then CHR ''_'' else c)"

definition model_layer_bytes :: "string \<Rightarrow> int" where
  "model_layer_bytes name =
     (if name = ''EXAONE-4.0-1.2B'' then 71323648 else if name = ''Qwen3-0.6B'' then 31469568 else 0)"

text \<open>The sum mixes \<open>int64_t\<close> and \<open>size_t\<close>, so it is taken modulo \<open>2 ^ 64\<close>.\<close>

definition init_full_bytes :: "int \<Rightarrow> int \<Rightarrow> nat \<Rightarrow> int \<Rightarrow> int" where
  "init_full_bytes wl L h N = sint (word_of_int (wl * L + 256 * int h * 2 * 2 * N * L) :: 64 word)"

definition profiled_balance :: "device_profile option \<Rightarrow> int \<Rightarrow> nat \<Rightarrow> int" where
  "profiled_balance prof wl h =
     (case prof of None \<Rightarrow> - 1 | Some p \<Rightarrow> if wl > 0 then derive_per_layer_balance p wl (int h) else - 1)"

text \<open>\<open>atoi\<close> of the C library, for values an \<open>int\<close> holds.\<close>

definition atoi :: "string \<Rightarrow> int" where
  "atoi s = (let (neg, r) = take_sign (dropWhile is_space s); v = int (digits_val (takeWhile is_digit r)) in if neg then - v else v)"

text \<open>The balance the KV state ends up with. \<open>junk\<close> is the value of the member when no branch assigns it.\<close>

definition init_balance :: "compression \<Rightarrow> string \<Rightarrow> soc_class \<Rightarrow> int \<Rightarrow> process \<Rightarrow> int \<Rightarrow> int" where
  "init_balance b name soc profiled pr junk =
     (case select_balance b name soc profiled (map_option atoi (getenv pr ''MZCACHE_PER_LAYER_BALANCE'')) of
        None \<Rightarrow> junk | Some v \<Rightarrow> v)"

text \<open>
  \<open>s0\<close> carries the pointer table and memory of the KV cache, \<open>n_layer\<close>, \<open>bufs\<close> and \<open>dumps\<close> describe the model: its number
  of layers, their device buffers and their dumps on disk.
\<close>

definition mzcache_core ::
  "compression \<Rightarrow> bool \<Rightarrow> process \<Rightarrow> int \<Rightarrow> nat \<Rightarrow> int \<Rightarrow> string \<Rightarrow> int \<Rightarrow> (int \<Rightarrow> bytes option) \<Rightarrow> (int \<Rightarrow> bytes option)
     \<Rightarrow> int \<Rightarrow> 'm kv_state \<Rightarrow> 'm engine result" where
  "mzcache_core b contract pr L h N name n_layer bufs dumps junk s0 =
     (let soc = classify_soc (soc_model (on_android pr) (properties pr));
          configs = default_core_configs b soc
      in bind_result (profile_gate b soc pr) (\<lambda>(prof, r).
        let ratio = override_ratio (getenv pr ''MZCACHE_DECOMP_LOAD_RATIO'') r;
            cfg = \<lparr>backend = b, decomp_load_ratio = ratio, fp_contract = contract\<rparr>;
            model_name = sanitize_model_name name;
            wl = model_layer_bytes model_name;
            balance = init_balance b model_name soc (profiled_balance prof wl h) pr junk
        in bind_result (mzcache_kv_state cfg L h N balance s0) (\<lambda>s.
          Ok \<lparr>eng_cfg = cfg, eng_soc = soc, eng_model_name = model_name, core_configs = configs,
              eng_core =
                \<lparr>core_num_layers = L, core_num_chunks = N, decomp_num_chunks = 0, load_num_chunks = 0,
                 weight_layer_bytes = wl, full_bytes = init_full_bytes wl L h N,
                 kv = s, wt = mzcache_weight n_layer bufs dumps, syncs = [],
                 kv_alloc_done = (\<lambda>_. None), weight_alloc_done = (\<lambda>_. None), pool_of = ThreadPool configs\<rparr>\<rparr>)))"

subsection \<open>Exchange of the thread pool and destruction\<close>

text \<open>\<open>None\<close>: the call blocks until the workers are idle.\<close>

definition reconfigure_thread_pool :: "(CoreType \<Rightarrow> nat list option) \<Rightarrow> 'm engine \<Rightarrow> 'm engine option" where
  "reconfigure_thread_pool new_cfg e =
     (if wait_idle_all (pool_of (eng_core e)) then
        Some (e\<lparr>eng_core := (eng_core e)\<lparr>pool_of := ThreadPool new_cfg\<rparr>, core_configs := new_cfg\<rparr>)
      else None)"

definition mzcache_core_dtor :: "'m engine \<Rightarrow> unit option" where
  "mzcache_core_dtor e = (if wait_idle_all (pool_of (eng_core e)) then Some () else None)"

subsection \<open>A new pool is ready for work\<close>

lemma fresh_pool:
  assumes "\<forall>ty\<in>{ALLOC, READ, DECOMP, FREE}. \<exists>c cs. cfg ty = Some (c # cs)"
  shows "pool_good (ThreadPool cfg)" "pool_pending (ThreadPool cfg :: task pool) = {#}"
proof -
  have "routed (ThreadPool cfg)" by (auto simp: ThreadPool_def routed_def group_routed_def split: option.splits)
  moreover have "\<exists>g. groups (ThreadPool cfg) ty = Some g \<and> 0 < workers g" if ty: "ty \<in> {ALLOC, READ, DECOMP, FREE}" for ty
  proof -
    obtain c cs where "cfg ty = Some (c # cs)" using assms ty by blast
    then show ?thesis by (simp add: ThreadPool_def)
  qed
  moreover have "\<not> stop (ThreadPool cfg)" by (simp add: ThreadPool_def)
  ultimately show "pool_good (ThreadPool cfg)" unfolding pool_good_def by blast
  show "pool_pending (ThreadPool cfg :: task pool) = {#}"
    by (auto simp: ThreadPool_def pool_pending_def pending_of_def group_pending_def split: option.splits)
qed

lemma default_configs_good: "\<forall>ty\<in>{ALLOC, READ, DECOMP, FREE}. \<exists>c cs. default_core_configs b soc ty = Some (c # cs)"
  by (simp add: default_core_configs_def)

subsection \<open>The constants are usable\<close>

lemma override_ratio_ok:
  assumes "ratio_ok r" "\<forall>s. e = Some s \<longrightarrow> f32 (atof s) \<le> 1 - 1 / 1024 \<or> 1 \<le> f32 (atof s)"
  shows "ratio_ok (override_ratio e r)"
  using assms by (auto simp: override_ratio_def Let_def ratio_ok_def split: option.splits)

definition known_model :: "string \<Rightarrow> bool" where
  "known_model name \<longleftrightarrow> name = ''EXAONE-4.0-1.2B'' \<or> name = ''Qwen3-0.6B''"

lemma init_balance_pos:
  assumes "b = FLEXGEN \<or> b = FLEXGEN_8BIT" "known_model name"
  shows "0 < init_balance b name soc profiled pr junk"
  using assms
  by (auto simp: init_balance_def select_balance_def legacy_balance_def known_model_def Let_def split: option.splits compression.splits if_splits)

text \<open>A process in which the profiler has left its profile.\<close>

definition profiled_process :: "compression \<Rightarrow> device_profile \<Rightarrow> process \<Rightarrow> bool" where
  "profiled_process b p pr \<longleftrightarrow> files pr (device_profile_path b) = Some (profile_text p) \<and> profile_ok p \<and>
     dp_compression p = compression_name b \<and> decomp_gbps p \<le> 400 * kv_read_gbps p"

lemma profile_gate_ok:
  assumes "profiled_process b p pr" "profiling_supported b"
  shows "profile_gate b soc pr = Ok (Some (stored_profile p), derive_decomp_load_ratio (stored_profile p))"
    "ratio_ok (derive_decomp_load_ratio (stored_profile p))"
proof -
  have p: "profile_ok p" "dp_compression (stored_profile p) = compression_name b" "decomp_gbps p \<le> 400 * kv_read_gbps p"
    using assms(1) by (simp_all add: profiled_process_def stored_profile_def)
  have "load_device_profile (files pr) (device_profile_path b) device_profile0 = (True, stored_profile p)"
    by (rule load_saved) (use assms(1) in \<open>simp_all add: profiled_process_def\<close>)
  then show "profile_gate b soc pr = Ok (Some (stored_profile p), derive_decomp_load_ratio (stored_profile p))"
    using p(2) assms(2) by (simp add: profile_gate_def)
  show "ratio_ok (derive_decomp_load_ratio (stored_profile p))" using stored_ratio [OF p(1,3)] by (simp add: ratio_ok_def)
qed

definition ratio_env_ok :: "process \<Rightarrow> bool" where
  "ratio_env_ok pr \<longleftrightarrow> (case getenv pr ''MZCACHE_DECOMP_LOAD_RATIO'' of None \<Rightarrow> True
     | Some s \<Rightarrow> f32 (atof s) \<le> 1 - 1 / 1024 \<or> 1 \<le> f32 (atof s))"

definition model_loaded :: "(int \<Rightarrow> bytes) \<Rightarrow> int \<Rightarrow> (int \<Rightarrow> bytes option) \<Rightarrow> (int \<Rightarrow> bytes option) \<Rightarrow> bool" where
  "model_loaded orig L bufs dumps \<longleftrightarrow> dumps (- 1) = None \<and>
     (\<forall>i. 0 \<le> i \<and> i < L \<longrightarrow> bufs i = Some (orig i) \<and> (dumps i = None \<or> dumps i = Some (orig i)))"

lemma init_weight_inv:
  assumes "model_loaded orig L bufs dumps" "0 < L" shows "weight_inv orig (mzcache_weight L bufs dumps)"
  using assms by (auto simp: weight_inv_def mzcache_weight_def model_loaded_def)

lemma core_constructed:
  assumes b: "b = FLEXGEN \<or> b = FLEXGEN_8BIT" and pr: "profiled_process b p pr" "ratio_env_ok pr"
    and name: "known_model (sanitize_model_name name)"
    and ext: "0 < L" "L \<le> MAX_NUM_LAYERS" "0 < N" "N \<le> MAX_CHUNKS_PER_TENSOR"
    and tb: "table_ok L h N s0" and wt: "model_loaded orig L bufs dumps"
  obtains e where "mzcache_core b contract pr L h N name L bufs dumps junk s0 = Ok e"
    "engine_ok cd orig (eng_cfg e) (eng_core e)" "backend (eng_cfg e) = b" "kv_hidden_dim (kv (eng_core e)) = h"
    "num_layers (kv (eng_core e)) = L" "num_chunks_per_tensor (kv (eng_core e)) = N"
    "\<And>i j. 0 \<le> i \<and> i < L \<and> 0 \<le> j \<and> j < N \<Longrightarrow> chunk_view cd (kv (eng_core e)) i j = table_view s0 i j"
proof -
  define soc where "soc = classify_soc (soc_model (on_android pr) (properties pr))"
  have "profiling_supported b" using b by (auto simp: profiling_supported_def)
  note g = profile_gate_ok [OF pr(1) this]
  define cfg where "cfg = \<lparr>backend = b, decomp_load_ratio =
      override_ratio (getenv pr ''MZCACHE_DECOMP_LOAD_RATIO'') (derive_decomp_load_ratio (stored_profile p)), fp_contract = contract\<rparr>"
  define bal where "bal = init_balance b (sanitize_model_name name) soc
      (profiled_balance (Some (stored_profile p)) (model_layer_bytes (sanitize_model_name name)) h) pr junk"
  have bal: "0 \<le> bal" using init_balance_pos [OF b name] by (simp add: bal_def less_imp_le)
  have r: "ratio_ok (decomp_load_ratio cfg)"
    using override_ratio_ok [OF g(2)] pr(2) by (auto simp: cfg_def ratio_env_ok_def split: option.splits)
  obtain s where s: "mzcache_kv_state cfg L h N bal s0 = Ok s" "kv_inv cd s" "comp_taken s = []" "store_taken s = []"
    "num_layers s = L" "kv_hidden_dim s = h" "num_chunks_per_tensor s = N" "per_layer_balance s = bal"
    "\<And>l. layer_fds s l = Closed" "arena_room cfg s"
    "\<And>i j. chunk_ix s i j \<Longrightarrow> chunk_view cd s i j = table_view s0 i j" "reserve s" "pending_chunks_total s = 0"
    by (rule constructed_inv [OF r bal ext tb, of cd]) blast
  define e where "e = projr (mzcache_core b contract pr L h N name L bufs dumps junk s0)"
  have e: "mzcache_core b contract pr L h N name L bufs dumps junk s0 = Ok e" "kv (eng_core e) = s" "eng_cfg e = cfg"
    "core_num_layers (eng_core e) = L" "core_num_chunks (eng_core e) = N" "wt (eng_core e) = mzcache_weight L bufs dumps"
    "pool_of (eng_core e) = ThreadPool (default_core_configs b soc)"
    unfolding e_def mzcache_core_def soc_def [symmetric] using g(1) s(1) by (simp_all add: Let_def cfg_def bal_def)
  note p = fresh_pool [OF default_configs_good [of b soc]]
  have "core_idle cd orig (eng_core e)"
    using s(2,5,9) init_weight_inv [OF wt ext(1)] p by (simp add: core_idle_def e mzcache_weight_def)
  then have "engine_ok cd orig (eng_cfg e) (eng_core e)"
    by (rule engine_fresh) (use s bal r ext in \<open>simp_all add: e mzcache_weight_def\<close>)
  moreover have "chunk_view cd (kv (eng_core e)) i j = table_view s0 i j" if "0 \<le> i \<and> i < L \<and> 0 \<le> j \<and> j < N" for i j
    using s(11) [of i j] that by (simp add: e chunk_ix_def s)
  moreover have "backend (eng_cfg e) = b" unfolding e(3) by (simp add: cfg_def)
  ultimately show thesis using that [OF e(1)] s(5-7) by (simp add: e)
qed

subsection \<open>Exchanging the pool between cycles\<close>

lemma engine_ok_pool:
  assumes "engine_ok cd orig cfg st" "pool_good p" "pool_pending p = {#}"
  shows "engine_ok cd orig cfg (st\<lparr>pool_of := p\<rparr>)"
proof -
  have "ladder_ok (st\<lparr>pool_of := p\<rparr>) = ladder_ok st" by (simp add: ladder_ok_def total_chunks_def processed_chunks_def)
  with assms show ?thesis by (simp add: engine_ok_def so_inv_def core_idle_def)
qed

lemma reconfigure_ok:
  assumes "engine_ok cd orig cfg (eng_core e)" "\<forall>ty\<in>{ALLOC, READ, DECOMP, FREE}. \<exists>c cs. new_cfg ty = Some (c # cs)"
  obtains e' where "reconfigure_thread_pool new_cfg e = Some e'" "engine_ok cd orig cfg (eng_core e')"
    "kv (eng_core e') = kv (eng_core e)" "wt (eng_core e') = wt (eng_core e)" "core_configs e' = new_cfg"
proof -
  have "pool_pending (pool_of (eng_core e)) = {#}" using assms(1) by (simp add: engine_ok_def core_idle_def)
  then have "wait_idle_all (pool_of (eng_core e))" by (simp add: wait_idle_all_iff)
  with that [of "e\<lparr>eng_core := (eng_core e)\<lparr>pool_of := ThreadPool new_cfg\<rparr>, core_configs := new_cfg\<rparr>"]
    engine_ok_pool [OF assms(1) fresh_pool [OF assms(2)]]
  show thesis by (simp add: reconfigure_thread_pool_def)
qed

end
