(* ===== verification/Decode_Chunks.thy ===== *)
theory Decode_Chunks
  imports Slices
begin

text \<open>
  \<open>mzcache::decode_chunk_aligned\<close> of \<open>mzcache/src/mzcache_core.cpp\<close>: a batch is decoded in pieces that end before every position
  that begins a chunk of 256 tokens. An array of the batch is the list from its pointer on (\<open>None\<close>: a null pointer); the
  context and its \<open>decode\<close> are parameters. The reference is the list of pieces the loop decodes, and a run over it that
  stops at the first failure.
\<close>

record llama_batch =
  n_tokens :: int
  token :: "int list option"
  embd :: "bytes option"
  pos :: "int list option"
  n_seq_id :: "int list option"
  seq_id :: "int list list option"
  logits :: "int list option"

text \<open>The inner loop; reading a position beyond the array is undefined.\<close>

function next_chunk_start :: "int list \<Rightarrow> nat \<Rightarrow> nat \<Rightarrow> nat result" where
  "next_chunk_start ps n k =
     (if k < n then
        if k < length ps then if ps ! k mod 256 \<noteq> 0 then next_chunk_start ps n (k + 1) else Ok k
        else Err OutOfBounds
      else Ok k)"
  by auto

termination by (relation "measure (\<lambda>(ps, n, k). n - k)") auto

declare next_chunk_start.simps [simp del]

definition sub_batch :: "llama_batch \<Rightarrow> nat \<Rightarrow> nat \<Rightarrow> llama_batch" where
  "sub_batch b start fin =
     b\<lparr>n_tokens := int fin - int start, token := map_option (drop start) (token b), pos := map_option (drop start) (pos b),
       n_seq_id := map_option (drop start) (n_seq_id b), seq_id := map_option (drop start) (seq_id b),
       logits := map_option (drop start) (logits b)\<rparr>"

lemma next_chunk_start_ge: "next_chunk_start ps n k = Ok m \<Longrightarrow> k \<le> m"
  by (induction ps n k rule: next_chunk_start.induct) (subst (asm) (2) next_chunk_start.simps, auto split: if_splits)

text \<open>The outer loop from token \<open>start\<close> on, \<open>n\<close> the number of tokens.\<close>

function decode_loop ::
  "('c \<Rightarrow> llama_batch \<Rightarrow> int \<times> 'c) \<Rightarrow> llama_batch \<Rightarrow> int list \<Rightarrow> nat \<Rightarrow> nat \<Rightarrow> 'c \<Rightarrow> (int \<times> 'c) result" where
  "decode_loop dec b ps n start ctx =
     (if start < n then
        case next_chunk_start ps n (start + 1) of Inl e \<Rightarrow> Inl e
        | Inr fin \<Rightarrow>
            (case dec ctx (sub_batch b start fin) of
               (ret, ctx') \<Rightarrow> if ret \<noteq> 0 then Ok (ret, ctx') else decode_loop dec b ps n fin ctx')
      else Ok (0, ctx))"
  by pat_completeness auto

termination
  by (relation "measure (\<lambda>(dec, b, ps, n, start, ctx). n - start)") (auto dest!: next_chunk_start_ge)

declare decode_loop.simps [simp del]

definition decode_chunk_aligned :: "('c \<Rightarrow> llama_batch \<Rightarrow> int \<times> 'c) \<Rightarrow> 'c \<Rightarrow> llama_batch \<Rightarrow> (int \<times> 'c) result" where
  "decode_chunk_aligned dec ctx b =
     (if n_tokens b \<le> 0 then Ok (dec ctx b)
      else case (token b, pos b) of
        (Some _, Some ps) \<Rightarrow> decode_loop dec b ps (nat (n_tokens b)) 0 ctx
      | _ \<Rightarrow> Err (Abort ''GGML_ASSERT''))"

subsection \<open>The pieces\<close>

text \<open>Decoding a list of batches up to the first failure.\<close>

fun decode_all :: "('c \<Rightarrow> llama_batch \<Rightarrow> int \<times> 'c) \<Rightarrow> llama_batch list \<Rightarrow> 'c \<Rightarrow> int \<times> 'c" where
  "decode_all dec [] ctx = (0, ctx)"
| "decode_all dec (b # bs) ctx = (case dec ctx b of (ret, ctx') \<Rightarrow> if ret \<noteq> 0 then (ret, ctx') else decode_all dec bs ctx')"

text \<open>What a batch feeds to the model: its first \<open>n_tokens\<close> entries.\<close>

definition fed :: "(llama_batch \<Rightarrow> 'a list option) \<Rightarrow> llama_batch \<Rightarrow> 'a list" where
  "fed f b = (case f b of None \<Rightarrow> [] | Some xs \<Rightarrow> take (nat (n_tokens b)) xs)"

lemma next_chunk_start_ok:
  assumes "n \<le> length ps" "k \<le> n"
  obtains m where "next_chunk_start ps n k = Ok m" "k \<le> m" "m \<le> n" "\<And>i. k \<le> i \<Longrightarrow> i < m \<Longrightarrow> ps ! i mod 256 \<noteq> 0"
    "m < n \<Longrightarrow> ps ! m mod 256 = 0"
proof -
  have "\<exists>m. next_chunk_start ps n k = Ok m \<and> k \<le> m \<and> m \<le> n \<and> (\<forall>i. k \<le> i \<and> i < m \<longrightarrow> ps ! i mod 256 \<noteq> 0) \<and> (m < n \<longrightarrow> ps ! m mod 256 = 0)"
    using assms
  proof (induction ps n k rule: next_chunk_start.induct)
    case (1 ps n k)
    show ?case
    proof (cases "k < n \<and> ps ! k mod 256 \<noteq> 0")
      case True
      then obtain m where m: "next_chunk_start ps n (k + 1) = Ok m" "k + 1 \<le> m" "m \<le> n"
        "\<forall>i. k + 1 \<le> i \<and> i < m \<longrightarrow> ps ! i mod 256 \<noteq> 0" "m < n \<longrightarrow> ps ! m mod 256 = 0"
        using "1.IH" [OF _ less_le_trans [OF _ "1.prems"(1)]] "1.prems" by auto
      have "ps ! i mod 256 \<noteq> 0" if "k \<le> i" "i < m" for i using that m(4) True by (cases "i = k") auto
      with m True 1(2) show ?thesis by (intro exI [of _ m]) (subst next_chunk_start.simps, simp)
    next
      case False
      then have z: "k < n \<longrightarrow> ps ! k mod 256 = 0" by blast
      then have n: "next_chunk_start ps n k = Ok k" using "1.prems" by (subst next_chunk_start.simps) simp
      have v: "\<forall>i. k \<le> i \<and> i < k \<longrightarrow> ps ! i mod 256 \<noteq> 0" using leD by blast
      show ?thesis by (rule exI [of _ k], intro conjI n z v le_refl "1.prems"(2))
    qed
  qed
  then obtain m where "next_chunk_start ps n k = Ok m" "k \<le> m" "m \<le> n" "\<forall>i. k \<le> i \<and> i < m \<longrightarrow> ps ! i mod 256 \<noteq> 0"
    "m < n \<longrightarrow> ps ! m mod 256 = 0" by (elim exE conjE)
  from that [OF this(1-3)] this(4,5) show thesis by simp
qed

text \<open>Every piece is a non-empty range of the batch; only its first position may begin a chunk.\<close>

definition piece :: "llama_batch \<Rightarrow> int list \<Rightarrow> nat \<times> nat \<Rightarrow> bool" where
  "piece b ps r \<longleftrightarrow> fst r < snd r \<and> snd r \<le> nat (n_tokens b) \<and> (\<forall>i. fst r < i \<and> i < snd r \<longrightarrow> ps ! i mod 256 \<noteq> 0)"

fun ranges_from :: "nat \<Rightarrow> (nat \<times> nat) list \<Rightarrow> nat \<Rightarrow> bool" where
  "ranges_from s [] n \<longleftrightarrow> s = n"
| "ranges_from s (r # rs) n \<longleftrightarrow> fst r = s \<and> ranges_from (snd r) rs n"

lemma decode_loop_pieces:
  assumes "n = nat (n_tokens b)" "n \<le> length ps" "start \<le> n"
  obtains rs where "ranges_from start rs n" "\<forall>r\<in>set rs. piece b ps r"
    "\<And>ctx. decode_loop dec b ps n start ctx = Ok (decode_all dec (map (\<lambda>(i, j). sub_batch b i j) rs) ctx)"
proof -
  have "\<exists>rs. ranges_from start rs n \<and> (\<forall>r\<in>set rs. piece b ps r) \<and>
      (\<forall>ctx. decode_loop dec b ps n start ctx = Ok (decode_all dec (map (\<lambda>(i, j). sub_batch b i j) rs) ctx))"
    using assms(3)
  proof (induction "n - start" arbitrary: start rule: less_induct)
    case less
    show ?case
    proof (cases "start < n")
      case True
      then obtain m where m: "next_chunk_start ps n (start + 1) = Ok m" "start + 1 \<le> m" "m \<le> n"
        "\<And>i. start + 1 \<le> i \<Longrightarrow> i < m \<Longrightarrow> ps ! i mod 256 \<noteq> 0"
        using next_chunk_start_ok [OF assms(2), of "start + 1"] by auto
      obtain rs where rs: "ranges_from m rs n" "\<forall>r\<in>set rs. piece b ps r"
        "\<forall>ctx. decode_loop dec b ps n m ctx = Ok (decode_all dec (map (\<lambda>(i, j). sub_batch b i j) rs) ctx)"
        using less.hyps [OF _ m(3)] True m(2) by (metis diff_less_mono2 less_le_trans Suc_eq_plus1 Suc_le_lessD)
      have "decode_loop dec b ps n start ctx = Ok (decode_all dec (map (\<lambda>(i, j). sub_batch b i j) ((start, m) # rs)) ctx)" for ctx
        by (subst decode_loop.simps) (simp add: True m(1) [unfolded Suc_eq_plus1 [symmetric]] rs(3) split: prod.splits)
      moreover have "piece b ps (start, m)" using m(2-4) assms(1) by (simp add: piece_def)
      ultimately show ?thesis using rs(1,2) by (intro exI [of _ "(start, m) # rs"]) simp
    next
      case False
      with less.prems show ?thesis by (intro exI [of _ "[]"]) (simp add: decode_loop.simps)
    qed
  qed
  with that show thesis by blast
qed

lemma ranges_concat:
  assumes "ranges_from s rs n" "\<forall>r\<in>set rs. piece b ps r"
  shows "s \<le> n \<and> concat (map (\<lambda>(i, j). take (j - i) (drop i xs)) rs) = take (n - s) (drop s xs)"
  using assms
proof (induction rs arbitrary: s)
  case (Cons r rs)
  obtain j where r: "r = (s, j)" "s < j" using Cons.prems by (cases r) (auto simp: piece_def)
  with Cons have ih: "j \<le> n" "concat (map (\<lambda>(i, j). take (j - i) (drop i xs)) rs) = take (n - j) (drop j xs)" by auto
  have "take (j - s) (drop s xs) @ take (n - j) (drop (j - s) (drop s xs)) = take (j - s + (n - j)) (drop s xs)"
    by (simp only: take_add)
  with r ih show ?case by (simp add: le_add_diff_inverse)
qed simp

lemma fed_pieces:
  assumes "ranges_from 0 rs (nat (n_tokens b))" "\<forall>r\<in>set rs. piece b ps r"
    and f: "\<And>i j. f (sub_batch b i j) = map_option (drop i) (f b)"
  shows "concat (map (fed f) (map (\<lambda>(i, j). sub_batch b i j) rs)) = fed f b"
proof (cases "f b")
  case None
  then show ?thesis using f by (simp add: fed_def split_def concat_eq_Nil_conv)
next
  case (Some xs)
  have n: "n_tokens (sub_batch b i j) = int j - int i" for i j by (simp add: sub_batch_def)
  have "map (fed f) (map (\<lambda>(i, j). sub_batch b i j) rs) = map (\<lambda>(i, j). take (j - i) (drop i xs)) rs"
    using assms(2) by (auto simp: fed_def f Some n nat_diff_distrib piece_def)
  then have "concat (map (fed f) (map (\<lambda>(i, j). sub_batch b i j) rs)) = take (nat (n_tokens b)) xs"
    using ranges_concat [OF assms(1,2), of xs] by (simp only: drop_0 diff_zero)
  then show ?thesis by (simp only: fed_def [of f b] Some option.case)
qed

text \<open>With ascending positions a piece stays inside one chunk.\<close>

definition ascending :: "int list \<Rightarrow> nat \<Rightarrow> bool" where
  "ascending ps n \<longleftrightarrow> (\<forall>i. i + 1 < n \<longrightarrow> ps ! (i + 1) = ps ! i + 1)"

lemma piece_chunk:
  assumes "piece b ps (s, e)" "ascending ps (nat (n_tokens b))" "s + k < e"
  shows "ps ! (s + k) div 256 = ps ! s div 256"
  using assms(3)
proof (induction k)
  case (Suc k)
  let ?p = "ps ! (s + k)"
  have "ps ! (s + Suc k) = ?p + 1" using assms(1,2) Suc.prems by (simp add: ascending_def piece_def)
  moreover have "ps ! (s + Suc k) mod 256 \<noteq> 0" using assms(1) Suc.prems by (simp add: piece_def)
  moreover have "(?p + 1) div 256 = ?p div 256" if "(?p + 1) mod 256 \<noteq> 0" 
    using that div_mult_mod_eq [of ?p 256] div_mult_mod_eq [of "?p + 1" 256] pos_mod_bound [of 256 ?p] pos_mod_sign [of 256 ?p]
      pos_mod_bound [of 256 "?p + 1"] pos_mod_sign [of 256 "?p + 1"] by linarith
  ultimately show ?case using Suc by simp
qed simp

lemma fed_pos_chunk:
  assumes "piece b ps (s, e)" "ascending ps (nat (n_tokens b))" "pos b = Some ps" "nat (n_tokens b) \<le> length ps"
  shows "fed pos (sub_batch b s e) \<noteq> []" "\<forall>p\<in>set (fed pos (sub_batch b s e)). p div 256 = ps ! s div 256"
proof -
  have l: "s < e" "e \<le> nat (n_tokens b)" using assms(1) by (simp_all add: piece_def)
  have f: "fed pos (sub_batch b s e) = take (e - s) (drop s ps)"
    using l by (simp add: fed_def sub_batch_def assms(3) nat_diff_distrib)
  show "fed pos (sub_batch b s e) \<noteq> []" using l assms(4) by (simp add: f)
  show "\<forall>p\<in>set (fed pos (sub_batch b s e)). p div 256 = ps ! s div 256"
  proof
    fix p assume "p \<in> set (fed pos (sub_batch b s e))"
    then obtain k where "k < e - s" "p = ps ! (s + k)" using l assms(4) by (auto simp: f in_set_conv_nth)
    then show "p div 256 = ps ! s div 256" using piece_chunk [OF assms(1,2), of k] by simp
  qed
qed

end
