(* ===== verification/Weight_Ops.thy ===== *)
theory Weight_Ops
  imports Slices Decimal Mz_Types
begin

text \<open>
  The tensors of the weight layers: \<open>mzcache/src/mzcache_weight_ops.cpp\<close> with the parts of ggml it was extended by, the
  allocation of a range of tensors in one padded buffer (\<open>ggml-alloc.c\<close>) and the exchange of child buffers of the model's
  multi-buffer (\<open>ggml-backend.cpp\<close>).

  A tensor points into a buffer by the buffer's identity and an offset. Buffers are never reused: a fresh one gets the next
  identity, so that a stale pointer shows. \<open>fresh\<close> is the undefined content of new memory, \<open>base\<close> the address of a buffer.
\<close>

record tensor =
  nbytes :: nat
  t_buffer :: "nat option"
  t_data :: "nat option"
  is_weight :: bool

record wctx =
  tensors :: "tensor list"                     \<comment> \<open>\<open>mz_weight_ctx\<close>, in the order of \<open>ggml_get_next_tensor\<close>\<close>
  child_buffers :: "nat option list"           \<comment> \<open>the slots of \<open>mz_weight_buf\<close>\<close>
  buf_mem :: "nat \<Rightarrow> bytes option"
  next_buf :: nat
  layer_first_tensor :: "int \<Rightarrow> nat option"
  layer_0_tensor_idx :: int
  num_tensors_per_layer :: int
  num_bytes_per_layer :: nat

subsection \<open>Reading and writing tensors\<close>

definition tensor_get :: "wctx \<Rightarrow> tensor \<Rightarrow> bytes result" where
  "tensor_get c t =
     (if nbytes t = 0 then Ok []
      else case (t_buffer t, t_data t) of
        (Some b, Some off) \<Rightarrow>
          (case buf_mem c b of None \<Rightarrow> Err UseAfterFree
           | Some m \<Rightarrow> if off + nbytes t \<le> length m then Ok (slice m off (off + nbytes t)) else Err OutOfBounds)
      | (None, _) \<Rightarrow> Err (Abort ''tensor buffer not set'')
      | _ \<Rightarrow> Err (Abort ''tensor not allocated''))"

subsection \<open>Allocation\<close>

definition aligned_offset :: "nat \<Rightarrow> nat \<Rightarrow> nat \<Rightarrow> nat" where
  "aligned_offset base off al = off + (al - (base + off) mod al) mod al"

text \<open>\<open>GGML_PAD\<close>, whose bit mask is this division for the powers of two it is used with.\<close>

definition ggml_pad :: "nat \<Rightarrow> nat \<Rightarrow> nat" where
  "ggml_pad x n = (x + n - 1) div n * n"

definition tallocr_alloc :: "nat \<Rightarrow> nat \<Rightarrow> nat \<Rightarrow> nat \<Rightarrow> tensor \<Rightarrow> (nat \<times> tensor) result" where
  "tallocr_alloc al b bsize off t =
     (let sz = ggml_pad (nbytes t) al in
      if bsize < off + sz then Err (Abort ''not enough space in the buffer'')
      else if t_buffer t \<noteq> None \<or> t_data t \<noteq> None then Err (Abort ''GGML_ASSERT'')
      else Ok (off + sz, t\<lparr>t_buffer := Some b, t_data := Some off\<rparr>))"

fun place_tensors :: "nat \<Rightarrow> nat \<Rightarrow> nat \<Rightarrow> nat \<Rightarrow> tensor list \<Rightarrow> tensor list result" where
  "place_tensors al b bsize off [] = Ok []"
| "place_tensors al b bsize off (t # ts) =
     (if t_data t = None then
        bind_result (tallocr_alloc al b bsize off t) (\<lambda>(off', t'). bind_result (place_tensors al b bsize off' ts) (\<lambda>r. Ok (t' # r)))
      else bind_result (place_tensors al b bsize off ts) (\<lambda>r. Ok (t # r)))"

text \<open>The range of the loop over \<open>first\<close> up to \<open>last\<close>; running past the last tensor dereferences a null pointer.\<close>

definition tensor_range :: "wctx \<Rightarrow> nat option \<Rightarrow> nat option \<Rightarrow> (nat \<times> nat) result" where
  "tensor_range c first lst =
     (case (first, lst) of
        (None, None) \<Rightarrow> Ok (0, 0)
      | (None, Some _) \<Rightarrow> Err OutOfBounds
      | (Some i, None) \<Rightarrow> Ok (i, length (tensors c))
      | (Some i, Some j) \<Rightarrow> if i \<le> j then Ok (i, j) else Err OutOfBounds)"

definition weight_buffer_size :: "nat \<Rightarrow> nat" where
  "weight_buffer_size sz = (if sz < 4096 then 4096 else (sz + 4096 - 1) div 4096 * 4096)"

text \<open>\<open>alloc_tensor_range\<close> for weights; the result is the identity of the new buffer, \<open>None\<close> when it cannot be allocated.\<close>

definition alloc_tensor_range ::
  "bool \<Rightarrow> (nat \<Rightarrow> bytes) \<Rightarrow> nat \<Rightarrow> nat \<Rightarrow> nat option \<Rightarrow> nat option \<Rightarrow> nat \<Rightarrow> wctx \<Rightarrow> (nat option \<times> wctx) result" where
  "alloc_tensor_range svm_ok fresh base al first lst sz c =
     (if \<not> svm_ok then Ok (None, c)
      else
        let b = next_buf c; bsize = weight_buffer_size sz;
            c1 = c\<lparr>next_buf := b + 1, buf_mem := (buf_mem c)(b \<mapsto> take bsize (fresh b @ replicate bsize 0))\<rparr>
        in bind_result (tensor_range c first lst) (\<lambda>(i, j).
           bind_result (place_tensors al b bsize (aligned_offset base 0 al) (slice (tensors c) i j)) (\<lambda>ts.
             Ok (Some b, c1\<lparr>tensors := splice (tensors c) i ts\<rparr>))))"

text \<open>A free slot of the multi-buffer takes the new child; without one the buffer is freed again.\<close>

fun fill_slot :: "nat \<Rightarrow> nat option list \<Rightarrow> nat option list option" where
  "fill_slot b [] = None"
| "fill_slot b (None # ss) = Some (Some b # ss)"
| "fill_slot b (Some x # ss) = map_option (\<lambda>r. Some x # r) (fill_slot b ss)"

definition concat_buffer :: "nat \<Rightarrow> wctx \<Rightarrow> wctx \<times> bool" where
  "concat_buffer b c =
     (case fill_slot b (child_buffers c) of
        None \<Rightarrow> (c\<lparr>buf_mem := (buf_mem c)(b := None)\<rparr>, False)
      | Some ss \<Rightarrow> (c\<lparr>child_buffers := ss\<rparr>, True))"

text \<open>The array of first tensors has \<open>MAX_NUM_LAYERS\<close> entries and is read at the next layer, too.\<close>

definition alloc_weight_layer :: "bool \<Rightarrow> (nat \<Rightarrow> bytes) \<Rightarrow> nat \<Rightarrow> nat \<Rightarrow> int \<Rightarrow> wctx \<Rightarrow> (wctx \<times> bool) result" where
  "alloc_weight_layer svm_ok fresh base al L c =
     (if L < 0 \<or> MAX_NUM_LAYERS \<le> L + 1 then Err OutOfBounds
      else bind_result (alloc_tensor_range svm_ok fresh base al (layer_first_tensor c L) (layer_first_tensor c (L + 1)) (num_bytes_per_layer c) c)
        (\<lambda>(r, c1). case r of None \<Rightarrow> Ok (c1, False) | Some b \<Rightarrow> Ok (concat_buffer b c1)))"

subsection \<open>Unloading\<close>

definition layer_indices :: "wctx \<Rightarrow> int \<Rightarrow> nat list" where
  "layer_indices c L =
     (let f = layer_0_tensor_idx c + num_tensors_per_layer c * L in
      map nat (filter (\<lambda>i. 0 \<le> i \<and> i < int (length (tensors c))) (map (\<lambda>i. f + int i) [0..<nat (num_tensors_per_layer c)])))"

fun unique_buffers :: "nat list \<Rightarrow> tensor list \<Rightarrow> nat list" where
  "unique_buffers acc [] = acc"
| "unique_buffers acc (t # ts) =
     (case t_buffer t of None \<Rightarrow> unique_buffers acc ts
      | Some b \<Rightarrow> unique_buffers (if b \<in> set acc then acc else acc @ [b]) ts)"

text \<open>The first slot that holds the buffer is cleared and the buffer freed.\<close>

fun clear_slot :: "nat \<Rightarrow> nat option list \<Rightarrow> nat option list option" where
  "clear_slot b [] = None"
| "clear_slot b (s # ss) = (if s = Some b then Some (None # ss) else map_option (\<lambda>r. s # r) (clear_slot b ss))"

fun unload_children :: "nat list \<Rightarrow> wctx \<Rightarrow> wctx \<times> bool" where
  "unload_children [] c = (c, True)"
| "unload_children (b # bs) c =
     (case clear_slot b (child_buffers c) of None \<Rightarrow> (c, False)
      | Some ss \<Rightarrow> unload_children bs (c\<lparr>child_buffers := ss, buf_mem := (buf_mem c)(b := None)\<rparr>))"

definition clear_tensor :: "tensor \<Rightarrow> tensor" where
  "clear_tensor t = t\<lparr>t_buffer := None, t_data := None, is_weight := True\<rparr>"

definition unload_buffers :: "int \<Rightarrow> wctx \<Rightarrow> wctx \<times> bool" where
  "unload_buffers L c =
     (let is = layer_indices c L;
          (c1, ok) = unload_children (unique_buffers [] (map (\<lambda>i. tensors c ! i) is)) c
      in if ok then (c1\<lparr>tensors := map (\<lambda>i. if i \<in> set is then clear_tensor (tensors c1 ! i) else tensors c1 ! i) [0..<length (tensors c1)]\<rparr>, True)
         else (c1, False))"

subsection \<open>Dumping and reading back\<close>

text \<open>The bytes written before an exception stay in the file, so the loop returns them with the outcome.\<close>

fun save_loop :: "wctx \<Rightarrow> nat \<Rightarrow> nat \<Rightarrow> bytes \<Rightarrow> bytes \<times> unit result" where
  "save_loop c 0 cur acc = (acc, Ok ())"
| "save_loop c (Suc k) cur acc =
     (case tensor_get c (tensors c ! cur) of Inl e \<Rightarrow> (acc, Inl e)
      | Inr d \<Rightarrow> if length (tensors c) \<le> cur + 1 \<and> 0 < k then (acc @ d, Err (RuntimeError ''Insufficient tensors when saving layer''))
          else save_loop c k (cur + 1) (acc @ d))"

definition save_weights_in_layer_to_file ::
  "bool \<Rightarrow> string \<Rightarrow> int \<Rightarrow> wctx \<Rightarrow> (string \<Rightarrow> bytes option) \<Rightarrow> (string \<Rightarrow> bytes option) \<times> bool result" where
  "save_weights_in_layer_to_file opens path L c fs =
     (if \<not> opens then (fs, Err (RuntimeError ''Failed to open output file''))
      else case layer_first_tensor c L of
        None \<Rightarrow> (fs(path \<mapsto> []), Err (RuntimeError ''No tensors found for layer''))
      | Some cur \<Rightarrow>
          (case save_loop c (nat (num_tensors_per_layer c)) cur [] of
             (d, Inl e) \<Rightarrow> (fs(path \<mapsto> d), Inl e)
           | (d, Inr _) \<Rightarrow> (fs(path \<mapsto> d @ replicate ((4096 - length d mod 4096) mod 4096) 0), Ok True)))"

text \<open>\<open>std::to_string\<close> of a non-negative number.\<close>

fun to_string :: "nat \<Rightarrow> string" where
  "to_string n = (if n < 10 then [digit n] else to_string (n div 10) @ [digit (n mod 10)])"

declare to_string.simps [simp del]

definition unload_layers_to_file ::
  "bool \<Rightarrow> string \<Rightarrow> int \<Rightarrow> wctx \<Rightarrow> (string \<Rightarrow> bytes option) \<Rightarrow> (string \<Rightarrow> bytes option) \<times> bool result" where
  "unload_layers_to_file opens path L c fs =
     (if L < 0 then (fs, Err (RuntimeError ''unload_layers_to_file: layer_idx is invalid''))
      else save_weights_in_layer_to_file opens (path @ ''_layer_'' @ to_string (nat L) @ ''.bin'') L c fs)"

text \<open>
  \<open>read_weight_layer\<close> at the level of bytes: the file goes in one piece to where the first tensor of the layer points, \<open>sz\<close> bytes of
  the padded layer size. A short file throws.
\<close>

definition read_layer_tensors :: "nat \<Rightarrow> bytes \<Rightarrow> int \<Rightarrow> wctx \<Rightarrow> (wctx \<times> bool) result" where
  "read_layer_tensors sz d L c =
     (if sz mod 4096 \<noteq> 0 then Ok (c, False)
      else case layer_first_tensor c L of None \<Rightarrow> Err OutOfBounds
      | Some f \<Rightarrow>
          (case (t_buffer (tensors c ! f), t_data (tensors c ! f)) of
             (Some b, Some off) \<Rightarrow>
               (case buf_mem c b of None \<Rightarrow> Err UseAfterFree
                | Some m \<Rightarrow> if length d < sz then Err (RuntimeError ''Failed to read layer'')
                    else if length m < off + sz then Err OutOfBounds
                    else Ok (c\<lparr>buf_mem := (buf_mem c)(b \<mapsto> splice m off (take sz d))\<rparr>, True))
           | _ \<Rightarrow> Err OutOfBounds))"

definition padded_num_bytes_per_layer :: "wctx \<Rightarrow> nat" where
  "padded_num_bytes_per_layer c = (num_bytes_per_layer c + 4095) div 4096 * 4096"

subsection \<open>Unloading frees the layer's buffers\<close>

lemma unique_buffers_set: "set (unique_buffers acc ts) = set acc \<union> {b. \<exists>t\<in>set ts. t_buffer t = Some b}"
  by (induction acc ts rule: unique_buffers.induct) (auto split: option.splits)

lemma unique_buffers_distinct: "distinct acc \<Longrightarrow> distinct (unique_buffers acc ts)"
  by (induction acc ts rule: unique_buffers.induct) (auto split: option.splits)

lemma clear_slot_ok:
  assumes "Some b \<in> set ss"
  obtains ss' where "clear_slot b ss = Some ss'" "None \<in> set ss'" "\<And>x. x \<in> set ss \<Longrightarrow> x \<noteq> Some b \<Longrightarrow> x \<in> set ss'"
proof -
  have "\<exists>ss'. clear_slot b ss = Some ss' \<and> None \<in> set ss' \<and> (\<forall>x\<in>set ss. x \<noteq> Some b \<longrightarrow> x \<in> set ss')"
    using assms by (induction ss) auto
  with that show thesis by blast
qed

lemma unload_children_ok:
  assumes "distinct bs" "\<forall>b\<in>set bs. Some b \<in> set (child_buffers c)" "unload_children bs c = (c', ok)"
  shows "ok \<and> tensors c' = tensors c \<and> next_buf c' = next_buf c \<and> layer_first_tensor c' = layer_first_tensor c \<and>
    num_bytes_per_layer c' = num_bytes_per_layer c \<and> buf_mem c' = (\<lambda>b. if b \<in> set bs then None else buf_mem c b) \<and>
    (bs \<noteq> [] \<or> None \<in> set (child_buffers c) \<longrightarrow> None \<in> set (child_buffers c'))"
  using assms
proof (induction bs arbitrary: c)
  case (Cons b bs)
  obtain ss where ss: "clear_slot b (child_buffers c) = Some ss" "None \<in> set ss"
    "\<And>x. x \<in> set (child_buffers c) \<Longrightarrow> x \<noteq> Some b \<Longrightarrow> x \<in> set ss"
    using clear_slot_ok Cons.prems(2) by (metis list.set_intros(1))
  let ?c = "c\<lparr>child_buffers := ss, buf_mem := (buf_mem c)(b := None)\<rparr>"
  have "unload_children bs ?c = (c', ok)" using Cons.prems(3) ss(1) by simp
  moreover have "\<forall>b'\<in>set bs. Some b' \<in> set (child_buffers ?c)" using Cons.prems(1,2) ss(3) by auto
  ultimately show ?case using Cons.IH [of ?c] Cons.prems(1) ss(2) by (auto simp: fun_eq_iff)
qed auto

subsection \<open>Placing the tensors of a layer\<close>

fun placed :: "nat \<Rightarrow> nat \<Rightarrow> tensor list \<Rightarrow> tensor list" where
  "placed b off [] = []"
| "placed b off (t # ts) = t\<lparr>t_buffer := Some b, t_data := Some off\<rparr> # placed b (off + nbytes t) ts"

lemma length_placed [simp]: "length (placed b off ts) = length ts"
  by (induction ts arbitrary: off) simp_all

lemma nth_placed:
  "k < length ts \<Longrightarrow> placed b off ts ! k = (ts ! k)\<lparr>t_buffer := Some b, t_data := Some (off + sum_list (map nbytes (take k ts)))\<rparr>"
  by (induction ts arbitrary: off k) (auto simp: nth_Cons split: nat.splits)

lemma ggml_pad_dvd:
  assumes "0 < n" "n dvd x" shows "ggml_pad x n = x"
proof -
  obtain k where x: "x = k * n" using assms(2) by (metis dvd_div_mult_self)
  have "x + n - 1 = (n - 1) + k * n" using assms(1) x by simp
  then have "(x + n - 1) div n = k" using assms(1) by (simp only: div_mult_self1) simp
  with x show ?thesis by (simp add: ggml_pad_def)
qed

lemma place_tensors_keep: "\<forall>t\<in>set ts. t_data t \<noteq> None \<Longrightarrow> place_tensors al b bsize off ts = Ok ts"
  by (induction ts) auto

lemma place_tensors_ok:
  assumes "0 < al" "\<forall>t\<in>set ts. t_data t = None \<and> t_buffer t = None \<and> al dvd nbytes t"
    "off + sum_list (map nbytes ts) \<le> bsize" "\<forall>t\<in>set us. t_data t \<noteq> None"
  shows "place_tensors al b bsize off (ts @ us) = Ok (placed b off ts @ us)"
  using assms(2,3)
proof (induction ts arbitrary: off)
  case Nil
  with assms(4) show ?case by (simp add: place_tensors_keep)
next
  case (Cons t ts)
  then have "tallocr_alloc al b bsize off t = Ok (off + nbytes t, t\<lparr>t_buffer := Some b, t_data := Some off\<rparr>)"
    using assms(1) by (simp add: tallocr_alloc_def Let_def ggml_pad_dvd)
  with Cons show ?case by simp
qed

lemma fill_slot_ok: "None \<in> set ss \<Longrightarrow> \<exists>ss'. fill_slot b ss = Some ss'"
  by (induction b ss rule: fill_slot.induct) auto

subsection \<open>Dumping\<close>

lemma tensor_get_length: "tensor_get c t = Ok d \<Longrightarrow> length d = nbytes t"
  by (auto simp: tensor_get_def split: option.splits if_splits)

lemma save_loop_ok:
  assumes "cur + k \<le> length (tensors c)" "\<forall>i. cur \<le> i \<and> i < cur + k \<longrightarrow> tensor_get c (tensors c ! i) = Ok (data i)"
  shows "save_loop c k cur acc = (acc @ concat (map data [cur..<cur + k]), Ok ())"
  using assms
proof (induction k arbitrary: cur acc)
  case (Suc k)
  then have "tensor_get c (tensors c ! cur) = Ok (data cur)" by simp
  moreover have "save_loop c k (cur + 1) (acc @ data cur) = ((acc @ data cur) @ concat (map data [cur + 1..<cur + 1 + k]), Ok ())"
    by (rule Suc.IH) (use Suc.prems in simp_all)
  moreover have "[cur..<cur + Suc k] = cur # [cur + 1..<cur + 1 + k]" by (simp add: upt_conv_Cons)
  ultimately show ?case using Suc.prems(1) by simp
qed simp

lemma padded_length: "n + (4096 - n mod 4096) mod 4096 = (n + 4095) div 4096 * (4096 :: nat)"
proof -
  define q where "q = n div 4096"
  define r where "r = n mod 4096"
  have n: "n = 4096 * q + r" "r < 4096" by (simp_all add: q_def r_def)
  show ?thesis
  proof (cases "r = 0")
    case True
    with n show ?thesis by simp
  next
    case False
    then have "(n + 4095) div 4096 = q + 1" using n by (simp add: div_nat_eqI)
    moreover have "n mod 4096 = r" by (simp add: r_def)
    ultimately show ?thesis using n False by simp
  qed
qed

subsection \<open>A layer that can be exchanged\<close>

text \<open>
  The tensors \<open>f ..< f + n\<close> are those of layer \<open>L\<close>, all of them in memory; no other tensor shares a buffer with them; the next
  layer follows, or the tensors behind the last layer are in memory.
\<close>

definition layer_buffers :: "wctx \<Rightarrow> nat \<Rightarrow> nat \<Rightarrow> nat set" where
  "layer_buffers c f n = {b. \<exists>i. f \<le> i \<and> i < f + n \<and> t_buffer (tensors c ! i) = Some b}"

definition layer_here :: "wctx \<Rightarrow> int \<Rightarrow> nat \<Rightarrow> nat \<Rightarrow> bool" where
  "layer_here c L f n \<longleftrightarrow>
     0 \<le> L \<and> L + 1 < MAX_NUM_LAYERS \<and> layer_first_tensor c L = Some f \<and> 0 < n \<and> n = nat (num_tensors_per_layer c) \<and>
     f + n \<le> length (tensors c) \<and> int f = layer_0_tensor_idx c + num_tensors_per_layer c * L \<and>
     num_bytes_per_layer c = sum_list (map nbytes (slice (tensors c) f (f + n))) \<and>
     (layer_first_tensor c (L + 1) = Some (f + n) \<or>
      layer_first_tensor c (L + 1) = None \<and> (\<forall>i. f + n \<le> i \<and> i < length (tensors c) \<longrightarrow> t_data (tensors c ! i) \<noteq> None)) \<and>
     (\<forall>i. f \<le> i \<and> i < f + n \<longrightarrow> 0 < nbytes (tensors c ! i) \<and> (\<exists>d. tensor_get c (tensors c ! i) = Ok d)) \<and>
     (\<forall>b\<in>layer_buffers c f n. Some b \<in> set (child_buffers c)) \<and>
     (\<forall>i b. i < length (tensors c) \<and> t_buffer (tensors c ! i) = Some b \<longrightarrow> b < next_buf c \<and> (b \<in> layer_buffers c f n \<longrightarrow> f \<le> i \<and> i < f + n))"

lemma layer_indices_here:
  assumes "layer_here c L f n" shows "layer_indices c L = [f..<f + n]"
proof -
  have h: "int f = layer_0_tensor_idx c + num_tensors_per_layer c * L" "n = nat (num_tensors_per_layer c)" "f + n \<le> length (tensors c)"
    using assms by (auto simp: layer_here_def)
  have "filter (\<lambda>i. 0 \<le> i \<and> i < int (length (tensors c))) (map (\<lambda>i. int f + int i) [0..<n]) = map (\<lambda>i. int (f + i)) [0..<n]"
    using h(3) by (subst filter_True) auto
  moreover have "layer_indices c L = map nat (filter (\<lambda>i. 0 \<le> i \<and> i < int (length (tensors c))) (map (\<lambda>i. int f + int i) [0..<n]))"
    unfolding layer_indices_def Let_def h(1) [symmetric] h(2) [symmetric] ..
  ultimately have "layer_indices c L = map (\<lambda>i. i + f) [0..<n]" by (simp add: comp_def add.commute del: of_nat_add)
  then show ?thesis by (simp add: map_add_upt add.commute)
qed

lemma save_layer:
  assumes "layer_here c L f n" "data = (\<lambda>i. projr (tensor_get c (tensors c ! i)))" "d = concat (map data [f..<f + n])"
  shows "save_weights_in_layer_to_file True path L c fs =
      (fs(path \<mapsto> d @ replicate ((4096 - length d mod 4096) mod 4096) 0), Ok True)"
    "length d = num_bytes_per_layer c"
proof -
  have h: "layer_first_tensor c L = Some f" "n = nat (num_tensors_per_layer c)" "f + n \<le> length (tensors c)"
    and g: "\<forall>i. f \<le> i \<and> i < f + n \<longrightarrow> tensor_get c (tensors c ! i) = Ok (data i)"
    using assms(1) by (auto simp: layer_here_def assms(2))
  have "save_loop c n f [] = (d, Ok ())" using save_loop_ok [OF h(3) g, of "[]"] by (simp add: assms(3))
  then show "save_weights_in_layer_to_file True path L c fs =
      (fs(path \<mapsto> d @ replicate ((4096 - length d mod 4096) mod 4096) 0), Ok True)"
    by (simp add: save_weights_in_layer_to_file_def h(1,2))
  have "slice (tensors c) f (f + n) = map (\<lambda>i. tensors c ! i) [f..<f + n]"
    using h(3) by (auto intro!: nth_equalityI simp: slice_def)
  moreover have "length (data i) = nbytes (tensors c ! i)" if "f \<le> i \<and> i < f + n" for i using g that tensor_get_length by blast
  then have "map length (map data [f..<f + n]) = map nbytes (map (\<lambda>i. tensors c ! i) [f..<f + n])" by simp
  moreover have "num_bytes_per_layer c = sum_list (map nbytes (slice (tensors c) f (f + n)))"
    using assms(1) unfolding layer_here_def by blast
  ultimately show "length d = num_bytes_per_layer c" unfolding assms(3) length_concat by (simp only:)
qed

lemma unload_layer:
  assumes "layer_here c L f n"
  obtains c1 where "unload_buffers L c = (c1, True)" "length (tensors c1) = length (tensors c)"
    "\<And>i. i < length (tensors c) \<Longrightarrow> tensors c1 ! i = (if f \<le> i \<and> i < f + n then clear_tensor (tensors c ! i) else tensors c ! i)"
    "buf_mem c1 = (\<lambda>b. if b \<in> layer_buffers c f n then None else buf_mem c b)" "None \<in> set (child_buffers c1)"
    "next_buf c1 = next_buf c" "layer_first_tensor c1 = layer_first_tensor c" "num_bytes_per_layer c1 = num_bytes_per_layer c"
proof -
  let ?bs = "unique_buffers [] (map (\<lambda>i. tensors c ! i) [f..<f + n])"
  have bs: "set ?bs = layer_buffers c f n" "distinct ?bs"
    by (auto simp: unique_buffers_set layer_buffers_def unique_buffers_distinct)
  have "0 < nbytes (tensors c ! f)" "\<exists>d. tensor_get c (tensors c ! f) = Ok d" "0 < n" using assms by (auto simp: layer_here_def)
  then have "t_buffer (tensors c ! f) \<noteq> None" "0 < n" by (auto simp: tensor_get_def split: option.splits)
  then have ne: "?bs \<noteq> []" using bs(1) by (auto simp: layer_buffers_def)
  obtain c' ok where u: "unload_children ?bs c = (c', ok)" by fastforce
  note r = unload_children_ok [OF bs(2) _ u]
  have r: "ok \<and> tensors c' = tensors c \<and> next_buf c' = next_buf c \<and> layer_first_tensor c' = layer_first_tensor c \<and>
    num_bytes_per_layer c' = num_bytes_per_layer c \<and> buf_mem c' = (\<lambda>b. if b \<in> set ?bs then None else buf_mem c b) \<and>
    (?bs \<noteq> [] \<or> None \<in> set (child_buffers c) \<longrightarrow> None \<in> set (child_buffers c'))"
    by (rule r) (use assms bs(1) in \<open>auto simp: layer_here_def\<close>)
  show thesis
    by (rule that [of "c'\<lparr>tensors := map (\<lambda>i. if i \<in> set [f..<f + n] then clear_tensor (tensors c' ! i) else tensors c' ! i) [0..<length (tensors c')]\<rparr>"])
      (use r ne u bs(1) layer_indices_here [OF assms] in \<open>simp_all add: unload_buffers_def\<close>)
qed

lemma nth_slice: "k < j - i \<Longrightarrow> j \<le> length xs \<Longrightarrow> slice xs i j ! k = xs ! (i + k)"
  by (simp add: slice_def)

lemma weight_buffer_fits: "sz \<le> weight_buffer_size sz" "(sz + 4095) div 4096 * 4096 \<le> weight_buffer_size sz"
  using padded_length [of sz] by (auto simp: weight_buffer_size_def) 

text \<open>What the allocation of an unloaded layer gives its tensors: consecutive places from the start of a new buffer.\<close>

lemma alloc_layer:
  assumes f: "layer_first_tensor c1 L = Some f" "0 \<le> L" "L + 1 < MAX_NUM_LAYERS" "f + n \<le> length (tensors c1)"
    and nx: "layer_first_tensor c1 (L + 1) = Some (f + n) \<or>
      layer_first_tensor c1 (L + 1) = None \<and> (\<forall>i. f + n \<le> i \<and> i < length (tensors c1) \<longrightarrow> t_data (tensors c1 ! i) \<noteq> None)"
    and al: "0 < al" "al dvd base" "\<forall>t\<in>set (slice (tensors c1) f (f + n)). t_data t = None \<and> t_buffer t = None \<and> al dvd nbytes t"
    and sz: "num_bytes_per_layer c1 = sum_list (map nbytes (slice (tensors c1) f (f + n)))" and sl: "None \<in> set (child_buffers c1)"
  obtains c2 m where "alloc_weight_layer True fresh base al L c1 = Ok (c2, True)" "length (tensors c2) = length (tensors c1)"
    "\<And>k. k < n \<Longrightarrow> tensors c2 ! (f + k) = (tensors c1 ! (f + k))
       \<lparr>t_buffer := Some (next_buf c1), t_data := Some (sum_list (map nbytes (take k (slice (tensors c1) f (f + n)))))\<rparr>"
    "\<And>i. i < length (tensors c1) \<Longrightarrow> \<not> (f \<le> i \<and> i < f + n) \<Longrightarrow> tensors c2 ! i = tensors c1 ! i"
    "buf_mem c2 = (buf_mem c1)(next_buf c1 \<mapsto> m)" "length m = weight_buffer_size (num_bytes_per_layer c1)"
    "layer_first_tensor c2 = layer_first_tensor c1" "num_bytes_per_layer c2 = num_bytes_per_layer c1"
proof -
  define b where "b = next_buf c1"
  define bs where "bs = weight_buffer_size (num_bytes_per_layer c1)"
  define j where "j = (if layer_first_tensor c1 (L + 1) = None then length (tensors c1) else f + n)"
  define ts where "ts = slice (tensors c1) f (f + n)"
  define us where "us = slice (tensors c1) (f + n) j"
  have j: "f + n \<le> j" "j \<le> length (tensors c1)" "tensor_range c1 (Some f) (layer_first_tensor c1 (L + 1)) = Ok (f, j)"
    using nx f(4) by (auto simp: j_def tensor_range_def)
  have tu: "slice (tensors c1) f j = ts @ us" unfolding ts_def us_def using j(1) by (subst slice_append) auto
  have lt: "length ts = n" "length us = j - (f + n)" using f(4) j by (simp_all add: ts_def us_def)
  have us: "\<forall>t\<in>set us. t_data t \<noteq> None"
    using nx j(2) lt(2) by (auto simp: us_def in_set_conv_nth nth_slice j_def)
  have o: "aligned_offset base 0 al = 0" using al(1,2) by (simp add: aligned_offset_def)
  have p: "place_tensors al b bs 0 (ts @ us) = Ok (placed b 0 ts @ us)"
    by (rule place_tensors_ok) (use al sz us weight_buffer_fits(1) in \<open>simp_all add: ts_def bs_def\<close>)
  define m where "m = take bs (fresh b @ replicate bs 0)"
  have lm: "length m = bs" unfolding m_def length_take length_append by simp
  define c' where "c' = c1\<lparr>next_buf := b + 1, buf_mem := (buf_mem c1)(b \<mapsto> m), tensors := splice (tensors c1) f (placed b 0 ts @ us)\<rparr>"
  have a: "alloc_tensor_range True fresh base al (layer_first_tensor c1 L) (layer_first_tensor c1 (L + 1)) (num_bytes_per_layer c1) c1 = Ok (Some b, c')"
    by (simp add: alloc_tensor_range_def Let_def f(1) j(3) tu o p c'_def m_def flip: b_def bs_def)
  obtain ss where ss: "fill_slot b (child_buffers c1) = Some ss" using fill_slot_ok [OF sl] by blast
  have cb: "child_buffers c' = child_buffers c1" by (simp add: c'_def)
  have al': "alloc_weight_layer True fresh base al L c1 = Ok (c'\<lparr>child_buffers := ss\<rparr>, True)"
    using f(2,3) cb by (simp add: alloc_weight_layer_def a concat_buffer_def ss)
  have len: "f + length (placed b 0 ts @ us) \<le> length (tensors c1)" using lt j by simp
  have nth: "tensors c' ! i = (if f \<le> i \<and> i < f + length (placed b 0 ts @ us) then (placed b 0 ts @ us) ! (i - f) else tensors c1 ! i)"
    if "i < length (tensors c1)" for i using nth_splice [OF len that] by (simp add: c'_def)
  show thesis
  proof (rule that [OF al'])
    show "length (tensors (c'\<lparr>child_buffers := ss\<rparr>)) = length (tensors c1)" using length_splice [OF len] by (simp add: c'_def)
    show "tensors (c'\<lparr>child_buffers := ss\<rparr>) ! (f + k) = (tensors c1 ! (f + k))
       \<lparr>t_buffer := Some (next_buf c1), t_data := Some (sum_list (map nbytes (take k (slice (tensors c1) f (f + n)))))\<rparr>" if "k < n" for k
      using nth [of "f + k"] that f(4) lt by (simp add: nth_append nth_placed ts_def nth_slice b_def)
    show "tensors (c'\<lparr>child_buffers := ss\<rparr>) ! i = tensors c1 ! i" if "i < length (tensors c1)" "\<not> (f \<le> i \<and> i < f + n)" for i
      using nth [OF that(1)] that lt j by (auto simp: nth_append us_def nth_slice)
  qed (use lm in \<open>simp_all add: c'_def b_def bs_def\<close>)
qed

lemma slice_middle: "slice (xs @ ys @ zs) (length xs) (length xs + length ys) = ys"
  by (simp add: slice_def)

lemma concat_slice:
  assumes "k < n"
  shows "slice (concat (map data [f..<f + n]) @ r) (length (concat (map data [f..<f + k])))
      (length (concat (map data [f..<f + k])) + length (data (f + k))) = data (f + k)"
    "length (concat (map data [f..<f + k])) + length (data (f + k)) \<le> length (concat (map data [f..<f + n]) @ r)"
proof -
  have "[f..<f + n] = [f..<f + k] @ [f + k..<f + n]" using assms upt_add_eq_append [of f "f + k" "n - k"] by simp
  moreover have "[f + k..<f + n] = (f + k) # [f + k + 1..<f + n]" using assms by (simp add: upt_conv_Cons)
  ultimately have e: "concat (map data [f..<f + n]) @ r =
      concat (map data [f..<f + k]) @ data (f + k) @ (concat (map data [f + k + 1..<f + n]) @ r)" by simp
  show "slice (concat (map data [f..<f + n]) @ r) (length (concat (map data [f..<f + k])))
      (length (concat (map data [f..<f + k])) + length (data (f + k))) = data (f + k)" unfolding e by (rule slice_middle)
  show "length (concat (map data [f..<f + k])) + length (data (f + k)) \<le> length (concat (map data [f..<f + n]) @ r)"
    unfolding e by simp
qed

text \<open>Dump, unload, allocate and read back: every tensor of the model has the bytes it had before.\<close>

lemma layer_exchange:
  assumes here: "layer_here c L f n" and al: "0 < al" "al dvd base" "\<forall>t\<in>set (slice (tensors c) f (f + n)). al dvd nbytes t"
  obtains d c1 c2 c3 where "save_weights_in_layer_to_file True path L c fs = (fs(path \<mapsto> d), Ok True)"
    "unload_buffers L c = (c1, True)" "\<forall>b\<in>layer_buffers c f n. buf_mem c1 b = None"
    "alloc_weight_layer True fresh base al L c1 = Ok (c2, True)"
    "read_layer_tensors (padded_num_bytes_per_layer c2) d L c2 = Ok (c3, True)" "length (tensors c3) = length (tensors c)"
    "\<forall>i. i < length (tensors c) \<longrightarrow> tensor_get c3 (tensors c3 ! i) = tensor_get c (tensors c ! i)"
proof -
  define data where "data = (\<lambda>i. projr (tensor_get c (tensors c ! i)))"
  define d0 where "d0 = concat (map data [f..<f + n])"
  define d where "d = d0 @ replicate ((4096 - length d0 mod 4096) mod 4096) 0"
  note save = save_layer(1) [OF here data_def d0_def, of path fs, folded d_def] save_layer(2) [OF here data_def d0_def]
  have h: "layer_first_tensor c L = Some f" "0 \<le> L" "L + 1 < MAX_NUM_LAYERS" "0 < n" "f + n \<le> length (tensors c)"
    "num_bytes_per_layer c = sum_list (map nbytes (slice (tensors c) f (f + n)))"
    using here unfolding layer_here_def by blast+
  have ok: "\<And>i. f \<le> i \<and> i < f + n \<Longrightarrow> tensor_get c (tensors c ! i) = Ok (data i)"
    and nz: "\<And>i. f \<le> i \<and> i < f + n \<Longrightarrow> 0 < nbytes (tensors c ! i)"
    and own: "\<And>i b. i < length (tensors c) \<Longrightarrow> t_buffer (tensors c ! i) = Some b \<Longrightarrow> b < next_buf c \<and> (b \<in> layer_buffers c f n \<longrightarrow> f \<le> i \<and> i < f + n)"
    using here unfolding layer_here_def data_def by (auto simp del: nat_0_iff)
  obtain c1 where u: "unload_buffers L c = (c1, True)" "length (tensors c1) = length (tensors c)"
    "\<And>i. i < length (tensors c) \<Longrightarrow> tensors c1 ! i = (if f \<le> i \<and> i < f + n then clear_tensor (tensors c ! i) else tensors c ! i)"
    "buf_mem c1 = (\<lambda>b. if b \<in> layer_buffers c f n then None else buf_mem c b)" "None \<in> set (child_buffers c1)"
    "next_buf c1 = next_buf c" "layer_first_tensor c1 = layer_first_tensor c" "num_bytes_per_layer c1 = num_bytes_per_layer c"
    by (rule unload_layer [OF here]) (rule that; assumption)
  have s1: "slice (tensors c1) f (f + n) = map clear_tensor (slice (tensors c) f (f + n))"
    using h(5) u(2,3) by (intro nth_equalityI) (simp_all add: nth_slice)
  have nb: "nbytes \<circ> clear_tensor = nbytes" by (simp add: fun_eq_iff clear_tensor_def)
  have al1: "\<forall>t\<in>set (slice (tensors c1) f (f + n)). t_data t = None \<and> t_buffer t = None \<and> al dvd nbytes t"
    using al(3) by (auto simp: s1 clear_tensor_def)
  have nx: "layer_first_tensor c1 (L + 1) = Some (f + n) \<or>
      layer_first_tensor c1 (L + 1) = None \<and> (\<forall>i. f + n \<le> i \<and> i < length (tensors c1) \<longrightarrow> t_data (tensors c1 ! i) \<noteq> None)"
    using here u(2,3) unfolding u(7) layer_here_def by auto
  obtain c2 m where a: "alloc_weight_layer True fresh base al L c1 = Ok (c2, True)" "length (tensors c2) = length (tensors c1)"
    "\<And>k. k < n \<Longrightarrow> tensors c2 ! (f + k) = (tensors c1 ! (f + k))
       \<lparr>t_buffer := Some (next_buf c1), t_data := Some (sum_list (map nbytes (take k (slice (tensors c1) f (f + n)))))\<rparr>"
    "\<And>i. i < length (tensors c1) \<Longrightarrow> \<not> (f \<le> i \<and> i < f + n) \<Longrightarrow> tensors c2 ! i = tensors c1 ! i"
    "buf_mem c2 = (buf_mem c1)(next_buf c1 \<mapsto> m)" "length m = weight_buffer_size (num_bytes_per_layer c1)"
    "layer_first_tensor c2 = layer_first_tensor c1" "num_bytes_per_layer c2 = num_bytes_per_layer c1"
    by (rule alloc_layer [OF _ h(2,3) _ nx al(1,2) al1 _ u(5), where fresh = fresh]) (use u h(1,5,6) s1 nb in simp_all)
  define sz where "sz = padded_num_bytes_per_layer c2"
  have sz: "length d = sz" "sz mod 4096 = 0" "sz \<le> length m"
    using save(2) padded_length [of "num_bytes_per_layer c"] weight_buffer_fits(2) [of "num_bytes_per_layer c"] a(6,8) u(8)
    by (simp_all add: sz_def padded_num_bytes_per_layer_def d_def)
  define m' where "m' = d @ drop sz m"
  define c3 where "c3 = c2\<lparr>buf_mem := (buf_mem c2)(next_buf c \<mapsto> m')\<rparr>"
  have rd: "read_layer_tensors sz d L c2 = Ok (c3, True)"
    using a(3) [of 0] h(1,4) sz a(5,7) u(6,7) by (simp add: read_layer_tensors_def c3_def m'_def splice_def)
  have "tensor_get c3 (tensors c3 ! i) = tensor_get c (tensors c ! i)" if i: "i < length (tensors c)" for i
  proof (cases "f \<le> i \<and> i < f + n")
    case True
    then obtain k where k: "i = f + k" "k < n" by (metis add_less_cancel_left le_Suc_ex)
    define off where "off = length (concat (map data [f..<f + k]))"
    have dl: "length (data x) = nbytes (tensors c ! x)" if "f \<le> x \<and> x < f + n" for x using ok [OF that] tensor_get_length by blast
    have "take k (slice (tensors c) f (f + n)) = map (\<lambda>x. tensors c ! x) [f..<f + k]"
      using h(5) k(2) by (intro nth_equalityI) (simp_all add: nth_slice)
    then have "sum_list (map nbytes (take k (slice (tensors c1) f (f + n)))) = sum_list (map (\<lambda>x. nbytes (tensors c ! x)) [f..<f + k])"
      by (simp add: s1 take_map comp_def clear_tensor_def)
    also have "\<dots> = off"
      unfolding off_def length_concat map_map using dl k(2) by (intro arg_cong [where f = sum_list] map_cong) auto
    finally have o: "sum_list (map nbytes (take k (slice (tensors c1) f (f + n)))) = off" .
    have t: "tensors c3 ! i = (clear_tensor (tensors c ! i))\<lparr>t_buffer := Some (next_buf c), t_data := Some off\<rparr>"
      using a(3) [OF k(2)] u(3) [OF i] True u(6) o by (simp add: c3_def k(1))
    note sl = concat_slice [OF k(2), of data f "replicate ((4096 - length d0 mod 4096) mod 4096) 0 @ drop sz m", folded off_def k(1)]
    have mem: "buf_mem c3 (next_buf c) = Some m'" by (simp add: c3_def)
    have "m' = concat (map data [f..<f + n]) @ replicate ((4096 - length d0 mod 4096) mod 4096) 0 @ drop sz m"
      by (simp add: m'_def d_def d0_def)
    then have "tensor_get c3 (tensors c3 ! i) = Ok (data i)"
      using dl [of i] nz [of i] True sl by (simp add: tensor_get_def t mem clear_tensor_def)
    then show ?thesis using ok [of i] True by simp
  next
    case False
    then have t: "tensors c3 ! i = tensors c ! i" using a(4) [of i] u(2,3) i by (auto simp: c3_def)
    have "buf_mem c3 b = buf_mem c b" if "t_buffer (tensors c ! i) = Some b" for b
      using own [OF i that] False by (auto simp: c3_def a(5) u(4,6))
    then show ?thesis unfolding t by (auto simp: tensor_get_def split: option.splits)
  qed
  with that [OF save(1) u(1) _ a(1) rd [unfolded sz_def]] u(2,4) a(2) show thesis by (simp add: c3_def)
qed

end
