(* ===== verification/Lifecycle_Props.thy ===== *)
theory Lifecycle_Props
  imports Core_Init Decode_Chunks Weight_Ops Demo
begin

text \<open>
  Properties of the engine's life cycle: the device profile on disk, the start of the engine behind it, the exchange of the thread
  pool, and decoding in chunk-aligned pieces.
\<close>


definition demo_profile :: device_profile where
  "demo_profile = \<lparr>dp_compression = ''FLEXGEN'', dp_soc = ''SM8650-AB'', decomp_gbps = 9 / 4, kv_read_gbps = 3 / 2, weight_read_gbps = 2\<rparr>"

lemma demo_profile_ok: "profile_ok demo_profile"
  by (simp add: profile_ok_def demo_profile_def profile_number_def power_int_minus)

definition demo_process :: process where
  "demo_process = \<lparr>on_android = True, properties = (\<lambda>k. if k = ''ro.soc.model'' then ''SM8650-AB'' else []),
     files = [''mzcache_device_profile_FLEXGEN.txt'' \<mapsto> profile_text demo_profile], getenv = (\<lambda>_. None)\<rparr>"

lemma demo_profiled: "profiled_process FLEXGEN demo_profile demo_process"
  unfolding profiled_process_def using demo_profile_ok
  by (simp add: demo_process_def demo_profile_def device_profile_path_def compression_name_def)

lemma demo_model: "model_loaded demo_layer 2 (\<lambda>i. Some (demo_layer i)) (\<lambda>i. if 0 \<le> i then Some (demo_layer i) else None)"
  by (simp add: model_loaded_def)

lemma demo_start_args: "known_model (sanitize_model_name ''Qwen3-0.6B'')" "ratio_env_ok demo_process"
  by (simp_all add: known_model_def sanitize_model_name_def ratio_env_ok_def demo_process_def)

lemma demo_started:
  "\<exists>e. mzcache_core FLEXGEN False demo_process 2 2 8 ''Qwen3-0.6B'' 2 (\<lambda>i. Some (demo_layer i))
     (\<lambda>i. if 0 \<le> i then Some (demo_layer i) else None) 0 demo_kv0 = Ok e"
  by (rule core_constructed [OF _ demo_profiled demo_start_args(2,1) _ _ _ _ demo_table demo_model, of False 0]) auto




text \<open>
  C18. Round trip of the device profile. A saved profile loads back with its compression and chipset unchanged and each throughput
  within one part in a hundred thousand of what was measured, the six significant digits the stream prints.
\<close>

theorem profile_roundtrip:
  assumes "profile_ok p" "save_device_profile True path p fs = (ok, fs')"
  shows "\<exists>q. load_device_profile fs' path out = (True, q) \<and> dp_compression q = dp_compression p \<and> dp_soc q = dp_soc p \<and>
    (\<forall>f\<in>{decomp_gbps, kv_read_gbps, weight_read_gbps}. \<bar>f q - f p\<bar> \<le> f p / 100000)"
proof -
  have "load_device_profile fs' path out = (True, stored_profile p)"
    by (rule load_saved [OF assms(1)]) (use assms(2) in \<open>auto simp: save_device_profile_def\<close>)
  moreover have "\<bar>f (stored_profile p) - f p\<bar> \<le> f p / 100000" if "f \<in> {decomp_gbps, kv_read_gbps, weight_read_gbps}" for f
    using that assms(1) stored_number(1) by (auto simp: stored_profile_def profile_ok_def)
  moreover have "dp_compression (stored_profile p) = dp_compression p" "dp_soc (stored_profile p) = dp_soc p"
    by (simp_all add: stored_profile_def)
  ultimately show ?thesis by blast
qed

theorem profile_roundtrip_witness:
  "\<exists>q. load_device_profile [''p'' \<mapsto> profile_text demo_profile] ''p'' device_profile0 = (True, q) \<and> dp_soc q = ''SM8650-AB'' \<and>
     \<bar>decomp_gbps q - 9 / 4\<bar> \<le> 9 / 400000"
  using profile_roundtrip [OF demo_profile_ok, of "''p''" "\<lambda>_. None" True "[''p'' \<mapsto> profile_text demo_profile]" device_profile0]
  by (auto simp: save_device_profile_def demo_profile_def)



text \<open>
  C16. Chunk-aligned decoding. Decoding a batch is decoding its pieces in order up to the first failure. The pieces are not
  empty, together they feed exactly the tokens, positions and output flags of the batch, and with ascending positions none of them
  crosses into another chunk of 256 tokens.
\<close>

theorem decode_chunk_aligned_pieces:
  assumes "0 < n_tokens b" "token b = Some ts" "pos b = Some ps" "nat (n_tokens b) \<le> length ps"
  shows "\<exists>subs. decode_chunk_aligned decode ctx b = Ok (decode_all decode subs ctx) \<and>
    concat (map (fed token) subs) = fed token b \<and> concat (map (fed pos) subs) = fed pos b \<and>
    concat (map (fed logits) subs) = fed logits b \<and> concat (map (fed seq_id) subs) = fed seq_id b \<and>
    (\<forall>s\<in>set subs. 0 < n_tokens s \<and>
       (ascending ps (nat (n_tokens b)) \<longrightarrow> (\<exists>c. \<forall>p\<in>set (fed pos s). p div 256 = c)))"
proof -
  obtain rs where rs: "ranges_from 0 rs (nat (n_tokens b))" "\<forall>r\<in>set rs. piece b ps r"
    "\<And>ctx. decode_loop decode b ps (nat (n_tokens b)) 0 ctx = Ok (decode_all decode (map (\<lambda>(i, j). sub_batch b i j) rs) ctx)"
    by (rule decode_loop_pieces [OF HOL.refl assms(4), of 0 decode]) simp_all
  have f: "token (sub_batch b i j) = map_option (drop i) (token b)" "pos (sub_batch b i j) = map_option (drop i) (pos b)"
    "logits (sub_batch b i j) = map_option (drop i) (logits b)" "seq_id (sub_batch b i j) = map_option (drop i) (seq_id b)" for i j
    by (simp_all add: sub_batch_def)
  note c = f [THEN fed_pieces [OF rs(1,2)]]
  have "0 < n_tokens (sub_batch b i j) \<and> (ascending ps (nat (n_tokens b)) \<longrightarrow> (\<exists>c. \<forall>p\<in>set (fed pos (sub_batch b i j)). p div 256 = c))"
    if "(i, j) \<in> set rs" for i j
  proof -
    have "piece b ps (i, j)" using rs(2) that by blast
    then show ?thesis using fed_pos_chunk(2) [OF _ _ assms(3,4)] by (auto simp: piece_def sub_batch_def)
  qed
  moreover have "decode_chunk_aligned decode ctx b = Ok (decode_all decode (map (\<lambda>(i, j). sub_batch b i j) rs) ctx)"
    using assms(1-3) by (simp add: decode_chunk_aligned_def rs(3))
  ultimately show ?thesis using c by (intro exI [of _ "map (\<lambda>(i, j). sub_batch b i j) rs"]) (auto simp del: map_map)
qed

theorem decode_chunk_aligned_pieces_witness:
  "\<exists>subs. decode_chunk_aligned (\<lambda>n s. (0, n + nat (n_tokens s))) 0
      \<lparr>n_tokens = 3, token = Some [5, 6, 7], embd = None, pos = Some [255, 256, 257], n_seq_id = None, seq_id = None, logits = None\<rparr>
    = Ok (decode_all (\<lambda>n s. (0, n + nat (n_tokens s))) subs 0) \<and> concat (map (fed token) subs) = [5, 6, 7]"
  using decode_chunk_aligned_pieces [of "\<lparr>n_tokens = 3, token = Some [5, 6, 7], embd = None, pos = Some [255, 256, 257], n_seq_id = None,
    seq_id = None, logits = None\<rparr>" "[5, 6, 7]" "[255, 256, 257]" "\<lambda>n s. (0, n + nat (n_tokens s))" 0]
  by (auto simp: fed_def)

text \<open>
  C17. A weight layer and its dump. Dumping a layer, unloading it, allocating it again and reading the dump succeed; unloading frees
  every buffer of the layer, and in the end every tensor of the model has the bytes it had, although the layer now lies in one
  buffer. Tensor sizes have to be multiples of the buffer alignment, which is what makes the dump's layout the allocator's.
\<close>

theorem weight_layer_roundtrip:
  assumes "layer_here c L f n" "0 < al" "al dvd base" "\<forall>t\<in>set (slice (tensors c) f (f + n)). al dvd nbytes t"
  shows "\<exists>d c1 c2 c3. save_weights_in_layer_to_file True path L c fs = (fs(path \<mapsto> d), Ok True) \<and>
    unload_buffers L c = (c1, True) \<and> (\<forall>b\<in>layer_buffers c f n. buf_mem c1 b = None) \<and>
    alloc_weight_layer True fresh base al L c1 = Ok (c2, True) \<and>
    read_layer_tensors (padded_num_bytes_per_layer c2) d L c2 = Ok (c3, True) \<and>
    (\<forall>i. i < length (tensors c) \<longrightarrow> tensor_get c3 (tensors c3 ! i) = tensor_get c (tensors c ! i))"
  by (rule layer_exchange [OF assms, of path fs fresh]) blast

definition demo_wctx :: wctx where
  "demo_wctx = \<lparr>tensors = [\<lparr>nbytes = 2, t_buffer = Some 0, t_data = Some 0, is_weight = False\<rparr>,
       \<lparr>nbytes = 4, t_buffer = Some 1, t_data = Some 0, is_weight = False\<rparr>, \<lparr>nbytes = 2, t_buffer = Some 2, t_data = Some 0, is_weight = False\<rparr>],
     child_buffers = [Some 0, Some 1, Some 2], buf_mem = [0 \<mapsto> [1, 2], 1 \<mapsto> [3, 4, 5, 6], 2 \<mapsto> [7, 8]], next_buf = 3,
     layer_first_tensor = [0 \<mapsto> 1], layer_0_tensor_idx = 1, num_tensors_per_layer = 2, num_bytes_per_layer = 6\<rparr>"

lemma demo_wctx_layer: "layer_here demo_wctx 0 1 2" "\<forall>t\<in>set (slice (tensors demo_wctx) 1 (1 + 2)). 2 dvd nbytes t"
proof -
  have i: "f \<le> i \<and> i < f + n \<longleftrightarrow> i = 1 \<or> i = 2" if "f = 1" "n = 2" for i f n :: nat using that by auto
  have l: "i < length (tensors demo_wctx) \<longleftrightarrow> i = 0 \<or> i = 1 \<or> i = 2" for i by (auto simp: demo_wctx_def)
  have b: "layer_buffers demo_wctx 1 2 = {1, 2}" 
    by (auto simp: layer_buffers_def demo_wctx_def less_Suc_eq)
  show "layer_here demo_wctx 0 1 2"
    unfolding layer_here_def b i [OF HOL.refl HOL.refl] l by (auto simp: demo_wctx_def tensor_get_def slice_def nth_Cons')
  show "\<forall>t\<in>set (slice (tensors demo_wctx) 1 (1 + 2)). 2 dvd nbytes t" by (simp add: demo_wctx_def slice_def)
qed

theorem weight_layer_roundtrip_witness:
  "\<exists>c1 c2 c3 d. alloc_weight_layer True (\<lambda>_. []) 0 2 0 c1 = Ok (c2, True) \<and> read_layer_tensors (padded_num_bytes_per_layer c2) d 0 c2 = Ok (c3, True) \<and>
     tensor_get c3 (tensors c3 ! 2) = Ok [7, 8]"
proof -
  have "tensor_get demo_wctx (tensors demo_wctx ! 2) = Ok [7, 8]" "2 < length (tensors demo_wctx)"
    by (simp_all add: demo_wctx_def tensor_get_def slice_def)
  with weight_layer_roundtrip [OF demo_wctx_layer(1) _ _ demo_wctx_layer(2), of 0 "''p''" "\<lambda>_. None" "\<lambda>_. []"] show ?thesis
    by fastforce
qed

end
