(* ===== verification/Bit_Pack.thy ===== *)
theory Bit_Pack
  imports Mz_Types
begin

text \<open>
  Bits and bytes of the CacheGen coder (\<open>mzcache/kernels/cachegen_utils.cpp\<close>): the packer, which collects bits in a 32-bit register
  and spills it into a byte vector, most significant bit first, and the reader of the decoder. The register is a number
  below \<open>2 ^ 32\<close> with its shifts written out; the fast paths for whole bytes are kept.

  Both are related to plain lists of bits: appending to the packer appends to the list, and reading yields the list followed by zeros.
\<close>

subsection \<open>The packer\<close>

record packer =
  output_reg :: nat
  output_reg_len :: nat
  out :: bytes

definition empty_packer :: packer where
  "empty_packer = \<lparr>output_reg = 0, output_reg_len = 0, out = []\<rparr>"

definition be_bytes :: "nat \<Rightarrow> bytes" where
  "be_bytes r = [of_nat (r div 2 ^ 24), of_nat (r div 2 ^ 16 mod 256), of_nat (r div 2 ^ 8 mod 256), of_nat (r mod 256)]"

definition spill_reg_to_vec :: "packer \<Rightarrow> packer" where
  "spill_reg_to_vec p =
     (let r = output_reg p * 2 ^ (32 - output_reg_len p) mod 2 ^ 32
      in \<lparr>output_reg = 0, output_reg_len = 0, out = out p @ be_bytes r\<rparr>)"

fun spill_bytes :: "nat \<Rightarrow> nat \<Rightarrow> bytes" where
  "spill_bytes 0 r = []"
| "spill_bytes (Suc k) r = of_nat (r div 2 ^ 24) # spill_bytes k (r * 256 mod 2 ^ 32)"

definition spill_partial_reg_to_vec :: "packer \<Rightarrow> packer" where
  "spill_partial_reg_to_vec p =
     (if output_reg_len p = 0 then p
      else \<lparr>output_reg = 0, output_reg_len = 0,
            out = out p @ spill_bytes ((output_reg_len p + 7) div 8) (output_reg p * 2 ^ (32 - output_reg_len p) mod 2 ^ 32)\<rparr>)"

text \<open>A register of all 32 bits at once is written directly. A full register takes no bits, so the loop stops making progress then.\<close>

function add_bits_slow :: "bool \<Rightarrow> nat \<Rightarrow> packer \<Rightarrow> packer" where
  "add_bits_slow b n p =
     (if n = 0 \<or> 32 \<le> output_reg_len p then p
      else
        let can = 32 - output_reg_len p; k = (if n < can then n else can) in
        if k = 32 then
          add_bits_slow b (n - k) \<lparr>output_reg = 0, output_reg_len = 0, out = out p @ be_bytes (if b then 2 ^ 32 - 1 else 0)\<rparr>
        else
          let r = output_reg p * 2 ^ k mod 2 ^ 32; r' = (if b then r + (2 ^ k - 1) else r);
              p' = p\<lparr>output_reg := r', output_reg_len := output_reg_len p + k\<rparr>
          in add_bits_slow b (n - k) (if output_reg_len p' = 32 then spill_reg_to_vec p' else p'))"
  by pat_completeness auto

termination
  by (relation "measure (\<lambda>(b, n, p). n)") (auto split: if_splits)

declare add_bits_slow.simps [simp del]

definition add_bits_run :: "bool \<Rightarrow> nat \<Rightarrow> packer \<Rightarrow> packer" where
  "add_bits_run b n p =
     (if n = 0 then p
      else
        let mod8 = output_reg_len p mod 8;
            k = (if mod8 \<noteq> 0 then (if n < 8 - mod8 then n else 8 - mod8) else 0);
            p1 = (if mod8 \<noteq> 0 then add_bits_slow b k p else p);
            n1 = n - k;
            whole = (8 \<le> n1 \<and> output_reg_len p1 = 0);
            p2 = (if whole then p1\<lparr>out := out p1 @ replicate (n1 div 8) (if b then 255 else 0)\<rparr> else p1);
            n2 = (if whole then n1 mod 8 else n1)
        in if n2 \<noteq> 0 then add_bits_slow b n2 p2 else p2)"

definition append_bit_and_pending :: "bool \<Rightarrow> nat \<Rightarrow> packer \<Rightarrow> packer" where
  "append_bit_and_pending b pending p =
     (let p1 = add_bits_run b 1 p in if pending \<noteq> 0 then add_bits_run (\<not> b) pending p1 else p1)"

subsection \<open>Lists of bits\<close>

fun nat_bits :: "nat \<Rightarrow> nat \<Rightarrow> bool list" where
  "nat_bits 0 v = []"
| "nat_bits (Suc k) v = nat_bits k (v div 2) @ [odd v]"

lemma length_nat_bits [simp]: "length (nat_bits k v) = k"
  by (induction k arbitrary: v) simp_all

lemma nat_bits_append: "nat_bits (m + k) v = nat_bits m (v div 2 ^ k) @ nat_bits k v"
  by (induction k arbitrary: v) (simp_all add: div_mult2_eq)

lemma nat_bits_mod: "nat_bits k (v mod 2 ^ k) = nat_bits k v"
proof (induction k arbitrary: v)
  case (Suc k)
  have "v mod 2 ^ Suc k div 2 = v div 2 mod 2 ^ k" by (simp add: mod_mult2_eq)
  moreover have "odd (v mod 2 ^ Suc k) = odd v" by (simp add: dvd_mod_iff)
  ultimately show ?case using Suc by simp
qed simp

lemma nat_bits_shift: "r < 2 ^ k \<Longrightarrow> nat_bits (m + k) (v * 2 ^ k + r) = nat_bits m v @ nat_bits k r"
  using nat_bits_mod [of k "v * 2 ^ k + r"] by (simp add: nat_bits_append)

lemma nat_bits_0: "nat_bits k 0 = replicate k False"
  by (induction k) (simp_all add: replicate_append_same)

lemma nat_bits_ones: "nat_bits k (2 ^ k - 1) = replicate k True"
proof (induction k)
  case (Suc k)
  have "(2 ^ Suc k - 1) div 2 = (2 ^ k - 1 :: nat)" by simp
  moreover have "odd (2 ^ Suc k - 1 :: nat)" by simp
  ultimately show ?case using Suc by (simp only: nat_bits.simps) (simp add: replicate_append_same)
qed simp

lemma nat_bits_const: "nat_bits k (if b then 2 ^ k - 1 else 0) = replicate k b"
  by (simp add: nat_bits_0 nat_bits_ones [unfolded One_nat_def])

definition byte_bits :: "8 word \<Rightarrow> bool list" where
  "byte_bits w = nat_bits 8 (unat w)"

definition bytes_bits :: "bytes \<Rightarrow> bool list" where
  "bytes_bits bs = concat (map byte_bits bs)"

lemma length_bytes_bits [simp]: "length (bytes_bits bs) = 8 * length bs"
  by (induction bs) (simp_all add: bytes_bits_def byte_bits_def)

lemma bytes_bits_append [simp]: "bytes_bits (xs @ ys) = bytes_bits xs @ bytes_bits ys" "bytes_bits [] = []"
  by (simp_all add: bytes_bits_def)

lemma byte_bits_of_nat: "byte_bits (of_nat v) = nat_bits 8 v"
  using nat_bits_mod [of 8 v] by (simp add: byte_bits_def unat_of_nat)

lemma be_bytes_bits: "bytes_bits (be_bytes r) = nat_bits 32 r"
proof -
  have "nat_bits 32 r = nat_bits 8 (r div 2 ^ 24) @ nat_bits 8 (r div 2 ^ 16) @ nat_bits 8 (r div 2 ^ 8) @ nat_bits 8 r"
    using nat_bits_append [of 8 24 r] nat_bits_append [of 8 16 r] nat_bits_append [of 8 8 r] by simp
  then show ?thesis
    using nat_bits_mod [of 8 r] nat_bits_mod [of 8 "r div 2 ^ 8"] nat_bits_mod [of 8 "r div 2 ^ 16"]
    by (simp add: be_bytes_def bytes_bits_def byte_bits_of_nat)
qed

subsection \<open>The packer collects a list of bits\<close>

definition packer_ok :: "packer \<Rightarrow> bool" where
  "packer_ok p \<longleftrightarrow> output_reg_len p < 32 \<and> output_reg p < 2 ^ output_reg_len p"

definition packer_bits :: "packer \<Rightarrow> bool list" where
  "packer_bits p = bytes_bits (out p) @ nat_bits (output_reg_len p) (output_reg p)"

lemma empty_packer_ok: "packer_ok empty_packer" "packer_bits empty_packer = []"
  by (simp_all add: packer_ok_def packer_bits_def empty_packer_def)

lemma add_bits_slow_ok:
  "packer_ok p \<Longrightarrow> packer_ok (add_bits_slow b n p) \<and> packer_bits (add_bits_slow b n p) = packer_bits p @ replicate n b"
proof (induction b n p rule: add_bits_slow.induct)
  case (1 b n p)
  define can where "can = 32 - output_reg_len p"
  define k where "k = (if n < can then n else can)"
  have len: "output_reg_len p < 32" "output_reg p < 2 ^ output_reg_len p" using 1(3) by (simp_all add: packer_ok_def)
  show ?case
  proof (cases "n = 0")
    case True
    then show ?thesis using 1(3) by (simp add: add_bits_slow.simps)
  next
    case False
    then have g: "\<not> (n = 0 \<or> 32 \<le> output_reg_len p)" using len by simp
    have k: "0 < k" "k \<le> n" "output_reg_len p + k \<le> 32" using False len by (auto simp: k_def can_def)
    show ?thesis
    proof (cases "k = 32")
      case True
      let ?p = "\<lparr>output_reg = 0, output_reg_len = 0, out = out p @ be_bytes (if b then 2 ^ 32 - 1 else 0)\<rparr>"
      have z: "output_reg_len p = 0" using True k(3) by simp
      have "packer_bits ?p = packer_bits p @ replicate 32 b"
        using nat_bits_const [of 32 b] by (simp only: packer_bits_def packer.simps bytes_bits_append be_bytes_bits) (simp add: z)
      moreover have "packer_ok ?p" by (simp add: packer_ok_def)
      moreover have "add_bits_slow b n p = add_bits_slow b (n - 32) ?p"
        using g True by (subst add_bits_slow.simps) (simp add: Let_def k_def can_def split: if_splits)
      moreover have "replicate n b = replicate 32 b @ replicate (n - 32) b" using k(2) True by (simp flip: replicate_add)
      ultimately show ?thesis
        using 1(1) [OF g can_def k_def True] by (simp only: True append.assoc) 
    next
      case False
      define r where "r = output_reg p * 2 ^ k mod 2 ^ 32"
      define r' where "r' = (if b then r + (2 ^ k - 1) else r)"
      define p' where "p' = p\<lparr>output_reg := r', output_reg_len := output_reg_len p + k\<rparr>"
      define q where "q = (if output_reg_len p' = 32 then spill_reg_to_vec p' else p')"
      have "output_reg p * 2 ^ k < 2 ^ (output_reg_len p + k)" using len by (simp add: power_add)
      also have "\<dots> \<le> 2 ^ 32" using k(3) by (rule power_increasing) simp
      finally have r: "r = output_reg p * 2 ^ k" by (simp add: r_def)
      then have r': "r' = output_reg p * 2 ^ k + (if b then 2 ^ k - 1 else 0)" by (simp add: r'_def)
      have c: "(if b then 2 ^ k - 1 else 0 :: nat) < 2 ^ k" by simp
      from nat_bits_shift [OF c, of "output_reg_len p" "output_reg p"]
      have bits: "nat_bits (output_reg_len p + k) r' = nat_bits (output_reg_len p) (output_reg p) @ replicate k b"
        unfolding r' nat_bits_const .
      have "(output_reg p + 1) * 2 ^ k \<le> 2 ^ output_reg_len p * 2 ^ k" using len by (intro mult_right_mono) auto
      moreover have "r' < (output_reg p + 1) * 2 ^ k" using c unfolding r' by (simp only: distrib_right mult_1)
      ultimately have lt: "r' < 2 ^ (output_reg_len p + k)" by (simp only: power_add)
      have q: "packer_ok q \<and> packer_bits q = packer_bits p @ replicate k b"
      proof (cases "output_reg_len p + k = 32")
        case True
        then have "q = \<lparr>output_reg = 0, output_reg_len = 0, out = out p @ be_bytes r'\<rparr>"
          using lt by (simp add: q_def p'_def spill_reg_to_vec_def Let_def)
        then show ?thesis using bits True by (simp add: packer_ok_def packer_bits_def be_bytes_bits)
      next
        case False
        then show ?thesis using bits k(3) lt by (simp add: q_def p'_def packer_ok_def packer_bits_def)
      qed
      have e: "add_bits_slow b n p = add_bits_slow b (n - k) q"
        using g False by (subst add_bits_slow.simps) (simp add: Let_def k_def [symmetric] can_def [symmetric] r_def r'_def p'_def q_def)
      have "replicate n b = replicate k b @ replicate (n - k) b" using k(2) by (simp flip: replicate_add)
      with q e 1(2) [OF g can_def k_def False r_def r'_def p'_def] show ?thesis by (simp add: q_def)
    qed
  qed
qed

lemma add_bits_run_ok:
  assumes "packer_ok p"
  shows "packer_ok (add_bits_run b n p) \<and> packer_bits (add_bits_run b n p) = packer_bits p @ replicate n b"
proof -
  define m where "m = output_reg_len p mod 8"
  define k where "k = (if m \<noteq> 0 then (if n < 8 - m then n else 8 - m) else 0)"
  define p1 where "p1 = (if m \<noteq> 0 then add_bits_slow b k p else p)"
  define w where "w = (8 \<le> n - k \<and> output_reg_len p1 = 0)"
  define p2 where "p2 = (if w then p1\<lparr>out := out p1 @ replicate ((n - k) div 8) (if b then 255 else 0)\<rparr> else p1)"
  define n2 where "n2 = (if w then (n - k) mod 8 else n - k)"
  have k: "k \<le> n" by (simp add: k_def)
  have p1: "packer_ok p1 \<and> packer_bits p1 = packer_bits p @ replicate k b"
    using add_bits_slow_ok [OF assms] assms by (simp add: p1_def k_def)
  have byte: "byte_bits (if b then 255 else 0) = replicate 8 b" using nat_bits_const [of 8 b] by (cases b) (simp_all add: byte_bits_def)
  have bytes: "bytes_bits (replicate x (if b then 255 else 0)) = replicate (8 * x) b" for x
    by (induction x) (simp_all add: bytes_bits_def byte flip: replicate_add)
  have "n - k = 8 * ((n - k) div 8) + (n - k) mod 8" by simp
  then have p2: "packer_ok p2 \<and> packer_bits p2 @ replicate n2 b = packer_bits p1 @ replicate (n - k) b"
    using conjunct1 [OF p1] by (auto simp: p2_def n2_def w_def packer_ok_def packer_bits_def bytes simp flip: replicate_add)
  have "replicate n b = replicate k b @ replicate (n - k) b" using k by (simp flip: replicate_add)
  with p1 p2 have r: "packer_bits p2 @ replicate n2 b = packer_bits p @ replicate n b" by simp
  have e: "add_bits_run b n p = (if n = 0 then p else if n2 \<noteq> 0 then add_bits_slow b n2 p2 else p2)"
    by (simp only: add_bits_run_def Let_def m_def [symmetric] k_def [symmetric] p1_def [symmetric] w_def [symmetric] p2_def [symmetric] n2_def [symmetric])
  show ?thesis
  proof (cases "n = 0")
    case False
    then show ?thesis using add_bits_slow_ok [of p2 b n2] p2 r by (auto simp: e)
  qed (use assms in \<open>simp add: add_bits_run_def\<close>)
qed

lemma append_bit_and_pending_ok:
  assumes "packer_ok p"
  shows "packer_ok (append_bit_and_pending b k p)" "packer_bits (append_bit_and_pending b k p) = packer_bits p @ b # replicate k (\<not> b)"
  using add_bits_run_ok [OF assms, of b 1] add_bits_run_ok [of "add_bits_run b 1 p" "\<not> b" k]
  by (auto simp: append_bit_and_pending_def Let_def)

lemma spill_bytes_bits: "8 * k \<le> 32 \<Longrightarrow> r < 2 ^ 32 \<Longrightarrow> bytes_bits (spill_bytes k r) = take (8 * k) (nat_bits 32 r)"
proof (induction k arbitrary: r)
  case (Suc k)
  have a: "nat_bits 32 r = nat_bits 8 (r div 2 ^ 24) @ nat_bits 24 r" using nat_bits_append [of 8 24 r] by simp
  have "nat_bits 32 (r * 256 mod 2 ^ 32) = nat_bits 32 (r * 2 ^ 8 + 0)" using nat_bits_mod [of 32 "r * 256"] by simp
  also have "\<dots> = nat_bits 24 r @ nat_bits 8 0" using nat_bits_shift [of 0 8 24 r] by simp
  finally have "take (8 * k) (nat_bits 32 (r * 256 mod 2 ^ 32)) = take (8 * k) (nat_bits 24 r)" using Suc.prems(1) by simp
  with Suc show ?case by (simp add: a bytes_bits_def byte_bits_of_nat)
qed simp

text \<open>After the final spill the bytes hold the bits, filled up with zeros.\<close>

lemma spill_partial_bits:
  assumes "packer_ok p"
  obtains z where "bytes_bits (out (spill_partial_reg_to_vec p)) = packer_bits p @ replicate z False" "z < 8"
proof (cases "output_reg_len p = 0")
  case True
  then show thesis using that [of 0] by (simp add: spill_partial_reg_to_vec_def packer_bits_def)
next
  case False
  define l where "l = output_reg_len p"
  define k where "k = (l + 7) div 8"
  have l: "0 < l" "l < 32" "output_reg p < 2 ^ l" using False assms by (auto simp: l_def packer_ok_def)
  have k: "8 * k \<le> 32" "l \<le> 8 * k" "8 * k - l < 8" using l(2) by (simp_all add: k_def)
  have "output_reg p * 2 ^ (32 - l) < 2 ^ l * 2 ^ (32 - l)" using l(3) by simp
  also have "\<dots> = 2 ^ 32" using l(2) by (simp flip: power_add)
  finally have r: "output_reg p * 2 ^ (32 - l) mod 2 ^ 32 = output_reg p * 2 ^ (32 - l)" "output_reg p * 2 ^ (32 - l) < 2 ^ 32" by simp_all
  have "nat_bits 32 (output_reg p * 2 ^ (32 - l)) = nat_bits l (output_reg p) @ replicate (32 - l) False"
    using nat_bits_shift [of 0 "32 - l" l "output_reg p"] l(2) by (simp add: nat_bits_0)
  then have "bytes_bits (spill_bytes k (output_reg p * 2 ^ (32 - l))) = nat_bits l (output_reg p) @ replicate (8 * k - l) False"
    using spill_bytes_bits [OF k(1) r(2)] k by (simp add: min_def)
  then have "bytes_bits (out (spill_partial_reg_to_vec p)) = packer_bits p @ replicate (8 * k - l) False"
    using False r(1) by (simp add: spill_partial_reg_to_vec_def packer_bits_def flip: l_def k_def)
  with k(3) that show thesis by blast
qed

subsection \<open>The reader\<close>

text \<open>\<open>struct BitReader\<close>; \<open>bs\<close> is the stream of the channel, whose length is the reader's limit.\<close>

record bit_reader =
  br_pos :: nat
  br_byte :: "8 word"
  bit_idx :: nat

definition BitReader :: "bytes \<Rightarrow> nat \<Rightarrow> bit_reader" where
  "BitReader bs start = \<lparr>br_pos = start, br_byte = (if start < length bs then bs ! start else 0), bit_idx = 1\<rparr>"

definition next_bit :: "bytes \<Rightarrow> bit_reader \<Rightarrow> nat \<times> bit_reader" where
  "next_bit bs r =
     (let b = unat (br_byte r) div 2 ^ (8 - bit_idx r) mod 2 in
      if bit_idx r + 1 = 9 then
        (b, r\<lparr>bit_idx := 1, br_pos := br_pos r + 1, br_byte := (if br_pos r + 1 < length bs then bs ! (br_pos r + 1) else 0)\<rparr>)
      else (b, r\<lparr>bit_idx := bit_idx r + 1\<rparr>))"

definition load_u32_be :: "bytes \<Rightarrow> nat" where
  "load_u32_be bs =
     (let f = (\<lambda>i. if i < length bs then unat (bs ! i) else 0) in f 0 * 2 ^ 24 + f 1 * 2 ^ 16 + f 2 * 2 ^ 8 + f 3)"

text \<open>The stream of bits the reader yields, and the number its first \<open>n\<close> bits stand for.\<close>

definition stream_bit :: "bytes \<Rightarrow> nat \<Rightarrow> bool" where
  "stream_bit bs i \<longleftrightarrow> i < 8 * length bs \<and> bytes_bits bs ! i"

fun prefix_val :: "(nat \<Rightarrow> bool) \<Rightarrow> nat \<Rightarrow> nat" where
  "prefix_val S 0 = 0"
| "prefix_val S (Suc n) = 2 * prefix_val S n + of_bool (S n)"

lemma prefix_val_add: "prefix_val S (n + k) = prefix_val S n * 2 ^ k + prefix_val (\<lambda>i. S (n + i)) k"
  by (induction k) (simp_all add: algebra_simps)

lemma prefix_val_cong: "(\<And>i. i < n \<Longrightarrow> S i = T i) \<Longrightarrow> prefix_val S n = prefix_val T n"
  by (induction n) simp_all

lemma prefix_val_zeros: "(\<And>i. i < k \<Longrightarrow> \<not> S i) \<Longrightarrow> prefix_val S k = 0"
  by (induction k) simp_all

lemma prefix_val_nat_bits: "prefix_val (\<lambda>i. nat_bits k v ! i) k = v mod 2 ^ k"
proof (induction k arbitrary: v)
  case (Suc k)
  have "prefix_val (\<lambda>i. nat_bits (Suc k) v ! i) k = prefix_val (\<lambda>i. nat_bits k (v div 2) ! i) k"
    by (rule prefix_val_cong) (simp add: nth_append)
  then have "prefix_val (\<lambda>i. nat_bits (Suc k) v ! i) (Suc k) = 2 * (v div 2 mod 2 ^ k) + v mod 2"
    using Suc by (simp add: nth_append mod_2_eq_odd)
  also have "\<dots> = v mod 2 ^ Suc k" by (simp add: mod_mult2_eq)
  finally show ?case .
qed simp

lemma nth_nat_bits: "j < k \<Longrightarrow> nat_bits k v ! j = odd (v div 2 ^ (k - 1 - j))"
proof (induction k arbitrary: v)
  case (Suc k)
  show ?case
  proof (cases "j = k")
    case False
    then have "j < k" "2 * 2 ^ (k - 1 - j) = (2 :: nat) ^ (k - j)" using Suc.prems by (simp_all flip: power_Suc add: Suc_diff_Suc)
    then show ?thesis using Suc.IH [of "v div 2"] by (simp add: nth_append div_mult2_eq [symmetric])
  qed (simp add: nth_append)
qed simp

lemma nth_bytes_bits: "j < 8 \<Longrightarrow> q < length bs \<Longrightarrow> bytes_bits bs ! (8 * q + j) = byte_bits (bs ! q) ! j"
proof (induction bs arbitrary: q)
  case (Cons b bs)
  have e: "bytes_bits (b # bs) = byte_bits b @ bytes_bits bs" "length (byte_bits b) = 8" by (simp_all add: bytes_bits_def byte_bits_def)
  show ?case
  proof (cases q)
    case 0
    with Cons.prems show ?thesis by (simp add: e nth_append)
  next
    case (Suc r)
    then have "bytes_bits (b # bs) ! (8 * q + j) = bytes_bits bs ! (8 * r + j)" by (simp add: e nth_append)
    with Cons Suc show ?thesis by simp
  qed
qed simp

definition byte_at :: "bytes \<Rightarrow> nat \<Rightarrow> 8 word" where
  "byte_at bs q = (if q < length bs then bs ! q else 0)"

lemma stream_bit_byte: "j < 8 \<Longrightarrow> stream_bit bs (8 * q + j) = odd (unat (byte_at bs q) div 2 ^ (7 - j))"
  by (auto simp: stream_bit_def byte_at_def nth_bytes_bits byte_bits_def nth_nat_bits)

definition reader_at :: "bytes \<Rightarrow> nat \<Rightarrow> bit_reader \<Rightarrow> bool" where
  "reader_at bs i r \<longleftrightarrow> (\<exists>q j. j < 8 \<and> i = 8 * q + j \<and> br_pos r = q \<and> bit_idx r = j + 1 \<and> br_byte r = byte_at bs q)"

lemma BitReader_at: "reader_at bs (8 * q) (BitReader bs q)"
  unfolding reader_at_def by (intro exI [of _ q] exI [of _ 0]) (simp add: BitReader_def byte_at_def)

lemma next_bit_at:
  assumes "reader_at bs i r"
  obtains r' where "next_bit bs r = (of_bool (stream_bit bs i), r')" "reader_at bs (i + 1) r'"
proof -
  obtain q j where q: "j < 8" "i = 8 * q + j" "br_pos r = q" "bit_idx r = j + 1" "br_byte r = byte_at bs q"
    using assms by (auto simp: reader_at_def)
  have b: "unat (br_byte r) div 2 ^ (8 - bit_idx r) mod 2 = of_bool (stream_bit bs i)"
    using stream_bit_byte [OF q(1), of bs q] by (simp add: q mod_2_eq_odd)
  show thesis
  proof (cases "j = 7")
    case True
    have "reader_at bs (i + 1) (r\<lparr>bit_idx := 1, br_pos := br_pos r + 1, br_byte := byte_at bs (br_pos r + 1)\<rparr>)"
      unfolding reader_at_def by (intro exI [of _ "q + 1"] exI [of _ 0]) (simp add: q True)
    moreover have "next_bit bs r = (of_bool (stream_bit bs i), r\<lparr>bit_idx := 1, br_pos := br_pos r + 1, br_byte := byte_at bs (br_pos r + 1)\<rparr>)"
      unfolding next_bit_def b by (simp add: q(4) True byte_at_def)
    ultimately show thesis using that by blast
  next
    case False
    have "reader_at bs (i + 1) (r\<lparr>bit_idx := bit_idx r + 1\<rparr>)"
      unfolding reader_at_def by (intro exI [of _ q] exI [of _ "j + 1"]) (use q False in simp)
    with that b False show thesis by (simp add: next_bit_def Let_def q)
  qed
qed

lemma prefix_val_byte: "prefix_val (stream_bit bs) (8 * q + 8) = prefix_val (stream_bit bs) (8 * q) * 256 + unat (byte_at bs q)"
proof -
  have "prefix_val (\<lambda>i. stream_bit bs (8 * q + i)) 8 = prefix_val (\<lambda>i. nat_bits 8 (unat (byte_at bs q)) ! i) 8"
    by (rule prefix_val_cong) (simp add: stream_bit_byte nth_nat_bits)
  also have "\<dots> = unat (byte_at bs q)"
    unfolding prefix_val_nat_bits by (rule mod_less, rule less_le_trans [OF unsigned_less]) simp
  finally show ?thesis by (simp add: prefix_val_add)
qed

lemma load_u32_be_val: "load_u32_be bs = prefix_val (stream_bit bs) 32"
  using prefix_val_byte [of bs 0] prefix_val_byte [of bs 1] prefix_val_byte [of bs 2] prefix_val_byte [of bs 3]
  by (simp add: load_u32_be_def Let_def byte_at_def)

end
