(* ===== verification/Range_Coder.thy ===== *)
theory Range_Coder
  imports Bit_Pack
begin

text \<open>
  The range coder of the CACHEGEN build, one channel of a piece of 16 tokens: the loop bodies of \<open>encode_ntokens_cpu_new_range\<close> and
  \<open>decode_ntokens_cpu_new_range\<close> (\<open>mzcache/kernels/cachegen_utils.cpp\<close>). The registers are integers with the wrap-around of \<open>uint32_t\<close>
  and \<open>uint64_t\<close> written out. The renormalisation loop doubles the range until it is large enough; with a range of 0 it never ends,
  which is the value \<open>None\<close>.

  The encoder is written over the routine that appends a bit and its pending complements, so that the packer of the program and
  plain lists of bits share it. The proof follows the interval: \<open>acc\<close> is the left end of the encoder's interval in units of the last
  bit, and the number the decoder has read stays inside the interval.
\<close>

abbreviation HALF :: int where "HALF \<equiv> 2147483648"
abbreviation QUARTER :: int where "QUARTER \<equiv> 1073741824"
abbreviation TOP32 :: int where "TOP32 \<equiv> 4294967296"

subsection \<open>Intervals of symbols\<close>

definition cdf_lo :: "int list \<Rightarrow> nat \<Rightarrow> int" where
  "cdf_lo cdf s = cdf ! s"

definition cdf_hi :: "int list \<Rightarrow> nat \<Rightarrow> int" where
  "cdf_hi cdf s = (if s = length cdf - 2 then 65536 else cdf ! (s + 1))"

text \<open>Strictly increasing 16-bit values from 0; the last but one belongs to the last symbol.\<close>

definition cdf_ok :: "int list \<Rightarrow> bool" where
  "cdf_ok cdf \<longleftrightarrow> 3 \<le> length cdf \<and> cdf ! 0 = 0 \<and> (\<forall>i j. i < j \<and> j < length cdf \<longrightarrow> cdf ! i < cdf ! j) \<and>
     (\<forall>i. i < length cdf \<longrightarrow> cdf ! i < 65536)"

lemma cdf_interval:
  assumes "cdf_ok cdf" "s \<le> length cdf - 2"
  shows "0 \<le> cdf_lo cdf s" "cdf_lo cdf s < cdf_hi cdf s" "cdf_hi cdf s \<le> 65536"
proof -
  have b: "3 \<le> length cdf" "cdf ! 0 = 0" "\<And>i j. i < j \<Longrightarrow> j < length cdf \<Longrightarrow> cdf ! i < cdf ! j" "\<And>i. i < length cdf \<Longrightarrow> cdf ! i < 65536"
    using assms(1) by (auto simp: cdf_ok_def)
  have s: "s < length cdf" "s \<noteq> length cdf - 2 \<Longrightarrow> s + 1 < length cdf" using assms(2) b(1) by auto
  show "0 \<le> cdf_lo cdf s" using b(2) b(3) [of 0 s] s(1) by (cases "s = 0") (auto simp: cdf_lo_def)
  show "cdf_lo cdf s < cdf_hi cdf s" using b(3) [of s "s + 1"] b(4) s by (simp add: cdf_lo_def cdf_hi_def)
  show "cdf_hi cdf s \<le> 65536" using b(4) [of "s + 1"] s by (auto simp: cdf_hi_def)
qed

subsection \<open>The encoder\<close>

record 'o rc_enc =
  e_low :: int
  e_range :: int
  e_pending :: nat
  e_out :: 'o

definition rc_init :: "'o \<Rightarrow> 'o rc_enc" where
  "rc_init o0 = \<lparr>e_low = 0, e_range = 4294967295, e_pending = 0, e_out = o0\<rparr>"

definition rc_narrow :: "int list \<Rightarrow> nat \<Rightarrow> 'o rc_enc \<Rightarrow> 'o rc_enc" where
  "rc_narrow cdf x s =
     s\<lparr>e_low := (e_low s + e_range s * cdf_lo cdf x div 65536) mod TOP32,
       e_range := e_range s * ((cdf_hi cdf x - cdf_lo cdf x) mod TOP32) div 65536 mod TOP32\<rparr>"

definition rc_emit :: "(bool \<Rightarrow> nat \<Rightarrow> 'o \<Rightarrow> 'o) \<Rightarrow> 'o rc_enc \<Rightarrow> 'o rc_enc" where
  "rc_emit ap s =
     (if e_low s < QUARTER then s\<lparr>e_out := ap False (e_pending s) (e_out s), e_pending := 0\<rparr>
      else if HALF \<le> e_low s then s\<lparr>e_out := ap True (e_pending s) (e_out s), e_pending := 0, e_low := e_low s - HALF\<rparr>
      else s\<lparr>e_pending := e_pending s + 1, e_low := e_low s - QUARTER\<rparr>)"

definition rc_double :: "'o rc_enc \<Rightarrow> 'o rc_enc" where
  "rc_double s = s\<lparr>e_low := 2 * e_low s mod TOP32, e_range := 2 * e_range s mod TOP32\<rparr>"

lemma rc_emit_range [simp]: "e_range (rc_emit ap s) = e_range s"
  by (simp add: rc_emit_def)

function rc_renorm :: "(bool \<Rightarrow> nat \<Rightarrow> 'o \<Rightarrow> 'o) \<Rightarrow> 'o rc_enc \<Rightarrow> 'o rc_enc option" where
  "rc_renorm ap s =
     (if e_range s \<le> QUARTER then if e_range s \<le> 0 then None else rc_renorm ap (rc_double (rc_emit ap s)) else Some s)"
  by pat_completeness auto

termination
proof (relation "measure (\<lambda>(ap, s). nat (QUARTER + 1 - e_range s))")
  fix ap :: "bool \<Rightarrow> nat \<Rightarrow> 'o \<Rightarrow> 'o" and s :: "'o rc_enc"
  assume "e_range s \<le> QUARTER" "\<not> e_range s \<le> 0"
  then have "2 * e_range s mod TOP32 = 2 * e_range s" by (intro mod_pos_pos_trivial) auto
  with \<open>\<not> e_range s \<le> 0\<close> \<open>e_range s \<le> QUARTER\<close>
  show "((ap, rc_double (rc_emit ap s)), ap, s) \<in> measure (\<lambda>(ap, s). nat (QUARTER + 1 - e_range s))" by (simp add: rc_double_def)
qed simp

declare rc_renorm.simps [simp del]

fun rc_symbols :: "(bool \<Rightarrow> nat \<Rightarrow> 'o \<Rightarrow> 'o) \<Rightarrow> int list \<Rightarrow> nat list \<Rightarrow> 'o rc_enc \<Rightarrow> 'o rc_enc option" where
  "rc_symbols ap cdf [] s = Some s"
| "rc_symbols ap cdf (x # xs) s = (case rc_renorm ap (rc_narrow cdf x s) of None \<Rightarrow> None | Some s' \<Rightarrow> rc_symbols ap cdf xs s')"

definition rc_finish :: "(bool \<Rightarrow> nat \<Rightarrow> 'o \<Rightarrow> 'o) \<Rightarrow> 'o rc_enc \<Rightarrow> 'o" where
  "rc_finish ap s = ap (\<not> e_low s < QUARTER) (e_pending s + 1) (e_out s)"

text \<open>One channel; symbols above the largest one are clamped.\<close>

definition clamp_symbol :: "int list \<Rightarrow> nat \<Rightarrow> nat" where
  "clamp_symbol cdf x = (if length cdf - 2 < x then length cdf - 2 else x)"

definition encode_state :: "int list \<Rightarrow> nat list \<Rightarrow> packer rc_enc option" where
  "encode_state cdf xs = rc_symbols append_bit_and_pending cdf (map (clamp_symbol cdf) xs) (rc_init empty_packer)"

definition encode_channel :: "int list \<Rightarrow> nat list \<Rightarrow> bytes option" where
  "encode_channel cdf xs = map_option (\<lambda>s. out (spill_partial_reg_to_vec (rc_finish append_bit_and_pending s))) (encode_state cdf xs)"

subsection \<open>The decoder\<close>

record rc_dec =
  d_low :: int
  d_range :: int
  d_value :: int
  d_reader :: bit_reader

lemma mid_bounds: "lo \<le> hi \<Longrightarrow> lo \<le> (lo + hi) div 2 \<and> (lo + hi) div 2 \<le> (hi :: int)"
  by presburger

text \<open>The upper bound of the last symbol, \<open>0x10000\<close>, is stored in a 16-bit variable and becomes 0.\<close>

function binsearch_loop :: "int list \<Rightarrow> int \<Rightarrow> int \<Rightarrow> int \<Rightarrow> nat" where
  "binsearch_loop cdf count lo hi =
     (if lo \<le> hi then
        let mid = (lo + hi) div 2;
            c_lo = cdf ! nat mid;
            c_hi = (if mid = int (length cdf) - 2 then 65536 mod 65536 else cdf ! nat (mid + 1))
        in if count < c_lo then binsearch_loop cdf count lo (mid - 1)
           else if c_hi \<le> count then binsearch_loop cdf count (mid + 1) hi
           else nat mid
      else if lo \<le> 0 then 0 else if lo > int (length cdf) - 2 then length cdf - 2 else nat (lo - 1))"
  by pat_completeness auto

termination
proof (relation "measure (\<lambda>(cdf, count, lo, hi). nat (hi - lo + 1))")
  fix cdf :: "int list" and count lo hi mid :: int assume "lo \<le> hi" "mid = (lo + hi) div 2"
  with mid_bounds [of lo hi] have m: "lo \<le> mid" "mid \<le> hi" by auto
  then show "((cdf, count, lo, mid - 1), cdf, count, lo, hi) \<in> measure (\<lambda>(cdf, count, lo, hi). nat (hi - lo + 1))"
    "((cdf, count, mid + 1, hi), cdf, count, lo, hi) \<in> measure (\<lambda>(cdf, count, lo, hi). nat (hi - lo + 1))" by auto
qed simp

declare binsearch_loop.simps [simp del]

definition binsearch_symbol :: "int list \<Rightarrow> int \<Rightarrow> nat" where
  "binsearch_symbol cdf count = binsearch_loop cdf count 0 (int (length cdf) - 2)"

definition dec_count :: "rc_dec \<Rightarrow> int" where
  "dec_count d = (((d_value d - d_low d + 1) mod 2 ^ 64 * 65536 - 1) mod 2 ^ 64 div d_range d) mod 65536"

definition dec_narrow :: "int list \<Rightarrow> nat \<Rightarrow> rc_dec \<Rightarrow> rc_dec" where
  "dec_narrow cdf x d =
     d\<lparr>d_low := (d_low d + d_range d * cdf_lo cdf x div 65536) mod TOP32,
       d_range := d_range d * ((cdf_hi cdf x - cdf_lo cdf x) mod TOP32) div 65536 mod TOP32\<rparr>"

definition dec_shift :: "bytes \<Rightarrow> rc_dec \<Rightarrow> rc_dec" where
  "dec_shift bs d =
     (let sub = (if HALF \<le> d_low d then HALF else if QUARTER \<le> d_low d then QUARTER else 0);
          (b, r) = next_bit bs (d_reader d)
      in \<lparr>d_low = 2 * (d_low d - sub) mod TOP32, d_range = 2 * d_range d mod TOP32,
          d_value = (2 * ((d_value d - sub) mod TOP32) mod TOP32) + int b, d_reader = r\<rparr>)"

function dec_renorm :: "bytes \<Rightarrow> rc_dec \<Rightarrow> rc_dec option" where
  "dec_renorm bs d =
     (if d_range d \<le> QUARTER then if d_range d \<le> 0 then None else dec_renorm bs (dec_shift bs d) else Some d)"
  by pat_completeness auto

termination
proof (relation "measure (\<lambda>(bs, d). nat (QUARTER + 1 - d_range d))")
  fix bs and d :: rc_dec assume "d_range d \<le> QUARTER" "\<not> d_range d \<le> 0"
  then have "2 * d_range d mod TOP32 = 2 * d_range d" by (intro mod_pos_pos_trivial) auto
  with \<open>\<not> d_range d \<le> 0\<close> \<open>d_range d \<le> QUARTER\<close>
  show "((bs, dec_shift bs d), bs, d) \<in> measure (\<lambda>(bs, d). nat (QUARTER + 1 - d_range d))"
    by (simp add: dec_shift_def Let_def split: prod.splits)
qed simp

declare dec_renorm.simps [simp del]

text \<open>After the last token nothing more is read.\<close>

fun dec_symbols :: "bytes \<Rightarrow> int list \<Rightarrow> nat \<Rightarrow> rc_dec \<Rightarrow> nat list option" where
  "dec_symbols bs cdf 0 d = Some []"
| "dec_symbols bs cdf (Suc k) d =
     (let x = binsearch_symbol cdf (dec_count d) in
      if k = 0 then Some [x]
      else case dec_renorm bs (dec_narrow cdf x d) of None \<Rightarrow> None
        | Some d' \<Rightarrow> map_option (\<lambda>r. x # r) (dec_symbols bs cdf k d'))"

definition decode_channel :: "int list \<Rightarrow> nat \<Rightarrow> bytes \<Rightarrow> nat list option" where
  "decode_channel cdf n bs =
     dec_symbols bs cdf n \<lparr>d_low = 0, d_range = 4294967295, d_value = int (load_u32_be bs), d_reader = BitReader bs 4\<rparr>"

subsection \<open>The packer and lists of bits\<close>

definition bits_append :: "bool \<Rightarrow> nat \<Rightarrow> bool list \<Rightarrow> bool list" where
  "bits_append b k bs = bs @ b # replicate k (\<not> b)"

text \<open>The state of an encoder and the one over lists of bits.\<close>

definition enc_bits :: "('o \<Rightarrow> bool list) \<Rightarrow> 'o rc_enc \<Rightarrow> bool list rc_enc" where
  "enc_bits bits s = \<lparr>e_low = e_low s, e_range = e_range s, e_pending = e_pending s, e_out = bits (e_out s)\<rparr>"

lemma enc_bits_double: "enc_bits bits (rc_double s) = rc_double (enc_bits bits s)" "e_out (rc_double s) = e_out s"
  by (simp_all add: enc_bits_def rc_double_def)

text \<open>What the encoder relies on of its output: a bit and its complements are appended to the bits written so far.\<close>

locale bit_sink =
  fixes ap :: "bool \<Rightarrow> nat \<Rightarrow> 'o \<Rightarrow> 'o" and bits :: "'o \<Rightarrow> bool list" and sink_ok :: "'o \<Rightarrow> bool"
  assumes ap_bits: "sink_ok p \<Longrightarrow> bits (ap b k p) = bits_append b k (bits p)"
    and ap_ok: "sink_ok p \<Longrightarrow> sink_ok (ap b k p)"
begin

lemma emit_sim:
  assumes "sink_ok (e_out s)"
  shows "enc_bits bits (rc_emit ap s) = rc_emit bits_append (enc_bits bits s)" "sink_ok (e_out (rc_emit ap s))"
  using ap_bits [OF assms] ap_ok [OF assms] assms by (simp_all add: rc_emit_def enc_bits_def)

lemma renorm_sim:
  assumes "sink_ok (e_out s)"
  shows "rc_renorm bits_append (enc_bits bits s) = map_option (enc_bits bits) (rc_renorm ap s) \<and>
    pred_option (\<lambda>s'. sink_ok (e_out s')) (rc_renorm ap s)"
  using assms
proof (induction a \<equiv> ap s rule: rc_renorm.induct)
  case (1 s)
  have r: "e_range (enc_bits bits s) = e_range s" by (simp add: enc_bits_def)
  show ?case
  proof (cases "e_range s \<le> QUARTER \<and> \<not> e_range s \<le> 0")
    case True
    let ?t = "rc_double (rc_emit ap s)"
    have "enc_bits bits ?t = rc_double (rc_emit bits_append (enc_bits bits s))" "sink_ok (e_out ?t)"
      using emit_sim [OF 1(2)] by (simp_all add: enc_bits_double)
    then show ?thesis using True 1(1) r by (simp add: rc_renorm.simps [of _ s] rc_renorm.simps [of _ "enc_bits bits s"])
  next
    case False
    then show ?thesis using 1(2) r by (auto simp: rc_renorm.simps [of _ s] rc_renorm.simps [of _ "enc_bits bits s"])
  qed
qed

lemma symbols_sim:
  assumes "sink_ok (e_out s)"
  shows "rc_symbols bits_append cdf xs (enc_bits bits s) = map_option (enc_bits bits) (rc_symbols ap cdf xs s) \<and>
    pred_option (\<lambda>s'. sink_ok (e_out s')) (rc_symbols ap cdf xs s)"
  using assms
proof (induction xs arbitrary: s)
  case (Cons x xs)
  have "sink_ok (e_out (rc_narrow cdf x s))" "enc_bits bits (rc_narrow cdf x s) = rc_narrow cdf x (enc_bits bits s)"
    using Cons.prems by (simp_all add: rc_narrow_def enc_bits_def)
  with renorm_sim [of "rc_narrow cdf x s"] Cons.IH show ?case by (cases "rc_renorm ap (rc_narrow cdf x s)") auto
qed simp

lemma finish_sim: "sink_ok (e_out s) \<Longrightarrow> bits (rc_finish ap s) = rc_finish bits_append (enc_bits bits s) \<and> sink_ok (rc_finish ap s)"
  by (simp add: rc_finish_def ap_bits ap_ok enc_bits_def)

end

interpretation packer_sink: bit_sink append_bit_and_pending packer_bits packer_ok
  by unfold_locales (simp_all add: append_bit_and_pending_ok bits_append_def)

subsection \<open>The interval of the encoder\<close>

definition bits_val :: "bool list \<Rightarrow> int" where
  "bits_val bs = foldl (\<lambda>a b. 2 * a + of_bool b) 0 bs"

lemma bits_val_simps [simp]: "bits_val [] = 0" "bits_val (bs @ [b]) = 2 * bits_val bs + of_bool b"
  by (simp_all add: bits_val_def)

lemma bits_val_replicate: "bits_val (bs @ replicate k b) = bits_val bs * 2 ^ k + (if b then 2 ^ k - 1 else 0)"
proof (induction k)
  case (Suc k)
  have "bits_val (bs @ replicate (Suc k) b) = bits_val ((bs @ replicate k b) @ [b])" by (simp add: replicate_append_same)
  also have "\<dots> = 2 * bits_val (bs @ replicate k b) + of_bool b" by (rule bits_val_simps(2))
  finally show ?case unfolding Suc by (simp add: algebra_simps)
qed simp

lemma bits_val_append: "bits_val (bits_append b k bs) = bits_val bs * 2 ^ (k + 1) + (if b then 2 ^ k else 2 ^ k - 1)"
  using bits_val_replicate [of "bs @ [b]" k "\<not> b"] by (simp add: bits_append_def algebra_simps)

definition acc :: "bool list rc_enc \<Rightarrow> int" where
  "acc s = HALF * (2 ^ (e_pending s + 1) * bits_val (e_out s) + 2 ^ e_pending s - 1) + e_low s"

definition emitted :: "bool list rc_enc \<Rightarrow> nat" where
  "emitted s = length (e_out s) + e_pending s"

text \<open>The number of the first bits of the code lies in the interval.\<close>

definition inside :: "(nat \<Rightarrow> bool) \<Rightarrow> bool list rc_enc \<Rightarrow> bool" where
  "inside S s \<longleftrightarrow> acc s \<le> int (prefix_val S (32 + emitted s)) \<and> int (prefix_val S (32 + emitted s)) < acc s + e_range s"

definition bounded :: "'o rc_enc \<Rightarrow> bool" where
  "bounded s \<longleftrightarrow> 0 \<le> e_low s \<and> 0 < e_range s \<and> e_low s + e_range s \<le> TOP32 \<and> e_range s < TOP32"

lemma emit_step:
  assumes "bounded s" "e_range s \<le> QUARTER" "t = rc_double (rc_emit bits_append s)"
  shows "bounded t" "acc t = 2 * acc s" "emitted t = emitted s + 1" "e_range t = 2 * e_range s"
    "e_low t = 2 * (e_low s - (if HALF \<le> e_low s then HALF else if QUARTER \<le> e_low s then QUARTER else 0))"
proof -
  have b: "0 \<le> e_low s" "0 < e_range s" "e_low s + e_range s \<le> TOP32" using assms(1) by (auto simp: bounded_def)
  show r: "e_range t = 2 * e_range s" using b assms(2) by (simp add: assms(3) rc_double_def)
  show l: "e_low t = 2 * (e_low s - (if HALF \<le> e_low s then HALF else if QUARTER \<le> e_low s then QUARTER else 0))"
    using b by (auto simp: assms(3) rc_double_def rc_emit_def)
  show "bounded t" using b assms(2) unfolding bounded_def r l by auto
  show "emitted t = emitted s + 1" by (simp add: assms(3) rc_double_def rc_emit_def emitted_def bits_append_def)
  show "acc t = 2 * acc s"
    unfolding acc_def [of t] l unfolding assms(3) by (auto simp: acc_def rc_double_def rc_emit_def bits_val_append algebra_simps)
qed

lemma inside_step:
  assumes "bounded s" "e_range s \<le> QUARTER" "inside S (rc_double (rc_emit bits_append s))" shows "inside S s"
proof -
  note e = emit_step [OF assms(1,2) HOL.refl]
  define X where "X = int (prefix_val S (32 + emitted s))"
  have "32 + (emitted s + 1) = Suc (32 + emitted s)" by simp
  then have "int (prefix_val S (32 + (emitted s + 1))) = 2 * X + of_bool (S (32 + emitted s))"
    by (simp only: prefix_val.simps X_def of_nat_add of_nat_mult of_nat_numeral of_nat_of_bool)
  with assms(3) have "2 * acc s \<le> 2 * X + of_bool (S (32 + emitted s))" "2 * X + of_bool (S (32 + emitted s)) < 2 * acc s + 2 * e_range s"
    by (simp_all only: inside_def e)
  then have "acc s \<le> X" "X < acc s + e_range s" by (cases "S (32 + emitted s)"; simp)+
  then show ?thesis by (simp add: inside_def X_def)
qed

lemma narrow_bounds:
  assumes "cdf_ok cdf" "x \<le> length cdf - 2" "bounded s" "QUARTER < e_range s"
  shows "bounded (rc_narrow cdf x s)" "e_low (rc_narrow cdf x s) = e_low s + e_range s * cdf_lo cdf x div 65536"
    "e_range (rc_narrow cdf x s) = e_range s * (cdf_hi cdf x - cdf_lo cdf x) div 65536" "16384 \<le> e_range (rc_narrow cdf x s)"
    "e_range s * cdf_lo cdf x div 65536 + e_range s * (cdf_hi cdf x - cdf_lo cdf x) div 65536 \<le> e_range s * cdf_hi cdf x div 65536"
proof -
  define r where "r = e_range s"
  define a where "a = cdf_lo cdf x"
  define z where "z = cdf_hi cdf x"
  note c = cdf_interval [OF assms(1,2), folded a_def z_def]
  have b: "0 \<le> e_low s" "QUARTER < r" "e_low s + r \<le> TOP32" "r < TOP32" using assms(3,4) by (auto simp: bounded_def r_def)
  have div_sum: "u div 65536 + v div 65536 \<le> (u + v) div 65536" for u v :: int
    using zdiv_mono1 [of "65536 * (u div 65536 + v div 65536)" "u + v" 65536]
      div_mult_mod_eq [of u 65536] div_mult_mod_eq [of v 65536] pos_mod_sign [of 65536 u] pos_mod_sign [of 65536 v] by linarith
  have "r * a + r * (z - a) = r * z" by (simp add: algebra_simps)
  with div_sum [of "r * a" "r * (z - a)"] have sum: "r * a div 65536 + r * (z - a) div 65536 \<le> r * z div 65536" by simp
  have "r * z div 65536 \<le> 65536 * r div 65536" using b c by (intro zdiv_mono1) simp_all
  then have top: "r * z div 65536 \<le> r" by simp
  have "QUARTER \<le> r * (z - a)" using mult_left_mono [of 1 "z - a" r] b c by linarith
  then have "QUARTER div 65536 \<le> r * (z - a) div 65536" by (intro zdiv_mono1) simp_all
  then have sz: "16384 \<le> r * (z - a) div 65536" by simp
  have "0 \<le> r * a" using b c by simp
  then have "0 \<le> r * a div 65536" by (rule pos_imp_zdiv_nonneg_iff [THEN iffD2, rotated]) simp
  with sum top sz b have fits: "0 \<le> e_low s + r * a div 65536" "e_low s + r * a div 65536 < TOP32" "r * (z - a) div 65536 < TOP32"
    "e_low s + r * a div 65536 + r * (z - a) div 65536 \<le> TOP32" by linarith+
  have m: "(z - a) mod TOP32 = z - a" using c by (intro mod_pos_pos_trivial) auto
  show l: "e_low (rc_narrow cdf x s) = e_low s + e_range s * cdf_lo cdf x div 65536"
    using fits by (simp add: rc_narrow_def flip: r_def a_def)
  show g: "e_range (rc_narrow cdf x s) = e_range s * (cdf_hi cdf x - cdf_lo cdf x) div 65536"
    using fits sz m by (simp add: rc_narrow_def flip: r_def a_def z_def)
  show "16384 \<le> e_range (rc_narrow cdf x s)" using sz unfolding g by (simp add: r_def a_def z_def)
  show "bounded (rc_narrow cdf x s)" using fits sz unfolding bounded_def l g r_def a_def z_def by simp
  show "e_range s * cdf_lo cdf x div 65536 + e_range s * (cdf_hi cdf x - cdf_lo cdf x) div 65536 \<le> e_range s * cdf_hi cdf x div 65536"
    using sum by (simp add: r_def a_def z_def)
qed

lemma inside_narrow:
  assumes "cdf_ok cdf" "x \<le> length cdf - 2" "bounded s" "QUARTER < e_range s" "inside S (rc_narrow cdf x s)"
  shows "inside S s"
proof -
  note n = narrow_bounds [OF assms(1-4)]
  have "acc (rc_narrow cdf x s) = acc s + e_range s * cdf_lo cdf x div 65536"
    unfolding acc_def n(2) by (simp add: rc_narrow_def)
  moreover have "emitted (rc_narrow cdf x s) = emitted s" by (simp add: emitted_def rc_narrow_def)
  moreover have "0 \<le> e_range s * cdf_lo cdf x div 65536" using assms(3) cdf_interval(1) [OF assms(1,2)]
    by (intro pos_imp_zdiv_nonneg_iff [THEN iffD2]) (simp_all add: bounded_def)
  moreover have "e_range s * cdf_hi cdf x div 65536 \<le> 65536 * e_range s div 65536"
    using assms(3) cdf_interval(3) [OF assms(1,2)] by (intro zdiv_mono1) (simp_all add: bounded_def)
  ultimately show ?thesis using assms(5) n(3,5) by (auto simp: inside_def)
qed

lemma renorm_ok:
  assumes "bounded s"
  obtains t where "rc_renorm bits_append s = Some t" "bounded t" "QUARTER < e_range t" "inside S t \<longrightarrow> inside S s"
    "e_range t = e_range s * 2 ^ (emitted t - emitted s)" "emitted s \<le> emitted t" "e_range t \<le> max (e_range s) HALF"
proof -
  have "\<exists>t. rc_renorm bits_append s = Some t \<and> bounded t \<and> QUARTER < e_range t \<and> (inside S t \<longrightarrow> inside S s) \<and>
     e_range t = e_range s * 2 ^ (emitted t - emitted s) \<and> emitted s \<le> emitted t \<and> e_range t \<le> max (e_range s) HALF"
    using assms
  proof (induction "bits_append" s rule: rc_renorm.induct)
    case (1 s)
    show ?case
    proof (cases "e_range s \<le> QUARTER")
      case True
      note e = emit_step [OF 1(2) True HOL.refl]
      have p: "\<not> e_range s \<le> 0" using 1(2) by (simp add: bounded_def)
      obtain t where t: "rc_renorm bits_append (rc_double (rc_emit bits_append s)) = Some t" "bounded t" "QUARTER < e_range t"
        "inside S t \<longrightarrow> inside S (rc_double (rc_emit bits_append s))"
        "e_range t = 2 * e_range s * 2 ^ (emitted t - (emitted s + 1))" "emitted s + 1 \<le> emitted t" "e_range t \<le> max (2 * e_range s) HALF"
        using 1(1) [OF True p e(1)] unfolding e(3,4) by blast
      have "emitted t - emitted s = Suc (emitted t - (emitted s + 1))" using t(6) by simp
      then have "e_range t = e_range s * 2 ^ (emitted t - emitted s)" using t(5) by simp
      moreover have "rc_renorm bits_append s = Some t" using t(1) True p by (simp add: rc_renorm.simps [of _ s])
      moreover have "e_range t \<le> max (e_range s) HALF" using t(7) True by auto
      ultimately show ?thesis using t inside_step [OF 1(2) True] by (intro exI [of _ t]) simp
    next
      case False
      then show ?thesis using 1(2) by (intro exI [of _ s]) (simp add: rc_renorm.simps [of _ s])
    qed
  qed
  with that show thesis by blast
qed

lemma symbols_ok:
  assumes "cdf_ok cdf" "\<forall>x\<in>set xs. x \<le> length cdf - 2" "bounded s" "QUARTER < e_range s"
  obtains t where "rc_symbols bits_append cdf xs s = Some t" "bounded t" "QUARTER < e_range t" "inside S t \<longrightarrow> inside S s"
    "emitted t \<le> emitted s + 18 * length xs"
proof -
  have "\<exists>t. rc_symbols bits_append cdf xs s = Some t \<and> bounded t \<and> QUARTER < e_range t \<and> (inside S t \<longrightarrow> inside S s) \<and>
    emitted t \<le> emitted s + 18 * length xs"
    using assms(2-)
  proof (induction xs arbitrary: s)
    case (Cons x xs)
    have x: "x \<le> length cdf - 2" using Cons.prems by simp
    note n = narrow_bounds [OF assms(1) x Cons.prems(2,3)]
    let ?n = "rc_narrow cdf x s"
    obtain s' where s': "rc_renorm bits_append ?n = Some s'" "bounded s'" "QUARTER < e_range s'" "inside S s' \<longrightarrow> inside S ?n"
      "e_range s' = e_range ?n * 2 ^ (emitted s' - emitted ?n)" "emitted ?n \<le> emitted s'" "e_range s' \<le> max (e_range ?n) HALF"
      by (rule renorm_ok [OF n(1), of S])
    have em: "emitted ?n = emitted s" by (simp add: emitted_def rc_narrow_def)
    have "e_range s' < TOP32" using s'(2) by (simp add: bounded_def)
    moreover have "16384 * 2 ^ (emitted s' - emitted s) \<le> e_range s'" unfolding s'(5) em using n(4) by (intro mult_right_mono) auto
    ultimately have "(2 :: int) ^ (emitted s' - emitted s) < 2 ^ 18" by simp
    then have "emitted s' - emitted s < 18" by (rule power_less_imp_less_exp [rotated]) simp
    then have d: "emitted s' \<le> emitted s + 18" by simp
    obtain t where t: "rc_symbols bits_append cdf xs s' = Some t" "bounded t" "QUARTER < e_range t" "inside S t \<longrightarrow> inside S s'"
      "emitted t \<le> emitted s' + 18 * length xs"
      using Cons.IH [OF _ s'(2,3)] Cons.prems(1) by auto
    have "inside S t \<longrightarrow> inside S s" using t(4) s'(4) inside_narrow [OF assms(1) x Cons.prems(2,3)] by blast
    then show ?case using t d s'(1) by (intro exI [of _ t]) simp
  qed simp
  with that show thesis by blast
qed

subsection \<open>The decoder follows\<close>

lemma binsearch_finds:
  assumes "cdf_ok cdf" "x \<le> length cdf - 2" "cdf_lo cdf x \<le> count" "count < cdf_hi cdf x"
  shows "binsearch_symbol cdf count = x"
proof -
  have b: "3 \<le> length cdf" "cdf ! 0 = 0" "\<And>i j. i < j \<Longrightarrow> j < length cdf \<Longrightarrow> cdf ! i < cdf ! j" "\<And>i. i < length cdf \<Longrightarrow> cdf ! i < 65536"
    using assms(1) by (auto simp: cdf_ok_def)
  have c0: "0 \<le> count" using cdf_interval(1) [OF assms(1,2)] assms(3) by simp
  have above: "count < cdf ! m" if "x < m" "m \<le> length cdf - 2" for m
  proof -
    have "m < length cdf" "x \<noteq> length cdf - 2" using that b(1) by auto
    then show ?thesis using that(1) assms(4) b(3) [of "x + 1" m] by (cases "m = x + 1") (auto simp: cdf_hi_def)
  qed
  have below: "cdf ! m \<le> count" if "m \<le> x" for m
  proof -
    have "x < length cdf" using assms(2) b(1) by simp
    then show ?thesis using that assms(3) b(3) [of m x] by (cases "m = x") (auto simp: cdf_lo_def)
  qed
  have "binsearch_loop cdf count lo hi = x"
    if "0 \<le> lo" "hi \<le> int (length cdf) - 2" "lo \<le> int x \<and> int x \<le> hi \<or> x = length cdf - 2 \<and> lo = int x + 1 \<and> hi = int x" for lo hi
    using that
  proof (induction "nat (hi - lo + 1)" arbitrary: lo hi rule: less_induct)
    case less
    define mid where "mid = (lo + hi) div 2"
    define m where "m = nat mid"
    show ?case
    proof (cases "lo \<le> hi")
      case False
      with less.prems show ?thesis by (auto simp: binsearch_loop.simps [of _ _ lo])
    next
      case True
      then have mid: "lo \<le> mid" "mid \<le> hi" "lo \<le> int x" "int x \<le> hi" and m: "mid = int m" "m \<le> length cdf - 2"
        using mid_bounds [of lo hi] less.prems b(1) by (auto simp: mid_def m_def)
      note unf = binsearch_loop.simps [of cdf count lo hi] Let_def mid_def [symmetric]
      consider (a) "count < cdf ! m" | (b) "cdf ! m \<le> count" "m = length cdf - 2"
        | (c) "cdf ! m \<le> count" "m \<noteq> length cdf - 2" "cdf ! (m + 1) \<le> count" | (d) "m \<noteq> length cdf - 2" "cdf ! m \<le> count" "count < cdf ! (m + 1)"
        by linarith
      then show ?thesis
      proof cases
        case a
        then have "x < m" using below [of m] by force
        then have "binsearch_loop cdf count lo (mid - 1) = x" using mid m less.prems by (intro less.hyps) auto
        then show ?thesis using True a m(1) by (simp add: unf)
      next
        case b
        then have x: "x = m" using above [of m] assms(2) by force
        then have "binsearch_loop cdf count (mid + 1) hi = x" using mid m b(2) less.prems \<open>3 \<le> length cdf\<close> by (intro less.hyps) auto
        moreover have "\<not> count < cdf ! nat mid" using b(1) m(1) by simp
        moreover have "mid = int (length cdf) - 2" using b(2) m(1) \<open>3 \<le> length cdf\<close> by simp
        ultimately show ?thesis using True c0 by (simp add: unf)
      next
        case c
        then have "m < x" using above [of "m + 1"] m(2) by force
        then have "binsearch_loop cdf count (mid + 1) hi = x" using mid m less.prems by (intro less.hyps) auto
        moreover have "mid \<noteq> int (length cdf) - 2" using c(2) m(1) \<open>3 \<le> length cdf\<close> by auto
        moreover have "nat (mid + 1) = m + 1" "nat mid = m" using m(1) by auto
        ultimately show ?thesis using True c(1,3) by (simp add: unf)
      next
        case d
        then have "m = x" using below [of "m + 1"] above [of m] m(2) by force
        moreover have "mid \<noteq> int (length cdf) - 2" using d(1) m(1) \<open>3 \<le> length cdf\<close> by auto
        moreover have "nat (mid + 1) = m + 1" "nat mid = m" using m(1) by auto
        ultimately show ?thesis using True d(2,3) by (simp add: unf)
      qed
    qed
  qed
  then show ?thesis using assms(2) b(1) by (simp add: binsearch_symbol_def)
qed

text \<open>The decoder's registers belong to a state of the encoder.\<close>

definition follows :: "bytes \<Rightarrow> bool list rc_enc \<Rightarrow> rc_dec \<Rightarrow> bool" where
  "follows bs s d \<longleftrightarrow> d_low d = e_low s \<and> d_range d = e_range s \<and>
     d_value d = e_low s + (int (prefix_val (stream_bit bs) (32 + emitted s)) - acc s) \<and> reader_at bs (32 + emitted s) (d_reader d)"

lemma div_bounds:
  fixes u v :: int
  shows "u div 65536 \<le> v \<Longrightarrow> u \<le> (v + 1) * 65536 - 1" "v < u div 65536 \<Longrightarrow> (v + 1) * 65536 - 1 < u"
proof -
  have m: "0 \<le> u mod 65536" "u mod 65536 < 65536" by simp_all
  have u: "u = 65536 * (u div 65536) + u mod 65536" by simp
  show "u \<le> (v + 1) * 65536 - 1" if "u div 65536 \<le> v" using that m(2) by (subst u) (simp only: distrib_right)
  show "(v + 1) * 65536 - 1 < u" if "v < u div 65536" using that m(1) by (subst u) simp
qed

lemma dec_count_finds:
  assumes "cdf_ok cdf" "x \<le> length cdf - 2" "bounded s" "QUARTER < e_range s"
    "inside (stream_bit bs) (rc_narrow cdf x s)" "follows bs s d"
  shows "binsearch_symbol cdf (dec_count d) = x"
proof -
  note n = narrow_bounds [OF assms(1-4)]
  define r where "r = e_range s"
  define v where "v = d_value d - d_low d"
  define N where "N = (v + 1) * 65536 - 1"
  have r: "QUARTER < r" "r < TOP32" using assms(3,4) by (simp_all add: r_def bounded_def)
  have "acc (rc_narrow cdf x s) = acc s + r * cdf_lo cdf x div 65536" unfolding acc_def n(2) by (simp add: rc_narrow_def r_def)
  moreover have "emitted (rc_narrow cdf x s) = emitted s" by (simp add: emitted_def rc_narrow_def)
  moreover have "v = int (prefix_val (stream_bit bs) (32 + emitted s)) - acc s" using assms(6) by (simp add: follows_def v_def)
  ultimately have v: "r * cdf_lo cdf x div 65536 \<le> v" "v < r * cdf_hi cdf x div 65536"
    using assms(5) n(3,5) by (auto simp: inside_def r_def)
  have "0 \<le> r * cdf_lo cdf x" using r cdf_interval(1) [OF assms(1,2)] by simp
  then have v0: "0 \<le> v" using v(1) pos_imp_zdiv_nonneg_iff [of 65536 "r * cdf_lo cdf x"] by simp
  have "r * cdf_hi cdf x div 65536 \<le> 65536 * r div 65536" using r cdf_interval(3) [OF assms(1,2)] by (intro zdiv_mono1) simp_all
  then have v1: "v < r" using v(2) by simp
  have lo: "r * cdf_lo cdf x \<le> N" unfolding N_def by (rule div_bounds(1) [OF v(1)])
  have hi: "N < r * cdf_hi cdf x" unfolding N_def by (rule div_bounds(2) [OF v(2)])
  have "cdf_lo cdf x \<le> N div r" using zdiv_mono1 [OF lo, of r] r by simp
  moreover have "N div r < cdf_hi cdf x"
  proof (rule ccontr)
    assume "\<not> N div r < cdf_hi cdf x"
    then have "r * cdf_hi cdf x \<le> r * (N div r)" using r by (intro mult_left_mono) auto
    also have "\<dots> \<le> N" using r div_mult_mod_eq [of N r] pos_mod_sign [of r N] by (smt (verit) mult.commute)
    finally show False using hi by simp
  qed
  moreover have "dec_count d = N div r"
  proof -
    have "d_range d = r" using assms(6) by (simp add: follows_def r_def)
    moreover have "(v + 1) mod 2 ^ 64 = v + 1" "N mod 2 ^ 64 = N" using v0 v1 r unfolding N_def by (auto intro!: mod_pos_pos_trivial)
    moreover have "N div r mod 65536 = N div r"
      using calculation(1) \<open>cdf_lo cdf x \<le> N div r\<close> \<open>N div r < cdf_hi cdf x\<close> cdf_interval [OF assms(1,2)] by (intro mod_pos_pos_trivial) auto
    ultimately show ?thesis by (simp add: dec_count_def v_def N_def)
  qed
  ultimately show ?thesis by (intro binsearch_finds [OF assms(1,2)]) simp_all
qed

lemma follows_shift:
  assumes "bounded s" "e_range s \<le> QUARTER" "inside (stream_bit bs) s" "follows bs s d"
  shows "follows bs (rc_double (rc_emit bits_append s)) (dec_shift bs d)"
proof -
  define X where "X = int (prefix_val (stream_bit bs) (32 + emitted s))"
  define sub where "sub = (if HALF \<le> e_low s then HALF else if QUARTER \<le> e_low s then QUARTER else 0)"
  note e = emit_step [OF assms(1,2) HOL.refl, folded sub_def]
  obtain r' where r': "next_bit bs (d_reader d) = (of_bool (stream_bit bs (32 + emitted s)), r')" "reader_at bs (32 + emitted s + 1) r'"
    using next_bit_at assms(4) unfolding follows_def by blast
  have d: "d_low d = e_low s" "d_range d = e_range s" "d_value d = e_low s + (X - acc s)" using assms(4) by (simp_all add: follows_def X_def)
  have b: "0 \<le> e_low s" "0 < e_range s" "e_low s + e_range s \<le> TOP32" using assms(1) by (auto simp: bounded_def)
  have "e_low s \<le> d_value d" "d_value d < e_low s + e_range s" using assms(3) d(3) by (auto simp: inside_def X_def)
  then have v: "0 \<le> d_value d - sub" "d_value d - sub < HALF" using b assms(2) by (auto simp: sub_def)
  then have m: "(d_value d - sub) mod TOP32 = d_value d - sub" "2 * (d_value d - sub) mod TOP32 = 2 * (d_value d - sub)" by simp_all
  have X': "int (prefix_val (stream_bit bs) (32 + (emitted s + 1))) = 2 * X + of_bool (stream_bit bs (32 + emitted s))"
    using prefix_val.simps(2) [of "stream_bit bs" "32 + emitted s"] by (simp add: X_def)
  have "2 * (e_low s - sub) mod TOP32 = 2 * (e_low s - sub)" using b by (auto simp: sub_def)
  moreover have "2 * e_range s mod TOP32 = 2 * e_range s" using b assms(2) by simp
  ultimately show ?thesis
    unfolding follows_def e(2-5) X' dec_shift_def Let_def d(1,2) sub_def [symmetric] r'(1) prod.case
    using r'(2) d(3) m by (simp add: algebra_simps)
qed

lemma follows_renorm:
  assumes "bounded s" "follows bs s d" "rc_renorm bits_append s = Some t" "inside (stream_bit bs) t"
  shows "\<exists>d'. dec_renorm bs d = Some d' \<and> follows bs t d'"
  using assms
proof (induction "bits_append" s arbitrary: d rule: rc_renorm.induct)
  case (1 s)
  have dr: "d_range d = e_range s" using 1(3) by (simp add: follows_def)
  have pos: "\<not> e_range s \<le> 0" using 1(2) by (simp add: bounded_def)
  show ?case
  proof (cases "e_range s \<le> QUARTER")
    case True
    let ?s = "rc_double (rc_emit bits_append s)"
    have "inside (stream_bit bs) t \<longrightarrow> inside (stream_bit bs) s"
      using renorm_ok [OF 1(2), of "stream_bit bs"] 1(4) by (metis option.inject)
    then have "follows bs ?s (dec_shift bs d)" using follows_shift [OF 1(2) True _ 1(3)] 1(5) by blast
    moreover have "rc_renorm bits_append ?s = Some t" using 1(4) True pos by (simp add: rc_renorm.simps [of _ s])
    ultimately have "\<exists>d'. dec_renorm bs (dec_shift bs d) = Some d' \<and> follows bs t d'"
      using 1(1) [OF True pos emit_step(1) [OF 1(2) True HOL.refl]] 1(5) by blast
    then show ?thesis using True pos dr by (simp add: dec_renorm.simps [of _ d])
  next
    case False
    then show ?thesis using 1(3,4) dr by (simp add: rc_renorm.simps [of _ s] dec_renorm.simps [of _ d])
  qed
qed

lemma follows_symbols:
  assumes "cdf_ok cdf" "\<forall>x\<in>set xs. x \<le> length cdf - 2" "bounded s" "QUARTER < e_range s" "follows bs s d"
    "rc_symbols bits_append cdf xs s = Some t" "inside (stream_bit bs) t"
  shows "dec_symbols bs cdf (length xs) d = Some xs"
  using assms(2-)
proof (induction xs arbitrary: s d)
  case (Cons x xs)
  note IH = Cons.IH and prems = Cons.prems
  have x: "x \<le> length cdf - 2" using Cons.prems(1) by simp
  note n = narrow_bounds [OF assms(1) x Cons.prems(2,3)]
  let ?n = "rc_narrow cdf x s"
  obtain s' where s': "rc_renorm bits_append ?n = Some s'" "bounded s'" "QUARTER < e_range s'" "inside (stream_bit bs) s' \<longrightarrow> inside (stream_bit bs) ?n"
    by (rule renorm_ok [OF n(1), of "stream_bit bs"])
  have rest: "rc_symbols bits_append cdf xs s' = Some t" using Cons.prems(5) s'(1) by simp
  have "\<forall>x\<in>set xs. x \<le> length cdf - 2" using Cons.prems(1) by simp
  from symbols_ok [OF assms(1) this s'(2,3), of "stream_bit bs"] rest
  have i: "inside (stream_bit bs) s'" using Cons.prems(6) by (metis option.inject)
  have found: "binsearch_symbol cdf (dec_count d) = x"
    by (rule dec_count_finds [OF assms(1) x Cons.prems(2,3) _ Cons.prems(4)]) (use s'(4) i in blast)
  show ?case
  proof (cases xs)
    case (Cons y ys)
    have a: "acc ?n = acc s + e_range s * cdf_lo cdf x div 65536" unfolding acc_def n(2) by (simp add: rc_narrow_def)
    have "d_low d = e_low s" "d_range d = e_range s" using prems(4) by (simp_all add: follows_def)
    then have "d_low (dec_narrow cdf x d) = e_low ?n" "d_range (dec_narrow cdf x d) = e_range ?n"
      by (simp_all add: dec_narrow_def rc_narrow_def)
    moreover have "emitted ?n = emitted s" "d_value (dec_narrow cdf x d) = d_value d" "d_reader (dec_narrow cdf x d) = d_reader d"
      by (simp_all add: emitted_def rc_narrow_def dec_narrow_def)
    ultimately have "follows bs ?n (dec_narrow cdf x d)" using prems(4) unfolding follows_def a n(2) by simp
    from follows_renorm [OF n(1) this s'(1) i]
    obtain d' where d': "dec_renorm bs (dec_narrow cdf x d) = Some d'" "follows bs s' d'" by blast
    have "dec_symbols bs cdf (length xs) d' = Some xs" by (rule IH [OF _ s'(2,3) d'(2) rest prems(6)]) (use prems(1) in simp)
    then show ?thesis using d'(1) Cons by (simp add: found Let_def)
  qed (simp add: found)
qed simp

subsection \<open>The end of the channel\<close>

lemma prefix_val_bits:
  assumes "\<And>i. i < length F \<Longrightarrow> S i = F ! i"
  shows "int (prefix_val S (length F)) = bits_val F"
  using assms
proof (induction F rule: rev_induct)
  case (snoc b F)
  have "S i = F ! i" if "i < length F" for i using snoc.prems [of i] that by (simp add: nth_append)
  with snoc.IH snoc.prems [of "length F"] show ?case by simp
qed simp

text \<open>
  The final bit and its complements lead into the interval when the encoder ends with \<open>low\<close> at most one half. The final bit 1 stands for
  one half; above it the code lies below the interval.
\<close>

lemma finish_inside:
  assumes "bounded t" "QUARTER < e_range t" "e_low t \<le> HALF"
    "\<And>i. S i \<longleftrightarrow> i < length (rc_finish bits_append t) \<and> rc_finish bits_append t ! i"
  shows "inside S t"
proof -
  define F where "F = rc_finish bits_append t"
  have len: "32 + emitted t = length F + 30" by (simp add: F_def rc_finish_def bits_append_def emitted_def)
  have "int (prefix_val S (length F)) = bits_val F" using assms(4) by (intro prefix_val_bits) (simp add: F_def)
  moreover have "prefix_val (\<lambda>i. S (length F + i)) 30 = 0" using assms(4) by (intro prefix_val_zeros) (simp add: F_def)
  ultimately have X: "int (prefix_val S (32 + emitted t)) = bits_val F * 2 ^ 30" unfolding len prefix_val_add by simp
  have "bits_val F * 2 ^ 30 - acc t = (if e_low t < QUARTER then QUARTER else HALF) - e_low t"
    by (simp add: F_def rc_finish_def bits_val_append acc_def algebra_simps)
  moreover have "0 \<le> e_low t" using assms(1) by (simp add: bounded_def)
  ultimately show ?thesis unfolding inside_def X using assms(2,3) by (auto split: if_splits)
qed

lemma clamp_le: "clamp_symbol cdf x \<le> length cdf - 2"
  by (simp add: clamp_symbol_def)

lemma init_bits: "enc_bits packer_bits (rc_init empty_packer) = rc_init []" "bounded (rc_init o0)" "QUARTER < e_range (rc_init o0)"
  "emitted (rc_init []) = 0" "acc (rc_init []) = 0" "packer_ok (e_out (rc_init empty_packer))"
  by (simp_all add: enc_bits_def rc_init_def empty_packer_ok bounded_def emitted_def acc_def)

lemma encode_channel_ok:
  assumes "cdf_ok cdf"
  obtains s bs where "encode_state cdf xs = Some s" "encode_channel cdf xs = Some bs" "8 * length bs \<le> 18 * length xs + 9"
    "e_low s \<le> HALF \<Longrightarrow> decode_channel cdf (length xs) bs = Some (map (clamp_symbol cdf) xs)"
proof -
  let ?ys = "map (clamp_symbol cdf) xs"
  have ys: "\<forall>y\<in>set ?ys. y \<le> length cdf - 2" by (simp add: clamp_le)
  note sim = packer_sink.symbols_sim [OF init_bits(6), unfolded init_bits(1), of cdf ?ys]
  obtain t where t: "rc_symbols bits_append cdf ?ys (rc_init []) = Some t" "bounded t" "QUARTER < e_range t"
    "emitted t \<le> 18 * length xs"
    using symbols_ok [OF assms ys init_bits(2,3)] init_bits(4) by (metis add_0 length_map)
  then obtain s where s: "encode_state cdf xs = Some s" "t = enc_bits packer_bits s" "packer_ok (e_out s)"
    using sim by (auto simp: encode_state_def)
  define p where "p = rc_finish append_bit_and_pending s"
  have p: "packer_ok p" "packer_bits p = rc_finish bits_append t"
    using packer_sink.finish_sim [OF s(3)] by (simp_all add: p_def s(2))
  obtain z where z: "bytes_bits (out (spill_partial_reg_to_vec p)) = rc_finish bits_append t @ replicate z False" "z < 8"
    using spill_partial_bits [OF p(1)] unfolding p(2) .
  define bs where "bs = out (spill_partial_reg_to_vec p)"
  have lenF: "length (rc_finish bits_append t) = emitted t + 2" by (simp add: rc_finish_def bits_append_def emitted_def)
  have "8 * length bs = emitted t + 2 + z" using arg_cong [OF z(1), of length] lenF by (simp add: bs_def)
  with t(4) z(2) have len: "8 * length bs \<le> 18 * length xs + 9" by simp
  have l8: "8 * length bs = length (rc_finish bits_append t) + z" using arg_cong [OF z(1), of length] by (simp add: bs_def)
  have S: "stream_bit bs i \<longleftrightarrow> i < length (rc_finish bits_append t) \<and> rc_finish bits_append t ! i" for i
    unfolding stream_bit_def l8 unfolding bs_def z(1) by (auto simp: nth_append)
  have "decode_channel cdf (length xs) bs = Some ?ys" if "e_low s \<le> HALF"
  proof -
    have "inside (stream_bit bs) t" using finish_inside [OF t(2,3) _ S] that s(2) by (simp add: enc_bits_def)
    moreover have "follows bs (rc_init []) \<lparr>d_low = 0, d_range = 4294967295, d_value = int (load_u32_be bs), d_reader = BitReader bs 4\<rparr>"
      using BitReader_at [of bs 4] by (simp add: follows_def init_bits load_u32_be_val) (simp add: rc_init_def)
    ultimately show ?thesis using follows_symbols [OF assms ys init_bits(2,3) _ t(1)] by (simp add: decode_channel_def)
  qed
  with that s(1) len show thesis by (auto simp: encode_channel_def bs_def p_def)
qed

end
