(* ===== verification/Cachegen.thy ===== *)
theory Cachegen
  imports Range_Coder Half
begin

text \<open>
  The CACHEGEN codec around the range coder (\<open>mzcache/kernels/cachegen_utils.cpp\<close>, \<open>compress.cpp\<close>, \<open>decompress.cpp\<close>): the quantiser,
  the cumulative frequencies of a layer, the coder over all channels of a piece of 16 tokens and the two entry points for a chunk,
  \<open>encode_function_new\<close> and \<open>decode_function_new\<close>. Arrays are lists; \<open>int8_t\<close> codes are bytes, \<open>uint16_t\<close> counters and frequencies
  wrap. A value of type \<open>'a result option\<close> is \<open>None\<close> when a loop of the coder does not end.
\<close>

subsection \<open>Bins\<close>

definition key_first_layers :: nat where "key_first_layers = 1"
definition key_second_layers :: nat where "key_second_layers = 1"
definition key_first_bins :: int where "key_first_bins = 32"
definition key_second_bins :: int where "key_second_bins = 32"
definition key_third_bins :: int where "key_third_bins = 32"
definition value_first_layers :: nat where "value_first_layers = 2"
definition value_first_bins :: int where "value_first_bins = 32"
definition value_second_bins :: int where "value_second_bins = 32"

definition make_key_bins_cpp :: "nat \<Rightarrow> int list" where
  "make_key_bins_cpp n_layers =
     map (\<lambda>l. if l < key_first_layers then key_first_bins
              else if l < key_first_layers + key_second_layers then key_second_bins
              else key_third_bins) [0..<n_layers]"

definition make_value_bins_cpp :: "nat \<Rightarrow> int list" where
  "make_value_bins_cpp n_layers = map (\<lambda>l. if l < value_first_layers then value_first_bins else value_second_bins) [0..<n_layers]"

subsection \<open>Quantiser\<close>

fun fp_abs :: "fp \<Rightarrow> fp" where
  "fp_abs (Fin _ r) = Fin False \<bar>r\<bar>"
| "fp_abs (Infty _) = Infty False"
| "fp_abs NaN = NaN"

text \<open>The comparison \<open><\<close> of C++, false when an operand is NaN.\<close>

fun fp_less :: "fp \<Rightarrow> fp \<Rightarrow> bool" where
  "fp_less (Fin _ a) (Fin _ b) = (a < b)"
| "fp_less (Infty s) (Infty t) = (s \<and> \<not> t)"
| "fp_less (Infty s) (Fin _ _) = s"
| "fp_less (Fin _ _) (Infty t) = (\<not> t)"
| "fp_less _ _ = False"

fun fp_round :: "fp \<Rightarrow> fp" where
  "fp_round (Fin s r) = Fin s (of_int (round_away r))"
| "fp_round x = x"

text \<open>Conversion to \<open>int\<close> on the target (\<open>FCVTZS\<close>): truncating, saturating, NaN to zero.\<close>

definition fp_to_int :: "fp \<Rightarrow> int" where
  "fp_to_int x = (case x of Fin _ r \<Rightarrow> sat (- (2 ^ 31)) (2 ^ 31 - 1) (trunc r) | Infty s \<Rightarrow> (if s then - (2 ^ 31) else 2 ^ 31 - 1) | NaN \<Rightarrow> 0)"

abbreviation fp_int :: "int \<Rightarrow> fp" where "fp_int i \<equiv> Fin (i < 0) (of_int i)"

definition row_max :: "fp list \<Rightarrow> fp" where
  "row_max xs = fold (\<lambda>v acc_max. let av = fp_abs v in if fp_less acc_max av then av else acc_max) xs (Fin False 0)"

definition quant_clamp :: "fp \<Rightarrow> fp \<Rightarrow> fp" where
  "quant_clamp hi qf = (let qf1 = (if fp_less qf (Fin False 0) then Fin False 0 else qf) in if fp_less hi qf1 then hi else qf1)"

text \<open>One token: its largest magnitude and its codes. \<open>fused\<close> tells whether the compiler contracts the multiplication and the addition.\<close>

definition quantize_row :: "bool \<Rightarrow> int \<Rightarrow> u16 list \<Rightarrow> bytes \<times> fp" where
  "quantize_row fused bins row =
     (let MAX_q = c_div bins 2 - 1;
          MAXf = to32 (fp_int MAX_q);
          clamp_hi = mul32 (Fin False 2) MAXf;
          xs = map half_decode row;
          acc_max = row_max xs;
          factor = (if fp_less (Fin False 0) acc_max then div32 MAXf acc_max else Fin False 0)
      in (map (\<lambda>vx. of_int (fp_to_int (quant_clamp clamp_hi (fp_round (mla32_fp fused MAXf vx factor))))) xs, acc_max))"

record QuantResultRaw =
  qr_q :: bytes
  qr_max1 :: "fp list"

definition quant_rows :: "(bytes \<times> fp) list \<Rightarrow> QuantResultRaw" where
  "quant_rows rows = \<lparr>qr_q = concat (map fst rows), qr_max1 = map snd rows\<rparr>"

definition quantize_from_bins_raw :: "bool \<Rightarrow> int list \<Rightarrow> int \<Rightarrow> int \<Rightarrow> int \<Rightarrow> u16 list \<Rightarrow> QuantResultRaw result" where
  "quantize_from_bins_raw fused bins_L L T C x =
     (if L \<le> 0 \<or> T \<le> 0 \<or> C \<le> 0 then Err (RuntimeError ''quantize_from_bins_raw: invalid dims'')
      else if length bins_L < nat L \<or> length x < nat L * nat T * nat C then Err OutOfBounds
      else Ok (quant_rows (map (\<lambda>i. quantize_row fused (bins_L ! (i div nat T)) (take (nat C) (drop (nat C * i) x))) [0..<nat L * nat T])))"

text \<open>The same from the chunks of a layer; every layer index reads the same chunks.\<close>

definition chunk_row :: "nat \<Rightarrow> u16 list list \<Rightarrow> nat \<Rightarrow> u16 list" where
  "chunk_row C chunks t = take C (drop (C * (t mod TOKENS_PER_CHUNK)) (chunks ! (t div TOKENS_PER_CHUNK)))"

definition quantize_from_bins_raw_chunked :: "bool \<Rightarrow> int list \<Rightarrow> int \<Rightarrow> int \<Rightarrow> int \<Rightarrow> u16 list list \<Rightarrow> QuantResultRaw result" where
  "quantize_from_bins_raw_chunked fused bins_L L T C chunks =
     (if L \<le> 0 \<or> T \<le> 0 \<or> C \<le> 0 then Err (RuntimeError ''quantize_from_bins_raw_chunked: invalid dims'')
      else if length bins_L < nat L \<or>
        (\<exists>t\<in>set [0..<nat T]. length chunks \<le> t div TOKENS_PER_CHUNK \<or>
           length (chunks ! (t div TOKENS_PER_CHUNK)) < nat C * (t mod TOKENS_PER_CHUNK + 1)) then Err OutOfBounds
      else Ok (quant_rows (map (\<lambda>i. quantize_row fused (bins_L ! (i div nat T)) (chunk_row (nat C) chunks (i mod nat T))) [0..<nat L * nat T])))"

subsection \<open>Cumulative frequencies\<close>

record CdfRaw =
  cdf_data :: "u16 list"
  cdf_C :: nat
  cdf_bins_p1 :: nat

fun hist_count :: "nat \<Rightarrow> nat list \<Rightarrow> bytes \<Rightarrow> nat list result" where
  "hist_count max_bins hist [] = Ok hist"
| "hist_count max_bins hist (v # vs) =
     (let value = (if max_bins mod 256 < unat v then max_bins mod 256 else unat v) in
      if length hist \<le> value + 1 then Err OutOfBounds
      else hist_count max_bins (hist[value + 1 := (hist ! (value + 1) + 1) mod 65536]) vs)"

fun hist_sums :: "nat \<Rightarrow> nat list \<Rightarrow> nat list \<times> nat" where
  "hist_sums local_sum [] = ([], local_sum)"
| "hist_sums local_sum (v # vs) =
     (let (rest, s) = hist_sums ((local_sum + v) mod 65536) vs in ((v + local_sum) mod 65536 # rest, s))"

definition cdf_norm :: "nat \<Rightarrow> nat list \<Rightarrow> nat \<Rightarrow> u16 list" where
  "cdf_norm max_bins hist local_sum =
     (let denom = max 1 local_sum; MAX_U16_FREE = nat ((65535 - int max_bins) mod 2 ^ 32)
      in map (\<lambda>b. of_nat (MAX_U16_FREE * hist ! b mod 2 ^ 32 div denom + b)) [0..<max_bins + 1])"

definition cdf_channel :: "nat \<Rightarrow> bytes \<Rightarrow> u16 list result" where
  "cdf_channel max_bins vs =
     bind_result (hist_count max_bins (replicate (max_bins + 1) 0) vs) (\<lambda>hist.
       let (cums, local_sum) = hist_sums 0 (tl hist) in Ok (cdf_norm max_bins (hd hist # cums) local_sum))"

fun all_results :: "'a result list \<Rightarrow> 'a list result" where
  "all_results [] = Ok []"
| "all_results (r # rs) = bind_result r (\<lambda>a. bind_result (all_results rs) (\<lambda>as. Ok (a # as)))"

text \<open>The codes of channel \<open>c\<close> in \<open>n\<close> tokens.\<close>

definition column :: "nat \<Rightarrow> nat \<Rightarrow> bytes \<Rightarrow> nat \<Rightarrow> bytes" where
  "column C n q c = map (\<lambda>t. q ! (t * C + c)) [0..<n]"

definition cdf_calculate_cpu :: "bytes \<Rightarrow> int \<Rightarrow> int \<Rightarrow> int \<Rightarrow> int \<Rightarrow> CdfRaw result" where
  "cdf_calculate_cpu q L T C max_bins =
     (if L \<le> 0 \<or> T \<le> 0 \<or> C \<le> 0 then Err (RuntimeError ''cdf_calculate_cpu: invalid dims'')
      else if max_bins \<le> 0 then Err (RuntimeError ''cdf_calculate_cpu: invalid max_bins'')
      else if length q < nat L * nat T * nat C then Err OutOfBounds
      else bind_result
        (all_results (map (\<lambda>i. cdf_channel (nat max_bins) (column (nat C) (nat T) (drop (nat C * nat T * (i div nat C)) q) (i mod nat C)))
           [0..<nat L * nat C]))
        (\<lambda>rows. Ok \<lparr>cdf_data = concat rows, cdf_C = nat C, cdf_bins_p1 = nat max_bins + 1\<rparr>))"

subsection \<open>A piece of tokens\<close>

definition cdf_row :: "u16 list \<Rightarrow> nat \<Rightarrow> nat \<Rightarrow> int list" where
  "cdf_row cdf lp c = map uint (take lp (drop (lp * c) cdf))"

text \<open>The streams of the channels follow one another; a length is stored in a byte.\<close>

definition encode_ntokens_cpu_new_range :: "u16 list \<Rightarrow> int \<Rightarrow> int \<Rightarrow> bytes \<Rightarrow> int \<Rightarrow> (bytes \<times> bytes) result option" where
  "encode_ntokens_cpu_new_range cdf C lp q_chunk t_chunk =
     (if C \<le> 0 \<or> lp \<le> 2 \<or> t_chunk \<le> 0 then Some (Err (RuntimeError ''encode_ntokens_cpu: bad dims''))
      else if length cdf < nat C * nat lp \<or> length q_chunk < nat C * nat t_chunk then Some (Err OutOfBounds)
      else map_option (\<lambda>chans. Ok (concat chans, map (\<lambda>bs. of_nat (length bs)) chans))
        (those (map (\<lambda>c. encode_channel (cdf_row cdf (nat lp) c) (map unat (column (nat C) (nat t_chunk) q_chunk c))) [0..<nat C])))"

fun offsets_from :: "nat \<Rightarrow> bytes \<Rightarrow> nat list" where
  "offsets_from off [] = []"
| "offsets_from off (l # ls) = off # offsets_from (off + unat l) ls"

definition decode_ntokens_cpu_new_range :: "u16 list \<Rightarrow> int \<Rightarrow> int \<Rightarrow> bytes \<Rightarrow> bytes \<Rightarrow> bytes result option" where
  "decode_ntokens_cpu_new_range cdf C bins_p1 input lengths =
     (if int (length lengths) \<noteq> C then Some (Err (RuntimeError ''lengths size mismatch''))
      else if length cdf < nat C * nat bins_p1 \<or> length input < sum_list (map unat lengths) then Some (Err OutOfBounds)
      else map_option (\<lambda>chans. Ok (map (\<lambda>i. of_nat (chans ! (i mod nat C) ! (i div nat C))) [0..<MAX_TOKENS_PER_CHUNK * nat C]))
        (those (map (\<lambda>c. decode_channel (cdf_row cdf (nat bins_p1) c) MAX_TOKENS_PER_CHUNK
                   (take (unat (lengths ! c)) (drop (offsets_from 0 lengths ! c) input))) [0..<nat C])))"

subsection \<open>A chunk\<close>

definition bind_coder :: "'a result option \<Rightarrow> ('a \<Rightarrow> 'b result option) \<Rightarrow> 'b result option" where
  "bind_coder r f = (case r of None \<Rightarrow> None | Some (Inl e) \<Rightarrow> Some (Inl e) | Some (Inr a) \<Rightarrow> f a)"

lemma bind_coder_simps [simp]:
  "bind_coder None f = None" "bind_coder (Some (Inl e)) f = Some (Inl e)" "bind_coder (Some (Inr a)) f = f a"
  by (simp_all add: bind_coder_def)

text \<open>The loop of \<open>encode_one_stream\<close> over the pieces: the bytes, the lengths of the channels and the 16-bit sums of every piece.\<close>

type_synonym coded = "bytes \<times> bytes list \<times> u16 list"

fun encode_pieces :: "CdfRaw \<Rightarrow> int \<Rightarrow> bytes list \<Rightarrow> coded result option" where
  "encode_pieces cdf C [] = Some (Ok ([], [], []))"
| "encode_pieces cdf C (q # qs) =
     bind_coder (encode_ntokens_cpu_new_range (cdf_data cdf) C (int (cdf_bins_p1 cdf)) q (int MAX_TOKENS_PER_CHUNK)) (\<lambda>(bs, lengths).
       bind_coder (encode_pieces cdf C qs) (\<lambda>(rest, lengths_arr, byte_sums).
         Some (Ok (bs @ rest, lengths # lengths_arr, of_nat (length bs) # byte_sums))))"

text \<open>The codes from every sixteenth token on; a piece is read up to its own tokens.\<close>

definition pieces :: "nat \<Rightarrow> bytes \<Rightarrow> bytes list" where
  "pieces C q = map (\<lambda>i. take (MAX_TOKENS_PER_CHUNK * C) (drop (C * (MAX_TOKENS_PER_CHUNK * i)) q)) [0..<TOKENS_PER_CHUNK div MAX_TOKENS_PER_CHUNK]"

definition encode_function_new :: "bool \<Rightarrow> u16 list \<Rightarrow> int \<Rightarrow> bool \<Rightarrow> CdfRaw \<Rightarrow> coded result option" where
  "encode_function_new fused input hidden_dim is_key cdf =
     (let bins = (if is_key then make_key_bins_cpp 1 else make_value_bins_cpp 1) in
      bind_coder (Some (quantize_from_bins_raw fused bins 1 (int TOKENS_PER_CHUNK) hidden_dim input)) (\<lambda>quantized_input.
        encode_pieces cdf hidden_dim (pieces (nat hidden_dim) (qr_q quantized_input))))"

text \<open>
  \<open>dequantize_cpu_into_new_neon\<close>. With vector arithmetic of 16-bit floats the first multiple of 16 channels goes through the vector lanes, whose
  products are rounded to 16 bits, and the others are computed in 32 bits; without it the function falls back to \<open>dequantize_cpu_into_new\<close>.
\<close>

definition dequant_scalar :: "int \<Rightarrow> fp \<Rightarrow> u8 \<Rightarrow> u16" where
  "dequant_scalar C_scale_i mul qv =
     half_encode (to16 (mul32 (sub32 (to32 (fp_int (sint qv))) (to32 (fp_int C_scale_i))) mul))"

definition dequantize_cpu_into_new :: "bytes \<Rightarrow> fp list \<Rightarrow> nat \<Rightarrow> nat \<Rightarrow> int \<Rightarrow> u16 list" where
  "dequantize_cpu_into_new q max1 T C bins =
     (let C_scale_i = c_div bins 2 - 1; invC = div32 (Fin False 1) (to32 (fp_int C_scale_i)) in
      if C_scale_i \<le> 0 then replicate (T * C) 0
      else map (\<lambda>i. dequant_scalar C_scale_i (mul32 (max1 ! (i div C)) invC) (q ! i)) [0..<T * C])"

definition dequant_lane :: "int \<Rightarrow> fp \<Rightarrow> u8 \<Rightarrow> u16" where
  "dequant_lane C_scale_i mul_h qv =
     half_encode (to16 (fp_mul (to16 (fp_int (sint (scast qv - of_int C_scale_i :: 16 word)))) mul_h))"

definition dequant_tail :: "int \<Rightarrow> fp \<Rightarrow> u8 \<Rightarrow> u16" where
  "dequant_tail C_scale_i mul_h qv =
     half_encode (to16 (mul32 (sub32 (to16 (fp_int (sint qv))) (to16 (fp_int C_scale_i))) mul_h))"

definition dequantize_cpu_into_new_neon :: "bool \<Rightarrow> bytes \<Rightarrow> fp list \<Rightarrow> nat \<Rightarrow> nat \<Rightarrow> int \<Rightarrow> u16 list" where
  "dequantize_cpu_into_new_neon fp16_vec q max1 T C bins =
     (let C_scale_i = c_div bins 2 - 1; invC = div32 (Fin False 1) (to32 (fp_int C_scale_i)); C_vec = C - C mod 16 in
      if \<not> fp16_vec then dequantize_cpu_into_new q max1 T C bins
      else if C_scale_i \<le> 0 then replicate (T * C) 0
      else map (\<lambda>i. let mul_h = to16 (mul32 (max1 ! (i div C)) invC) in
                    if i mod C < C_vec then dequant_lane C_scale_i mul_h (q ! i) else dequant_tail C_scale_i mul_h (q ! i)) [0..<T * C])"

text \<open>The loop of \<open>decode_function_new\<close>: the stream of a piece starts at the sum of the 16-bit sums before it.\<close>

fun decode_pieces :: "bool \<Rightarrow> CdfRaw \<Rightarrow> int \<Rightarrow> bytes \<Rightarrow> fp list \<Rightarrow> (bytes \<times> u16) list \<Rightarrow> u16 list result option" where
  "decode_pieces fp16_vec cdf C input m_base [] = Some (Ok [])"
| "decode_pieces fp16_vec cdf C input m_base ((lengths, byte_sum) # ps) =
     bind_coder (decode_ntokens_cpu_new_range (cdf_data cdf) C (int (cdf_bins_p1 cdf)) input lengths) (\<lambda>q16.
       if length m_base < MAX_TOKENS_PER_CHUNK then Some (Err OutOfBounds)
       else bind_coder (decode_pieces fp16_vec cdf C (drop (unat byte_sum) input) (drop MAX_TOKENS_PER_CHUNK m_base) ps) (\<lambda>rest.
         Some (Ok (dequantize_cpu_into_new_neon fp16_vec q16 m_base MAX_TOKENS_PER_CHUNK (nat C) (int (cdf_bins_p1 cdf) - 1) @ rest))))"

definition decode_function_new :: "bool \<Rightarrow> bytes \<Rightarrow> int \<Rightarrow> bytes list \<Rightarrow> CdfRaw \<Rightarrow> fp list \<Rightarrow> u16 list \<Rightarrow> u16 list result option" where
  "decode_function_new fp16_vec input hidden_dim lengths_arr cdf m_base byte_sums_arr =
     decode_pieces fp16_vec cdf hidden_dim input m_base (zip lengths_arr byte_sums_arr)"

text \<open>The tables of a layer, computed from all its tokens (\<open>encode_meta_function_new\<close>).\<close>

record EncoderMeta =
  cdf_key :: CdfRaw
  cdf_value :: CdfRaw
  max_key :: "fp list"
  max_value :: "fp list"
  meta_T :: int
  meta_C :: int

definition encode_meta_function_new :: "bool \<Rightarrow> u16 list list \<Rightarrow> u16 list list \<Rightarrow> int \<Rightarrow> int \<Rightarrow> EncoderMeta result" where
  "encode_meta_function_new fused k_chunks v_chunks total_tokens hidden_dim =
     (let key_bins = make_key_bins_cpp 1; value_bins = make_value_bins_cpp 1 in
      bind_result (quantize_from_bins_raw_chunked fused key_bins 1 total_tokens hidden_dim k_chunks) (\<lambda>qk.
      bind_result (quantize_from_bins_raw_chunked fused value_bins 1 total_tokens hidden_dim v_chunks) (\<lambda>qv.
      bind_result (cdf_calculate_cpu (qr_q qk) 1 total_tokens hidden_dim (key_bins ! 0)) (\<lambda>ck.
      bind_result (cdf_calculate_cpu (qr_q qv) 1 total_tokens hidden_dim (value_bins ! 0)) (\<lambda>cv.
        Ok \<lparr>cdf_key = ck, cdf_value = cv, max_key = qr_max1 qk, max_value = qr_max1 qv, meta_T = total_tokens, meta_C = hidden_dim\<rparr>)))))"

end
