(* ===== verification/Cachegen_Correct.thy ===== *)
theory Cachegen_Correct
  imports Cachegen Slices
begin

text \<open>
  The codec around the range coder: codes of the quantiser stay below the number of bins, the frequencies of a layer are strictly
  increasing, and the decoder of a piece of tokens returns the codes its encoder was given whenever every channel ends in the
  lower half of the coder's range.
\<close>

subsection \<open>Codes\<close>

lemma small_fp: "rnd32 False 15 = Fin False 15" "mul32 (Fin False 2) (Fin False 15) = Fin False 30"
  by (simp_all add: rnd_def mul32_def max32_def Let_def)

lemma quant_clamp_range:
  "quant_clamp (Fin False 30) x = NaN \<or> (\<exists>s r. quant_clamp (Fin False 30) x = Fin s r \<and> 0 \<le> r \<and> r \<le> 30)"
  by (cases x) (auto simp: quant_clamp_def Let_def not_less)

lemma clamped_code: "0 \<le> fp_to_int (quant_clamp (Fin False 30) x) \<and> fp_to_int (quant_clamp (Fin False 30) x) \<le> 30"
proof (cases "quant_clamp (Fin False 30) x = NaN")
  case False
  then obtain s r where r: "quant_clamp (Fin False 30) x = Fin s r" "0 \<le> r" "r \<le> 30" using quant_clamp_range [of x] by blast
  have "trunc r \<le> 30" using trunc_le [of r 30] r(3) by simp
  moreover have "0 \<le> trunc r" using r(2) by (simp add: trunc_def)
  ultimately show ?thesis by (simp add: r(1) fp_to_int_def sat_def)
qed (simp add: fp_to_int_def)

lemma quantize_row_codes:
  assumes "b \<in> set (fst (quantize_row fused 32 row))" shows "unat b \<le> 30"
proof -
  have d: "to32 (fp_int (c_div 32 2 - 1)) = Fin False 15" by (simp add: c_div_def small_fp)
  obtain x where x: "b = of_int (fp_to_int (quant_clamp (Fin False 30) x))"
    using assms unfolding quantize_row_def Let_def d small_fp by auto
  define k where "k = fp_to_int (quant_clamp (Fin False 30) x)"
  have k: "0 \<le> k" "k \<le> 30" using clamped_code [of x] by (simp_all add: k_def)
  then have "b = of_nat (nat k)" using x by (simp add: k_def)
  with k show ?thesis by (simp only: unsigned_of_nat take_bit_eq_mod) simp
qed

lemma length_quantize_row [simp]: "length (fst (quantize_row fused bins row)) = length row"
  by (simp add: quantize_row_def Let_def)

lemma bins_one [simp]: "make_key_bins_cpp (Suc 0) = [32]" "make_value_bins_cpp (Suc 0) = [32]"
  by (simp_all add: make_key_bins_cpp_def make_value_bins_cpp_def key_first_layers_def key_first_bins_def value_first_layers_def value_first_bins_def)

subsection \<open>Frequencies\<close>

lemma hist_count_ok:
  assumes "length hist = max_bins + 1" "max_bins < 256" "\<forall>v\<in>set vs. unat v < max_bins" "sum_list hist + length vs < 65536"
  obtains h where "hist_count max_bins hist vs = Ok h" "length h = max_bins + 1" "hd h = hd hist" "sum_list h = sum_list hist + length vs"
proof -
  have "\<exists>h. hist_count max_bins hist vs = Ok h \<and> length h = max_bins + 1 \<and> hd h = hd hist \<and> sum_list h = sum_list hist + length vs"
    using assms(1,3,4)
  proof (induction vs arbitrary: hist)
    case (Cons v vs)
    let ?i = "unat v + 1"
    let ?h = "hist[?i := hist ! ?i + 1]"
    have i: "?i < length hist" using Cons.prems by simp
    have "hist ! ?i \<le> sum_list hist" by (rule member_le_sum_list) (use i in simp_all)
    then have m: "(hist ! ?i + 1) mod 65536 = hist ! ?i + 1" using Cons.prems(3) by simp
    have s: "sum_list ?h = sum_list hist + 1" using sum_list_update [OF i, of "hist ! ?i + 1"] elem_le_sum_list [OF i] by simp
    have "hd ?h = hd hist" using i by (cases hist) simp_all
    moreover obtain h where "hist_count max_bins ?h vs = Ok h" "length h = max_bins + 1" "hd h = hd ?h" "sum_list h = sum_list ?h + length vs"
      using Cons.IH [of ?h] Cons.prems s by auto
    ultimately show ?case using Cons.prems(1,2) assms(2) m s by (intro exI [of _ h]) (simp add: Let_def)
  qed simp
  with that show thesis by blast
qed

lemma hist_sums_ok:
  assumes "s + sum_list vs < 65536"
  shows "fst (hist_sums s vs) = map (\<lambda>i. s + sum_list (take (i + 1) vs)) [0..<length vs] \<and> snd (hist_sums s vs) = s + sum_list vs"
  using assms
proof (induction vs arbitrary: s)
  case (Cons v vs)
  have m: "(s + v) mod 65536 = s + v" using Cons.prems by simp
  have "map (\<lambda>i. s + sum_list (take (i + 1) (v # vs))) [0..<length (v # vs)] = (s + v) # map (\<lambda>i. s + v + sum_list (take (i + 1) vs)) [0..<length vs]"
    unfolding length_Cons upt_conv_Cons [OF zero_less_Suc] by (simp add: map_Suc_upt [symmetric] o_def del: upt_Suc)
  with Cons.IH [of "s + v"] Cons.prems show ?case by (simp add: m add.commute split_beta del: upt_Suc)
qed simp

lemma sum_list_take_mono: "i \<le> j \<Longrightarrow> sum_list (take i (xs :: nat list)) \<le> sum_list (take j xs)"
  by (metis le_add1 le_add_diff_inverse sum_list_append take_add)

lemma sum_list_take_le: "sum_list (take i (xs :: nat list)) \<le> sum_list xs"
  by (metis append_take_drop_id le_add1 sum_list_append)

text \<open>The normalised frequency of \<open>b\<close>: monotone, and together with the offset \<open>b\<close> it stays within 16 bits.\<close>

lemma cdf_norm_ok:
  assumes "2 \<le> max_bins" "max_bins < 256" "length h = max_bins" "sum_list h < 65536"
  shows "cdf_ok (map uint (cdf_norm max_bins (map (\<lambda>b. sum_list (take b h)) [0..<max_bins + 1]) (sum_list h)))" (is "cdf_ok (map uint ?row)")
proof -
  define T where "T = sum_list h"
  define F where "F = 65535 - max_bins"
  define g where "g b = F * sum_list (take b h) div max 1 T + b" for b
  have F: "nat ((65535 - int max_bins) mod 2 ^ 32) = F" using assms(2) by (simp add: F_def)
  have le: "sum_list (take b h) \<le> T" for b by (simp add: T_def sum_list_take_le)
  have "F * sum_list (take b h) < 2 ^ 32" for b
  proof -
    have "F * sum_list (take b h) \<le> 65535 * 65535" using le [of b] assms(4) by (intro mult_le_mono) (simp_all add: F_def T_def)
    then show ?thesis by simp
  qed
  then have m: "F * sum_list (take b h) mod 2 ^ 32 = F * sum_list (take b h)" for b by simp
  have "F * sum_list (take b h) div max 1 T \<le> F" for b
  proof -
    have "F * sum_list (take b h) \<le> F * max 1 T" using le [of b] by (intro mult_left_mono) auto
    then have "F * sum_list (take b h) div max 1 T \<le> F * max 1 T div max 1 T" by (rule div_le_mono)
    then show ?thesis by simp
  qed
  then have "g b \<le> F + b" for b by (simp add: g_def)
  then have top: "g b < 65536" if "b \<le> max_bins" for b
    using that assms(2) by (intro le_less_trans [OF \<open>g b \<le> F + b\<close>]) (simp add: F_def)
  have row: "?row = map (\<lambda>b. of_nat (g b)) [0..<max_bins + 1]"
    unfolding cdf_norm_def F Let_def T_def [symmetric] by (intro map_cong HOL.refl) (simp add: m [simplified] g_def nth_append del: upt_Suc)
  have nth: "map uint ?row ! b = int (g b)" if "b \<le> max_bins" for b
    using that top [OF that] unfolding row by (simp add: unsigned_of_nat take_bit_eq_mod nth_append del: upt_Suc)
  have mono: "g i < g j" if "i < j" for i j
  proof -
    have "F * sum_list (take i h) div max 1 T \<le> F * sum_list (take j h) div max 1 T"
      using sum_list_take_mono [of i j h] that by (intro div_le_mono mult_left_mono) simp_all
    with that show ?thesis by (simp add: g_def)
  qed
  have len: "length (map uint ?row) = max_bins + 1" unfolding row by simp
  show ?thesis unfolding cdf_ok_def len
  proof (intro conjI allI impI)
    show "map uint ?row ! 0 = 0" using nth [of 0] by (simp add: g_def)
  qed (use assms(1) nth mono top in auto)
qed

lemma cdf_channel_ok:
  assumes "2 \<le> max_bins" "max_bins < 256" "\<forall>v\<in>set vs. unat v < max_bins" "length vs < 65536"
  obtains row where "cdf_channel max_bins vs = Ok row" "length row = max_bins + 1" "cdf_ok (map uint row)"
proof -
  obtain h where h: "hist_count max_bins (replicate (max_bins + 1) 0) vs = Ok h" "length h = max_bins + 1" "hd h = 0" "sum_list h = length vs"
    using hist_count_ok [of "replicate (max_bins + 1) 0" max_bins vs] assms by (auto simp: sum_list_replicate)
  then obtain t where t: "h = 0 # t" "length t = max_bins" by (cases h) auto
  have "sum_list t < 65536" using h(4) t(1) assms(4) by simp
  note s = hist_sums_ok [of 0 t, simplified, OF this]
  have "0 # fst (hist_sums 0 t) = map (\<lambda>b. sum_list (take b t)) [0..<max_bins + 1]"
    using s t(2) by (simp add: upt_conv_Cons [of 0 "Suc max_bins"] map_Suc_upt [symmetric] o_def del: upt_Suc)
  then have c: "cdf_channel max_bins vs = Ok (cdf_norm max_bins (map (\<lambda>b. sum_list (take b t)) [0..<max_bins + 1]) (sum_list t))"
    using s unfolding cdf_channel_def h(1) bind_result_simps t(1) list.sel by (simp only: split_beta Let_def fst_conv snd_conv)
  show thesis
    by (rule that [OF c]) (use cdf_norm_ok [OF assms(1,2) t(2)] \<open>sum_list t < 65536\<close> in \<open>simp_all add: cdf_norm_def Let_def del: upt_Suc\<close>)
qed

lemma all_results_map: "(\<And>x. x \<in> set xs \<Longrightarrow> f x = Ok (g x)) \<Longrightarrow> all_results (map f xs) = Ok (map g xs)"
  by (induction xs) simp_all

lemma those_map: "(\<And>x. x \<in> set xs \<Longrightarrow> f x = Some (g x)) \<Longrightarrow> those (map f xs) = Some (map g xs)"
  by (induction xs) simp_all

lemma index_less: "t < n \<Longrightarrow> c < C \<Longrightarrow> t * C + c < n * C" for t n c C :: nat
  using mult_le_mono1 [of "Suc t" n C] by simp

lemma column_set: "length q = n * C \<Longrightarrow> c < C \<Longrightarrow> set (column C n q c) \<subseteq> set q"
  by (auto simp: column_def index_less)

text \<open>The tables of a layer.\<close>

definition cdf_table_ok :: "nat \<Rightarrow> CdfRaw \<Rightarrow> bool" where
  "cdf_table_ok C cdf \<longleftrightarrow> length (cdf_data cdf) = C * cdf_bins_p1 cdf \<and> (\<forall>c<C. cdf_ok (cdf_row (cdf_data cdf) (cdf_bins_p1 cdf) c))"

lemma cdf_row_concat:
  assumes "\<forall>r\<in>set rows. length r = lp" "c < length rows"
  shows "cdf_row (concat rows) lp c = map uint (rows ! c)"
  using slice_concat [of rows lp c lp 0] assms by (simp add: cdf_row_def slice_def mult.commute)

lemma length_cdf_row: "length cdf = C * lp \<Longrightarrow> c < C \<Longrightarrow> length (cdf_row cdf lp c) = lp"
  using mult_le_mono2 [of "Suc c" C lp] by (simp add: cdf_row_def mult.commute)

lemma cdf_calculate_ok:
  assumes "0 < T" "T < 65536" "0 < C" "length q = T * C" "2 \<le> max_bins" "max_bins < 256" "\<forall>b\<in>set q. unat b < max_bins"
  obtains cdf where "cdf_calculate_cpu q 1 (int T) (int C) (int max_bins) = Ok cdf" "cdf_bins_p1 cdf = max_bins + 1" "cdf_table_ok C cdf"
proof -
  have "\<exists>row. cdf_channel max_bins (column C T q c) = Ok row \<and> length row = max_bins + 1 \<and> cdf_ok (map uint row)" if "c < C" for c
  proof -
    have "\<forall>v\<in>set (column C T q c). unat v < max_bins" using column_set [OF assms(4) that] assms(7) by blast
    then show ?thesis using cdf_channel_ok [OF assms(5,6), of "column C T q c"] assms(2) by (auto simp: column_def)
  qed
  then obtain row where row: "cdf_channel max_bins (column C T q c) = Ok (row c)" "length (row c) = max_bins + 1" "cdf_ok (map uint (row c))" if "c < C" for c
    by metis
  let ?rows = "map row [0..<C]"
  have "all_results (map (\<lambda>i. cdf_channel max_bins (column C T (drop (C * T * (i div C)) q) (i mod C))) [0..<C]) = Ok ?rows"
    by (rule all_results_map) (simp add: row)
  then have c: "cdf_calculate_cpu q 1 (int T) (int C) (int max_bins) = Ok \<lparr>cdf_data = concat ?rows, cdf_C = C, cdf_bins_p1 = max_bins + 1\<rparr>" (is "_ = Ok ?cdf")
    using assms by (simp add: cdf_calculate_cpu_def)
  have len: "\<forall>r\<in>set ?rows. length r = max_bins + 1" using row(2) by simp
  have "length (concat ?rows) = C * (max_bins + 1)" using length_concat_eq [of ?rows "max_bins + 1"] len by simp
  moreover have "cdf_ok (cdf_row (concat ?rows) (max_bins + 1) i)" if "i < C" for i
    using cdf_row_concat [OF len, of i] that row(3) by simp
  ultimately have "cdf_table_ok C ?cdf" unfolding cdf_table_ok_def by simp
  with c that show thesis by simp
qed

subsection \<open>A piece\<close>

definition ends_low :: "int list \<Rightarrow> nat list \<Rightarrow> bool" where
  "ends_low cdf xs \<longleftrightarrow> (case encode_state cdf xs of None \<Rightarrow> False | Some s \<Rightarrow> e_low s \<le> HALF)"

text \<open>All channels of the piece \<open>q\<close> end with \<open>low\<close> in the lower half.\<close>

definition piece_ends_low :: "CdfRaw \<Rightarrow> nat \<Rightarrow> bytes \<Rightarrow> bool" where
  "piece_ends_low cdf C q \<longleftrightarrow>
     (\<forall>c<C. ends_low (cdf_row (cdf_data cdf) (cdf_bins_p1 cdf) c) (map unat (column C MAX_TOKENS_PER_CHUNK q c)))"

lemma offsets_concat:
  "\<forall>ch\<in>set chans. length ch < 256 \<Longrightarrow> c < length chans \<Longrightarrow>
    offsets_from off (map (\<lambda>bs. of_nat (length bs)) chans) ! c = off + length (concat (take c chans))"
proof (induction chans arbitrary: c off)
  case (Cons ch chans)
  then have "unat (of_nat (length ch) :: u8) = length ch" by (simp add: unsigned_of_nat take_bit_eq_mod)
  with Cons show ?case by (cases c) simp_all
qed simp

lemma concat_piece: "c < length css \<Longrightarrow> take (length (css ! c)) (drop (length (concat (take c css))) (concat css @ rest)) = css ! c"
proof -
  assume c: "c < length css"
  have "concat css = concat (take c css) @ css ! c @ concat (drop (Suc c) css)"
    using arg_cong [OF id_take_nth_drop [OF c], of concat] by simp
  then show ?thesis by simp
qed

lemma transposed:
  assumes "length q = n * C" "\<And>c. c < C \<Longrightarrow> chans c = map unat (column C n q c)"
  shows "map (\<lambda>i. of_nat (map chans [0..<C] ! (i mod C) ! (i div C))) [0..<n * C] = q"
proof (rule nth_equalityI)
  fix i assume "i < length (map (\<lambda>i. of_nat (map chans [0..<C] ! (i mod C) ! (i div C)) :: u8) [0..<n * C])"
  then have i: "i < n * C" by simp
  then have "0 < C" by (intro gr0I) simp
  with i have c: "i mod C < C" "i div C < n" by (simp_all add: less_mult_imp_div_less)
  then show "map (\<lambda>i. of_nat (map chans [0..<C] ! (i mod C) ! (i div C))) [0..<n * C] ! i = q ! i"
    using i by (simp add: assms(2) column_def)
qed (simp add: assms(1))

lemma piece_coded:
  assumes "cdf_table_ok C cdf" "0 < C" "length q = MAX_TOKENS_PER_CHUNK * C" "3 \<le> cdf_bins_p1 cdf"
  obtains bs lens where
    "encode_ntokens_cpu_new_range (cdf_data cdf) (int C) (int (cdf_bins_p1 cdf)) q (int MAX_TOKENS_PER_CHUNK) = Some (Ok (bs, lens))"
    "length bs \<le> 37 * C"
    "piece_ends_low cdf C q \<Longrightarrow> \<forall>b\<in>set q. unat b + 2 \<le> cdf_bins_p1 cdf \<Longrightarrow>
      decode_ntokens_cpu_new_range (cdf_data cdf) (int C) (int (cdf_bins_p1 cdf)) (bs @ rest) lens = Some (Ok q)"
proof -
  let ?row = "cdf_row (cdf_data cdf) (cdf_bins_p1 cdf)" and ?col = "\<lambda>c. map unat (column C MAX_TOKENS_PER_CHUNK q c)"
  have len: "length (cdf_data cdf) = C * cdf_bins_p1 cdf" and ok: "\<And>c. c < C \<Longrightarrow> cdf_ok (?row c)" using assms(1) by (auto simp: cdf_table_ok_def)
  define ch where "ch c = the (encode_channel (?row c) (?col c))" for c
  have ch: "encode_channel (?row c) (?col c) = Some (ch c)" "length (ch c) \<le> 37"
    "ends_low (?row c) (?col c) \<Longrightarrow> decode_channel (?row c) MAX_TOKENS_PER_CHUNK (ch c) = Some (map (clamp_symbol (?row c)) (?col c))"
    if "c < C" for c
    by (rule encode_channel_ok [OF ok [OF that], of "?col c"]; simp add: ch_def ends_low_def column_def)+
  let ?chans = "map ch [0..<C]" and ?lens = "map (\<lambda>bs. of_nat (length bs)) (map ch [0..<C]) :: bytes"
  have e: "encode_ntokens_cpu_new_range (cdf_data cdf) (int C) (int (cdf_bins_p1 cdf)) q (int MAX_TOKENS_PER_CHUNK) = Some (Ok (concat ?chans, ?lens))"
    using assms(2-4) len those_map [of "[0..<C]" "\<lambda>c. encode_channel (?row c) (?col c)" ch] ch(1)
    by (simp add: encode_ntokens_cpu_new_range_def mult.commute)
  have short: "\<forall>b\<in>set ?chans. length b < 256" using ch(2) by fastforce
  have lu: "unat (?lens ! c) = length (ch c)" if "c < C" for c using short that by (simp add: unsigned_of_nat take_bit_eq_mod)
  have "length (concat ?chans) = sum_list (map (\<lambda>c. length (ch c)) [0..<C])" by (simp add: length_concat o_def)
  also have "\<dots> \<le> sum_list (map (\<lambda>_. 37) [0..<C])" by (rule sum_list_mono) (simp add: ch(2))
  finally have size: "length (concat ?chans) \<le> 37 * C" by (simp add: sum_list_triv mult.commute)
  have d: "decode_ntokens_cpu_new_range (cdf_data cdf) (int C) (int (cdf_bins_p1 cdf)) (concat ?chans @ rest) ?lens = Some (Ok q)"
    if low: "piece_ends_low cdf C q" and q: "\<forall>b\<in>set q. unat b + 2 \<le> cdf_bins_p1 cdf"
  proof -
    have "decode_channel (?row c) MAX_TOKENS_PER_CHUNK (take (unat (?lens ! c)) (drop (offsets_from 0 ?lens ! c) (concat ?chans @ rest))) = Some (?col c)"
      if "c < C" for c
    proof -
      have "offsets_from 0 ?lens ! c = length (concat (take c ?chans))" using offsets_concat [OF short, of c 0] that by simp
      moreover have "?chans ! c = ch c" "c < length ?chans" using that by simp_all
      ultimately have "take (unat (?lens ! c)) (drop (offsets_from 0 ?lens ! c) (concat ?chans @ rest)) = ch c"
        using concat_piece [of c ?chans rest] by (simp only: lu [OF that])
      moreover have "length (?row c) = cdf_bins_p1 cdf" by (rule length_cdf_row [OF len that])
      then have "clamp_symbol (?row c) (unat b) = unat b" if "b \<in> set q" for b using q that by (auto simp: clamp_symbol_def)
      then have "map (clamp_symbol (?row c)) (?col c) = ?col c"
        using column_set [OF assms(3) that] by (intro map_idI) auto
      ultimately show ?thesis using ch(3) [OF that] low that by (simp add: piece_ends_low_def)
    qed
    then have "those (map (\<lambda>c. decode_channel (?row c) MAX_TOKENS_PER_CHUNK (take (unat (?lens ! c)) (drop (offsets_from 0 ?lens ! c) (concat ?chans @ rest)))) [0..<C]) = Some (map ?col [0..<C])"
      by (intro those_map) simp
    moreover have "sum_list (map unat ?lens) = length (concat ?chans)"
      unfolding length_concat using short by (intro arg_cong [of _ _ sum_list] nth_equalityI) (simp_all add: o_def unsigned_of_nat take_bit_eq_mod)
    ultimately show ?thesis using transposed [OF assms(3), of ?col] len by (simp add: decode_ntokens_cpu_new_range_def)
  qed
  show thesis by (rule that [OF e size d])
qed

subsection \<open>A chunk\<close>

lemma map_upt_add: "map f [0..<a + b] = map f [0..<a] @ map (\<lambda>j. f (a + j)) [0..<b]"
  by (induction b) simp_all

lemma dequantize_append:
  assumes "length q1 = T1 * C" "0 < C" "T1 \<le> length m"
  shows "dequantize_cpu_into_new_neon v (q1 @ q2) m (T1 + T2) C bins =
    dequantize_cpu_into_new_neon v q1 m T1 C bins @ dequantize_cpu_into_new_neon v q2 (drop T1 m) T2 C bins"
proof -
  have i: "(T1 * C + j) div C = T1 + j div C" "(T1 * C + j) mod C = j mod C" for j using assms(2) by simp_all
  have m: "drop T1 m ! k = m ! (T1 + k)" for k using assms(3) by simp
  have q: "(q1 @ q2) ! (T1 * C + j) = q2 ! j" for j by (simp add: assms(1) [symmetric])
  show ?thesis unfolding dequantize_cpu_into_new_neon_def dequantize_cpu_into_new_def Let_def distrib_right map_upt_add i q m
    by (auto simp: assms(1) nth_append replicate_add)
qed

lemma dequantize_cong:
  assumes "\<And>t. t < T \<Longrightarrow> m ! t = m' ! t"
  shows "dequantize_cpu_into_new_neon v q m T C bins = dequantize_cpu_into_new_neon v q m' T C bins"
proof -
  have "m ! (i div C) = m' ! (i div C)" if "i \<in> set [0..<T * C]" for i using that by (intro assms) (simp add: less_mult_imp_div_less)
  then show ?thesis unfolding dequantize_cpu_into_new_neon_def dequantize_cpu_into_new_def Let_def by (auto intro!: map_cong)
qed

lemma pieces_coded:
  assumes "cdf_table_ok C cdf" "0 < C" "C \<le> 1771" "3 \<le> cdf_bins_p1 cdf" "\<forall>q\<in>set qs. length q = MAX_TOKENS_PER_CHUNK * C"
  shows "\<exists>bs lens sms. encode_pieces cdf (int C) qs = Some (Ok (bs, lens, sms)) \<and> length bs \<le> 37 * C * length qs \<and>
    ((\<forall>q\<in>set qs. piece_ends_low cdf C q \<and> (\<forall>b\<in>set q. unat b + 2 \<le> cdf_bins_p1 cdf)) \<longrightarrow>
      (\<forall>m. MAX_TOKENS_PER_CHUNK * length qs \<le> length m \<longrightarrow>
        decode_pieces v cdf (int C) bs m (zip lens sms) =
          Some (Ok (dequantize_cpu_into_new_neon v (concat qs) m (MAX_TOKENS_PER_CHUNK * length qs) C (int (cdf_bins_p1 cdf) - 1)))))"
  using assms(5)
proof (induction qs)
  case Nil
  then show ?case by (auto simp: dequantize_cpu_into_new_neon_def dequantize_cpu_into_new_def Let_def)
next
  case (Cons q qs)
  obtain bs lens sms where IH: "encode_pieces cdf (int C) qs = Some (Ok (bs, lens, sms))" "length bs \<le> 37 * C * length qs"
    "\<And>m. \<forall>q\<in>set qs. piece_ends_low cdf C q \<and> (\<forall>b\<in>set q. unat b + 2 \<le> cdf_bins_p1 cdf) \<Longrightarrow> MAX_TOKENS_PER_CHUNK * length qs \<le> length m \<Longrightarrow>
        decode_pieces v cdf (int C) bs m (zip lens sms) =
          Some (Ok (dequantize_cpu_into_new_neon v (concat qs) m (MAX_TOKENS_PER_CHUNK * length qs) C (int (cdf_bins_p1 cdf) - 1)))"
  proof -
    have "\<forall>q\<in>set qs. length q = MAX_TOKENS_PER_CHUNK * C" using Cons.prems by simp
    from Cons.IH [OF this] show thesis by (elim exE conjE) (rule that; blast)
  qed
  have q: "length q = MAX_TOKENS_PER_CHUNK * C" using Cons.prems by simp
  obtain b1 l1 where p: "encode_ntokens_cpu_new_range (cdf_data cdf) (int C) (int (cdf_bins_p1 cdf)) q (int MAX_TOKENS_PER_CHUNK) = Some (Ok (b1, l1))"
    "length b1 \<le> 37 * C" "piece_ends_low cdf C q \<Longrightarrow> \<forall>b\<in>set q. unat b + 2 \<le> cdf_bins_p1 cdf \<Longrightarrow>
      decode_ntokens_cpu_new_range (cdf_data cdf) (int C) (int (cdf_bins_p1 cdf)) (b1 @ bs) l1 = Some (Ok q)"
    by (rule piece_coded [OF assms(1,2) q assms(4), where rest = bs]) blast
  have "length b1 < 65536" using p(2) assms(3) by simp
  then have u: "unat (of_nat (length b1) :: u16) = length b1" by (simp add: unsigned_of_nat take_bit_eq_mod)
  have "encode_pieces cdf (int C) (q # qs) = Some (Ok (b1 @ bs, l1 # lens, of_nat (length b1) # sms))" using p(1) IH(1) by simp
  moreover have "length (b1 @ bs) \<le> 37 * C * length (q # qs)" using p(2) IH(2) by simp
  moreover have "decode_pieces v cdf (int C) (b1 @ bs) m (zip (l1 # lens) (of_nat (length b1) # sms)) =
      Some (Ok (dequantize_cpu_into_new_neon v (concat (q # qs)) m (MAX_TOKENS_PER_CHUNK * length (q # qs)) C (int (cdf_bins_p1 cdf) - 1)))"
    if "\<forall>q\<in>set (q # qs). piece_ends_low cdf C q \<and> (\<forall>b\<in>set q. unat b + 2 \<le> cdf_bins_p1 cdf)"
      "MAX_TOKENS_PER_CHUNK * length (q # qs) \<le> length m" for m
    using p(3) IH(3) [of "drop MAX_TOKENS_PER_CHUNK m"] that u dequantize_append [OF q assms(2), of m v "concat qs" "MAX_TOKENS_PER_CHUNK * length qs"]
    by simp
  ultimately show ?case by blast
qed

lemma concat_slices: "concat (map (\<lambda>i. take n (drop (n * i) q)) [0..<k]) = take (n * k) q"
  by (induction k) (simp_all add: take_add [symmetric] add.commute)

lemma pieces_split:
  assumes "length q = TOKENS_PER_CHUNK * C"
  shows "concat (pieces C q) = q" "length (pieces C q) = 16" "\<forall>p\<in>set (pieces C q). length p = MAX_TOKENS_PER_CHUNK * C"
proof -
  have "pieces C q = map (\<lambda>i. take (16 * C) (drop (16 * C * i) q)) [0..<16]" by (simp add: pieces_def mult.assoc mult.left_commute)
  then show "concat (pieces C q) = q" using concat_slices [of "16 * C" q 16] assms by simp
  show "length (pieces C q) = 16" by (simp add: pieces_def)
  show "\<forall>p\<in>set (pieces C q). length p = MAX_TOKENS_PER_CHUNK * C"
  proof
    fix p assume "p \<in> set (pieces C q)"
    then obtain i where i: "i < 16" "p = take (16 * C) (drop (16 * C * i) q)" by (auto simp: pieces_def mult.assoc mult.left_commute)
    have "16 * C * Suc i \<le> 16 * C * 16" using i(1) by (intro mult_le_mono2) simp
    then have "16 * C \<le> 256 * C - 16 * C * i" unfolding mult_Suc_right by linarith
    then show "length p = MAX_TOKENS_PER_CHUNK * C" using i(2) assms by (simp only: length_take length_drop min_absorb2)
  qed
qed

subsection \<open>A layer\<close>

lemma quant_rows_ok:
  assumes "\<And>i. i < n \<Longrightarrow> length (row i) = C"
  shows "length (qr_q (quant_rows (map (\<lambda>i. quantize_row fused 32 (row i)) [0..<n]))) = n * C"
    "\<forall>b\<in>set (qr_q (quant_rows (map (\<lambda>i. quantize_row fused 32 (row i)) [0..<n]))). unat b \<le> 30"
proof -
  let ?rows = "map fst (map (\<lambda>i. quantize_row fused 32 (row i)) [0..<n])"
  have "length (concat ?rows) = length ?rows * C" by (rule length_concat_eq) (auto simp: assms)
  then show "length (qr_q (quant_rows (map (\<lambda>i. quantize_row fused 32 (row i)) [0..<n]))) = n * C" by (simp add: quant_rows_def)
  show "\<forall>b\<in>set (qr_q (quant_rows (map (\<lambda>i. quantize_row fused 32 (row i)) [0..<n]))). unat b \<le> 30"
    by (auto simp: quant_rows_def dest: quantize_row_codes)
qed

lemma row_in_chunk: "t < 256 \<Longrightarrow> length x = TOKENS_PER_CHUNK * C \<Longrightarrow> C * (t + 1) \<le> length x" for x :: "u16 list"
  using mult_le_mono2 [of "t + 1" 256 C] by (simp add: mult.commute)

text \<open>The codes and magnitudes of a chunk of the right size.\<close>

definition chunk_codes :: "bool \<Rightarrow> nat \<Rightarrow> u16 list \<Rightarrow> QuantResultRaw" where
  "chunk_codes fused C x = quant_rows (map (\<lambda>i. quantize_row fused 32 (take C (drop (C * i) x))) [0..<TOKENS_PER_CHUNK])"

lemma chunk_quantized:
  assumes "length x = TOKENS_PER_CHUNK * C" "0 < C"
  shows "quantize_from_bins_raw fused [32] 1 (int TOKENS_PER_CHUNK) (int C) x = Ok (chunk_codes fused C x)"
    "length (qr_q (chunk_codes fused C x)) = TOKENS_PER_CHUNK * C" "\<forall>b\<in>set (qr_q (chunk_codes fused C x)). unat b \<le> 30"
    "length (qr_max1 (chunk_codes fused C x)) = TOKENS_PER_CHUNK"
proof -
  have rows: "map (\<lambda>i. quantize_row fused ([32] ! (i div 256)) (take C (drop (C * i) x))) [0..<256] =
      map (\<lambda>i. quantize_row fused 32 (take C (drop (C * i) x))) [0..<256]" by (intro map_cong) simp_all
  show "quantize_from_bins_raw fused [32] 1 (int TOKENS_PER_CHUNK) (int C) x = Ok (chunk_codes fused C x)"
    using assms by (simp add: quantize_from_bins_raw_def chunk_codes_def) (rule arg_cong [OF rows])
  have l: "length (take C (drop (C * i) x)) = C" if "i < TOKENS_PER_CHUNK" for i using row_in_chunk [OF that assms(1)] by simp
  show "length (qr_q (chunk_codes fused C x)) = TOKENS_PER_CHUNK * C" "\<forall>b\<in>set (qr_q (chunk_codes fused C x)). unat b \<le> 30"
    unfolding chunk_codes_def by (rule quant_rows_ok; use l in simp)+
  show "length (qr_max1 (chunk_codes fused C x)) = TOKENS_PER_CHUNK" by (simp add: chunk_codes_def quant_rows_def)
qed

lemma layer_tables:
  assumes "0 < C" "0 < n" "n < 256" "length chunks = n" "\<forall>x\<in>set chunks. length x = TOKENS_PER_CHUNK * C"
  obtains qr cdf where "quantize_from_bins_raw_chunked fused [32] 1 (int (TOKENS_PER_CHUNK * n)) (int C) chunks = Ok qr"
    "cdf_calculate_cpu (qr_q qr) 1 (int (TOKENS_PER_CHUNK * n)) (int C) 32 = Ok cdf" "cdf_table_ok C cdf" "cdf_bins_p1 cdf = 33"
    "length (qr_max1 qr) = TOKENS_PER_CHUNK * n"
    "\<And>j t. j < n \<Longrightarrow> t < TOKENS_PER_CHUNK \<Longrightarrow> qr_max1 qr ! (TOKENS_PER_CHUNK * j + t) = qr_max1 (chunk_codes fused C (chunks ! j)) ! t"
proof -
  let ?T = "TOKENS_PER_CHUNK * n"
  define qr where "qr = quant_rows (map (\<lambda>i. quantize_row fused 32 (chunk_row C chunks i)) [0..<?T])"
  have ix: "i div 256 < n" "C * (i mod 256 + 1) \<le> length (chunks ! (i div 256))" if "i < ?T" for i
    using that row_in_chunk [of "i mod 256" "chunks ! (i div 256)" C] assms(4,5) by (simp_all add: less_mult_imp_div_less mult.commute)
  have rows: "map (\<lambda>i. quantize_row fused ([32] ! (i div ?T)) (chunk_row C chunks (i mod ?T))) [0..<?T] =
      map (\<lambda>i. quantize_row fused 32 (chunk_row C chunks i)) [0..<?T]" by (intro map_cong) simp_all
  have "\<not> (\<exists>t\<in>set [0..<?T]. length chunks \<le> t div 256 \<or> length (chunks ! (t div 256)) < C * (t mod 256 + 1))"
    using ix assms(4) by (auto simp: not_le not_less)
  then have q: "quantize_from_bins_raw_chunked fused [32] 1 (int ?T) (int C) chunks = Ok qr"
    unfolding quantize_from_bins_raw_chunked_def qr_def using assms(1,2) by (simp add: nat_mult_distrib) (rule arg_cong [OF rows])
  have l: "length (chunk_row C chunks i) = C" if "i < ?T" for i using ix [OF that] by (simp add: chunk_row_def)
  have r: "length (qr_q qr) = ?T * C" "\<forall>b\<in>set (qr_q qr). unat b \<le> 30" unfolding qr_def by (rule quant_rows_ok; simp add: l)+
  have "?T < 65536" using assms(3) by simp
  moreover have "\<forall>b\<in>set (qr_q qr). unat b < 32" using r(2) by force
  ultimately obtain cdf where cdf: "cdf_calculate_cpu (qr_q qr) 1 (int ?T) (int C) (int 32) = Ok cdf" "cdf_bins_p1 cdf = 32 + 1" "cdf_table_ok C cdf"
    using cdf_calculate_ok [of ?T C "qr_q qr" 32] r(1) assms(1,2) by auto
  have m: "qr_max1 qr ! (256 * j + t) = qr_max1 (chunk_codes fused C (chunks ! j)) ! t" if "j < n" "t < 256" for j t
  proof -
    have "256 * j + t < 256 * n" using index_less [OF that] by (simp add: mult.commute)
    then show ?thesis using that by (simp add: qr_def chunk_codes_def quant_rows_def chunk_row_def)
  qed
  show thesis by (rule that [OF q _ cdf(3) _ _ m]) (use cdf in \<open>simp_all add: qr_def quant_rows_def\<close>)
qed

text \<open>A chunk of the layer through the encoder and back.\<close>

lemma chunk_coded:
  assumes "0 < C" "C \<le> 1771" "length x = TOKENS_PER_CHUNK * C" "cdf_table_ok C cdf" "cdf_bins_p1 cdf = 33"
    "TOKENS_PER_CHUNK \<le> length m" "\<And>t. t < TOKENS_PER_CHUNK \<Longrightarrow> m ! t = qr_max1 (chunk_codes fused C x) ! t"
  shows "\<exists>bs lens sms. encode_function_new fused x (int C) is_key cdf = Some (Ok (bs, lens, sms)) \<and> length bs \<le> 592 * C \<and>
    ((\<forall>q\<in>set (pieces C (qr_q (chunk_codes fused C x))). piece_ends_low cdf C q) \<longrightarrow>
     decode_function_new v bs (int C) lens cdf m sms =
       Some (Ok (dequantize_cpu_into_new_neon v (qr_q (chunk_codes fused C x)) (qr_max1 (chunk_codes fused C x)) TOKENS_PER_CHUNK C 32)))"
proof -
  note k = chunk_quantized [OF assms(3,1), of fused]
  note p = pieces_split [OF k(2)]
  have "set q \<subseteq> set (qr_q (chunk_codes fused C x))" if "q \<in> set (pieces C (qr_q (chunk_codes fused C x)))" for q
    using p(1) that by (metis UN_upper set_concat)
  then have codes: "\<forall>q\<in>set (pieces C (qr_q (chunk_codes fused C x))). \<forall>b\<in>set q. unat b + 2 \<le> cdf_bins_p1 cdf"
    using k(3) assms(5) by fastforce
  have e: "encode_function_new fused x (int C) is_key cdf = encode_pieces cdf (int C) (pieces C (qr_q (chunk_codes fused C x)))"
    using k(1) by (simp add: encode_function_new_def)
  have "3 \<le> cdf_bins_p1 cdf" using assms(5) by simp
  from pieces_coded [OF assms(4,1,2) this p(3), of v]
  obtain bs lens sms where c: "encode_pieces cdf (int C) (pieces C (qr_q (chunk_codes fused C x))) = Some (Ok (bs, lens, sms))" "length bs \<le> 592 * C"
    "(\<forall>q\<in>set (pieces C (qr_q (chunk_codes fused C x))). piece_ends_low cdf C q) \<longrightarrow> decode_pieces v cdf (int C) bs m (zip lens sms) =
      Some (Ok (dequantize_cpu_into_new_neon v (qr_q (chunk_codes fused C x)) m TOKENS_PER_CHUNK C 32))"
    using codes assms(5,6) unfolding p(1,2) by auto
  then show ?thesis unfolding e decode_function_new_def using dequantize_cong [OF assms(7), where v = v] by auto
qed

end
