(* ===== verification/Cachegen_Demo.thy ===== *)
theory Cachegen_Demo
  imports Cachegen_Correct
begin

text \<open>
  Concrete layers of one chunk, given by the rows of their tokens, with their tables and streams: a chunk of zeros in one channel and a chunk of
  two channels in which the first one ends above one half of the coder's range.
\<close>

subsection \<open>Chunks given by their tokens\<close>

lemma take_drop_concat:
  assumes "\<forall>r\<in>set rows. length r = C"
  shows "drop (C * k) (concat rows) = concat (drop k rows)" "take (C * k) (concat rows) = concat (take k rows)"
proof -
  have "drop (C * k) (concat rows) = concat (drop k rows) \<and> take (C * k) (concat rows) = concat (take k rows)"
    using assms
  proof (induction k arbitrary: rows)
    case (Suc k)
    then show ?case by (cases rows) simp_all
  qed simp
  then show "drop (C * k) (concat rows) = concat (drop k rows)" "take (C * k) (concat rows) = concat (take k rows)" by simp_all
qed

lemma row_of_concat:
  assumes "\<forall>r\<in>set rows. length r = C" "i < length rows"
  shows "take C (drop (C * i) (concat rows)) = rows ! i"
  using assms take_drop_concat(1) [OF assms(1), of i] Cons_nth_drop_Suc [OF assms(2), symmetric] by simp

lemma chunk_codes_rows:
  assumes "\<forall>r\<in>set rows. length r = C" "length rows = TOKENS_PER_CHUNK"
  shows "chunk_codes fused C (concat rows) = quant_rows (map (quantize_row fused 32) rows)"
proof -
  have "map (\<lambda>i. quantize_row fused 32 (take C (drop (C * i) (concat rows)))) [0..<TOKENS_PER_CHUNK] = map (quantize_row fused 32) rows"
    using row_of_concat [OF assms(1)] assms(2) by (intro nth_equalityI) simp_all
  then show ?thesis by (simp only: chunk_codes_def)
qed

lemma column_rows:
  assumes "\<forall>r\<in>set rows. length r = C" "length rows = n" "c < C"
  shows "column C n (concat rows) c = map (\<lambda>r. r ! c) rows"
proof (rule nth_equalityI)
  fix t assume "t < length (column C n (concat rows) c)"
  then have t: "t < length rows" using assms(2) by (simp add: column_def)
  have "C * t + c < length (concat rows)" using index_less [OF t assms(3)] length_concat_eq [of rows C] assms(1) by (simp add: mult.commute)
  moreover have "take C (drop (C * t) (concat rows)) ! c = rows ! t ! c" using row_of_concat [OF assms(1) t] by simp
  ultimately have "concat rows ! (C * t + c) = rows ! t ! c" using assms(3) by simp
  then show "column C n (concat rows) c ! t = map (\<lambda>r. r ! c) rows ! t" using t assms(2) by (simp add: column_def mult.commute)
qed (simp add: column_def assms(2))

lemma pieces_rows:
  assumes "\<forall>r\<in>set rows. length r = C" "i < 16"
  shows "pieces C (concat rows) ! i = concat (take 16 (drop (16 * i) rows))"
proof -
  have "\<forall>r\<in>set (drop (16 * i) rows). length r = C" using assms(1) by (auto dest: in_set_dropD)
  with take_drop_concat(1) [OF assms(1), of "16 * i"] take_drop_concat(2) [of "drop (16 * i) rows" C 16]
  show ?thesis using assms(2) by (simp add: pieces_def mult.commute)
qed

lemma single_chunk:
  assumes "0 < C" "length x = TOKENS_PER_CHUNK * C"
  shows "quantize_from_bins_raw_chunked fused [32] 1 (int TOKENS_PER_CHUNK) (int C) [x] = Ok (chunk_codes fused C x)"
proof -
  have rows: "map (\<lambda>i. quantize_row fused ([32] ! (i div 256)) (chunk_row C [x] (i mod 256))) [0..<256] =
      map (\<lambda>i. quantize_row fused 32 (take C (drop (C * i) x))) [0..<256]" by (intro map_cong) (simp_all add: chunk_row_def)
  have "C * (t mod 256 + 1) \<le> length ([x] ! (t div 256))" if "t < 256" for t using row_in_chunk [OF that assms(2)] that by simp
  then have "\<not> (\<exists>t\<in>set [0..<256]. length [x] \<le> t div 256 \<or> length ([x] ! (t div 256)) < C * (t mod 256 + 1))"
    by (auto simp: not_le not_less)
  then show ?thesis using assms(1) unfolding quantize_from_bins_raw_chunked_def chunk_codes_def by simp (rule arg_cong [OF rows])
qed

lemma hist_count_replicate:
  "v + 1 < length h \<Longrightarrow> v < n \<Longrightarrow> n < 256 \<Longrightarrow> h ! (v + 1) + k < 65536 \<Longrightarrow>
    hist_count n h (replicate k (of_nat v) @ rest) = hist_count n (h[v + 1 := h ! (v + 1) + k]) rest"
proof (induction k arbitrary: h)
  case (Suc k)
  have "unat (of_nat v :: u8) = v" using Suc.prems by (simp add: unsigned_of_nat take_bit_eq_mod)
  moreover have "h[v + 1 := h ! (v + 1) + 1] ! (v + 1) = h ! (v + 1) + 1" using Suc.prems by simp
  ultimately show ?case using Suc.IH [of "h[v + 1 := h ! (v + 1) + 1]"] Suc.prems by (simp add: Let_def)
qed simp

subsection \<open>Small streams\<close>

lemma add_bits_slow_small: "0 < n \<Longrightarrow> l + n < 32 \<Longrightarrow> add_bits_slow b n \<lparr>output_reg = r, output_reg_len = l, out = bs\<rparr> =
    \<lparr>output_reg = r * 2 ^ n mod 2 ^ 32 + (if b then 2 ^ n - 1 else 0), output_reg_len = l + n, out = bs\<rparr>"
  by (simp add: add_bits_slow.simps [of _ n] add_bits_slow.simps [of _ 0] Let_def)

lemma add_bits_run_small: "0 < n \<Longrightarrow> l + n \<le> 8 \<Longrightarrow> l < 8 \<Longrightarrow> n < 8 \<Longrightarrow> add_bits_run b n \<lparr>output_reg = r, output_reg_len = l, out = bs\<rparr> =
    \<lparr>output_reg = r * 2 ^ n mod 2 ^ 32 + (if b then 2 ^ n - 1 else 0), output_reg_len = l + n, out = bs\<rparr>"
  by (cases "n = 8 - l") (auto simp: add_bits_run_def Let_def add_bits_slow_small)

lemma replicate16: "replicate 16 x = [x, x, x, x, x, x, x, x, x, x, x, x, x, x, x, x]"
  by (simp add: numeral_eq_Suc)

lemmas encode_eval = replicate16 rc_narrow_def cdf_lo_def cdf_hi_def rc_renorm.simps rc_emit_def rc_double_def rc_init_def empty_packer_def
  append_bit_and_pending_def add_bits_run_small

text \<open>The table of a channel of 256 equal codes 15, and the one of 64 codes 0 and 192 codes 15.\<close>

definition row_const :: "u16 list" where
  "row_const = [0, 1, 2, 3, 4, 5, 6, 7, 8, 9, 10, 11, 12, 13, 14, 15, 65519, 65520, 65521, 65522, 65523, 65524, 65525, 65526, 65527, 65528,
     65529, 65530, 65531, 65532, 65533, 65534, 65535]"

definition row_top :: "u16 list" where
  "row_top = [0, 1, 2, 3, 4, 5, 6, 7, 8, 9, 10, 11, 12, 13, 14, 15, 16, 17, 18, 19, 20, 21, 22, 23, 24, 25, 26, 27, 28, 29, 30, 65534, 65535]"

definition row_mixed :: "u16 list" where
  "row_mixed = [0, 16376, 16377, 16378, 16379, 16380, 16381, 16382, 16383, 16384, 16385, 16386, 16387, 16388, 16389, 16390, 65519, 65520, 65521,
     65522, 65523, 65524, 65525, 65526, 65527, 65528, 65529, 65530, 65531, 65532, 65533, 65534, 65535]"

lemma replicate33: "replicate (32 + 1) (0 :: nat) = [0, 0, 0, 0, 0, 0, 0, 0, 0, 0, 0, 0, 0, 0, 0, 0, 0, 0, 0, 0, 0, 0, 0, 0, 0, 0, 0, 0, 0, 0, 0, 0, 0]"
  by (simp add: numeral_eq_Suc)

lemma upt33: "[0..<32 + 1] = [0, 1, 2, 3, 4, 5, 6, 7, 8, 9, 10, 11, 12, 13, 14, 15, 16, 17, 18, 19, 20, 21, 22, 23, 24, 25, 26, 27, 28, 29, 30, 31, 32]"
  by (simp add: upt_conv_Cons)

lemma row_tables:
  "cdf_channel 32 (replicate 256 15) = Ok row_const" "cdf_channel 32 (replicate 256 30) = Ok row_top"
  "cdf_channel 32 (replicate 64 0 @ replicate 192 15) = Ok row_mixed"
proof -
  let ?z = "replicate (32 + 1) 0 :: nat list"
  have "hist_count 32 ?z (replicate 256 15) = Ok (?z[16 := 256])"
    using hist_count_replicate [of 15 ?z 32 256 "[]"] by (simp del: replicate.simps)
  then show "cdf_channel 32 (replicate 256 15) = Ok row_const"
    unfolding cdf_channel_def by (simp add: replicate33 [simplified] cdf_norm_def upt33 [simplified] row_const_def del: upt_Suc replicate.simps)
  have "hist_count 32 ?z (replicate 256 30) = Ok (?z[31 := 256])"
    using hist_count_replicate [of 30 ?z 32 256 "[]"] by (simp del: replicate.simps)
  then show "cdf_channel 32 (replicate 256 30) = Ok row_top"
    unfolding cdf_channel_def by (simp add: replicate33 [simplified] cdf_norm_def upt33 [simplified] row_top_def del: upt_Suc replicate.simps)
  have "hist_count 32 ?z (replicate 64 0 @ replicate 192 15) = Ok (?z[1 := 64, 16 := 192])"
    using hist_count_replicate [of 0 ?z 32 64 "replicate 192 15"] hist_count_replicate [of 15 "?z[1 := 64]" 32 192 "[]"] by (simp del: replicate.simps)
  then show "cdf_channel 32 (replicate 64 0 @ replicate 192 15) = Ok row_mixed"
    unfolding cdf_channel_def by (simp add: replicate33 [simplified] cdf_norm_def upt33 [simplified] row_mixed_def del: upt_Suc replicate.simps)
qed

lemma stream_const: "encode_state (map uint row_const) (replicate 16 15) =
    Some \<lparr>e_low = 15671162, e_range = 4261535459, e_pending = 0, e_out = \<lparr>output_reg = 0, output_reg_len = 0, out = []\<rparr>\<rparr>"
  by (simp add: encode_state_def clamp_symbol_def row_const_def encode_eval)

lemma stream_top: "encode_channel (map uint row_top) (replicate 16 30) = Some [0x40]"
proof -
  have "encode_state (map uint row_top) (replicate 16 30) =
      Some \<lparr>e_low = 31342333, e_range = 4261535459, e_pending = 0, e_out = \<lparr>output_reg = 0, output_reg_len = 0, out = []\<rparr>\<rparr>"
    by (simp add: encode_state_def clamp_symbol_def row_top_def encode_eval)
  then show ?thesis
    by (simp add: encode_channel_def rc_finish_def append_bit_and_pending_def add_bits_run_small spill_partial_reg_to_vec_def)
qed

lemma stream_mixed: "encode_channel (map uint row_mixed) (replicate 16 15) = Some [0xFC]"
proof -
  have "encode_state (map uint row_mixed) (replicate 16 15) =
      Some \<lparr>e_low = 2786759386, e_range = 1367217902, e_pending = 0, e_out = \<lparr>output_reg = 31, output_reg_len = 5, out = []\<rparr>\<rparr>"
    by (simp add: encode_state_def clamp_symbol_def row_mixed_def encode_eval)
  then show ?thesis
    by (simp add: encode_channel_def rc_finish_def append_bit_and_pending_def add_bits_run_small spill_partial_reg_to_vec_def)
qed

lemmas decode_eval = decode_channel_def dec_count_def load_u32_be_def BitReader_def next_bit_def dec_renorm.simps dec_shift_def dec_narrow_def Let_def

lemma dec_symbols16:
  "dec_symbols bs cdf 16 d = dec_symbols bs cdf (Suc (Suc (Suc (Suc (Suc (Suc (Suc (Suc (Suc (Suc (Suc (Suc (Suc (Suc (Suc (Suc 0)))))))))))))))) d"
  by (simp add: numeral_eq_Suc)

lemma decoded_mixed: "decode_channel (map uint row_mixed) 16 [0xFC] = Some [15, 15, 15, 15, 15, 15, 15, 15, 15, 15, 15, 15, 15, 15, 0, 15]"
proof -
  have b: "cdf_lo (map uint row_mixed) 15 = 16390" "cdf_hi (map uint row_mixed) 15 = 65519"
    "cdf_lo (map uint row_mixed) 0 = 0" "cdf_hi (map uint row_mixed) 0 = 16376"
    by (simp_all add: cdf_lo_def cdf_hi_def row_mixed_def)
  have s: "binsearch_symbol (map uint row_mixed) x = 15" if "16390 \<le> x" "x < 65519" for x
    using that by (simp add: binsearch_symbol_def binsearch_loop.simps Let_def row_mixed_def)
  have s0: "binsearch_symbol (map uint row_mixed) x = 0" if "0 \<le> x" "x < 16376" for x
    using that by (simp add: binsearch_symbol_def binsearch_loop.simps Let_def row_mixed_def)
  show ?thesis by (simp add: decode_eval dec_symbols16 s s0 b)
qed

lemma decoded_top: "decode_channel (map uint row_top) 16 [0x40] = Some (replicate 16 30)"
proof -
  have b: "cdf_lo (map uint row_top) 30 = 30" "cdf_hi (map uint row_top) 30 = 65534"
    by (simp_all add: cdf_lo_def cdf_hi_def row_top_def)
  have s: "binsearch_symbol (map uint row_top) x = 30" if "30 \<le> x" "x < 65534" for x
    using that by (simp add: binsearch_symbol_def binsearch_loop.simps Let_def row_top_def)
  show ?thesis by (simp add: decode_eval dec_symbols16 s b replicate16)
qed

text \<open>Two channels: the first holds \<open>- 1\<close> in 64 tokens and 0 in the other 192, the second 1 throughout.\<close>

definition lossy_rows :: "u16 list list" where
  "lossy_rows = replicate 64 [0xBC00, 0x3C00] @ replicate 192 [0, 0x3C00]"

lemma lossy_row_codes:
  "quantize_row fused 32 [0xBC00, 0x3C00] = ([0, 30], Fin False 1)" "quantize_row fused 32 [0, 0x3C00] = ([15, 30], Fin False 1)"
  "quantize_row fused 32 [0] = ([15], Fin False 0)"
proof -
  have h: "half_decode 0xBC00 = Fin True (- 1)" "half_decode 0x3C00 = Fin False 1" "half_decode 0 = Fin False 0"
    by (simp_all add: half_decode_def Let_def bit_simps)
  have r: "row_max [Fin True (- 1), Fin False 1] = Fin False 1" "row_max [Fin False 0, Fin False 1] = Fin False 1" "row_max [Fin False 0] = Fin False 0"
    by (simp_all add: row_max_def)
  have d: "to32 (fp_int (c_div 32 2 - 1)) = Fin False 15" "mul32 (Fin False 2) (Fin False 15) = Fin False 30"
    by (simp_all add: c_div_def small_fp)
  have f: "div32 (Fin False 15) (Fin False 1) = Fin False 15" by (simp add: div32_def small_fp)
  have m: "mla32_fp fused (Fin False 15) (Fin True (- 1)) (Fin False 15) = Fin False 0" "mla32_fp fused (Fin False 15) (Fin False 1) (Fin False 15) = Fin False 30"
    "mla32_fp fused (Fin False 15) (Fin False 0) (Fin False c) = Fin False 15" for c
    by (simp_all add: mla32_fp_def fma32_def mul32_def rnd_def max32_def Let_def)
  have a: "round_away 0 = 0" "round_away 15 = 15" "round_away 30 = 30" "trunc 15 = 15" "trunc 30 = 30" "trunc 0 = 0"
    using round_away_of_int [of 0] round_away_of_int [of 15] round_away_of_int [of 30] trunc_of_int [of 15] trunc_of_int [of 30] trunc_of_int [of 0]
    by simp_all
  note s = quantize_row_def Let_def list.map h d r fp_less.simps f m
  show "quantize_row fused 32 [0xBC00, 0x3C00] = ([0, 30], Fin False 1)" "quantize_row fused 32 [0, 0x3C00] = ([15, 30], Fin False 1)"
    "quantize_row fused 32 [0] = ([15], Fin False 0)"
    unfolding s by (simp_all add: m f a quant_clamp_def fp_to_int_def sat_def)
qed

lemma quant_rows_codes: "qr_q (quant_rows rows) = concat (map fst rows)" "qr_max1 (quant_rows rows) = map snd rows"
  by (simp_all add: quant_rows_def)

text \<open>The tables of a layer of one chunk.\<close>

lemma single_meta:
  assumes "0 < C" "length x = TOKENS_PER_CHUNK * C"
    "cdf_calculate_cpu (qr_q (chunk_codes fused C x)) 1 (int TOKENS_PER_CHUNK) (int C) 32 = Ok cdf"
  shows "encode_meta_function_new fused [x] [x] (int TOKENS_PER_CHUNK) (int C) =
    Ok \<lparr>cdf_key = cdf, cdf_value = cdf, max_key = qr_max1 (chunk_codes fused C x), max_value = qr_max1 (chunk_codes fused C x),
      meta_T = int TOKENS_PER_CHUNK, meta_C = int C\<rparr>"
  using single_chunk [OF assms(1,2), of fused] assms(3) by (simp add: encode_meta_function_new_def)

lemma cdf_of_rows:
  assumes "0 < C" "length rows = TOKENS_PER_CHUNK" "\<forall>r\<in>set rows. length r = C" "length ts = C"
    "\<And>c. c < C \<Longrightarrow> cdf_channel 32 (map (\<lambda>r. r ! c) rows) = Ok (ts ! c)"
  shows "cdf_calculate_cpu (concat rows) 1 (int TOKENS_PER_CHUNK) (int C) 32 = Ok \<lparr>cdf_data = concat ts, cdf_C = C, cdf_bins_p1 = 33\<rparr>"
proof -
  have "all_results (map (\<lambda>i. cdf_channel 32 (column C 256 (drop (C * 256 * (i div C)) (concat rows)) (i mod C))) [0..<C]) = Ok (map ((!) ts) [0..<C])"
    by (rule all_results_map) (simp add: column_rows [OF assms(3,2)] assms(5))
  moreover have "map ((!) ts) [0..<C] = ts" using assms(4) by (metis map_nth)
  moreover have "length (concat rows) = 256 * C" using length_concat_eq [of rows C] assms(2,3) by simp
  ultimately show ?thesis using assms(1) by (simp add: cdf_calculate_cpu_def)
qed

lemma zero_codes: "chunk_codes fused 1 (replicate 256 0) = \<lparr>qr_q = concat (replicate 256 [15]), qr_max1 = replicate 256 (Fin False 0)\<rparr>"
proof -
  have "replicate 256 (0 :: u16) = concat (replicate 256 [0])" by (simp add: concat_replicate_single)
  then show ?thesis using chunk_codes_rows [of "replicate 256 [0 :: u16]" 1 fused] by (simp add: quant_rows_def lossy_row_codes)
qed

lemma zero_cdf: "cdf_calculate_cpu (concat (replicate 256 [15])) 1 (int TOKENS_PER_CHUNK) (int 1) 32 = Ok \<lparr>cdf_data = row_const, cdf_C = 1, cdf_bins_p1 = 33\<rparr>"
  using cdf_of_rows [of 1 "replicate 256 [15]" "[row_const]"] row_tables(1) by simp

lemma zero_ends_low:
  assumes "p \<in> set (pieces 1 (concat (replicate 256 [15])))"
  shows "piece_ends_low \<lparr>cdf_data = row_const, cdf_C = 1, cdf_bins_p1 = 33\<rparr> 1 p"
proof -
  obtain i where i: "i < 16" "p = pieces 1 (concat (replicate 256 [15])) ! i"
    using assms unfolding in_set_conv_nth by (auto simp: pieces_def)
  have "16 * i \<le> 240" using i(1) by simp
  then have "take 16 (drop (16 * i) (replicate 256 [15 :: u8])) = replicate 16 [15]" by (simp add: min_def)
  then have "p = concat (replicate 16 [15])" using pieces_rows [of "replicate 256 [15]" 1 i] i by simp
  moreover have "column 1 16 (concat (replicate 16 [15 :: u8])) 0 = replicate 16 15" using column_rows [of "replicate 16 [15 :: u8]" 1 16 0] by simp
  moreover have "cdf_row row_const 33 0 = map uint row_const" by (simp add: cdf_row_def row_const_def)
  ultimately show ?thesis by (simp add: piece_ends_low_def ends_low_def stream_const)
qed

end
