(* ===== verification/Cachegen_Props.thy ===== *)
theory Cachegen_Props
  imports Cachegen_Demo
begin

text \<open>
  Properties of the CACHEGEN codec over a whole layer: a chunk that went through the encoder and the decoder holds the dequantised codes of the
  quantiser whenever every channel of every piece ends in the lower half of the coder's range, and a chunk where a channel does not and a token is lost.
\<close>

definition meta_cdf :: "bool \<Rightarrow> EncoderMeta \<Rightarrow> CdfRaw" where
  "meta_cdf is_key em = (if is_key then cdf_key em else cdf_value em)"

definition meta_max :: "bool \<Rightarrow> EncoderMeta \<Rightarrow> fp list" where
  "meta_max is_key em = (if is_key then max_key em else max_value em)"

text \<open>
  C39. CACHEGEN round trip. For a layer of at most 255 chunks of the size the cache allocates, the tables of
  \<open>encode_meta_function_new\<close> exist; \<open>encode_function_new\<close> of any of its chunks with them returns (the coder's loops end, no length is cut by its
  8-bit or 16-bit field, the stream has at most 592 bytes per channel); and if \<open>low\<close> ends at most at one half in every channel of
  every piece, \<open>decode_function_new\<close> on the stream, the lengths and the sums, with the magnitudes of the layer from the chunk's first token on,
  returns the dequantised codes of the quantiser.
\<close>

theorem cachegen_roundtrip:
  assumes "0 < C" "C \<le> 1771" "0 < n" "n < 256" "length k_chunks = n" "length v_chunks = n"
    "\<forall>x\<in>set (k_chunks @ v_chunks). length x = TOKENS_PER_CHUNK * C" "j < n"
    "x = (if is_key then k_chunks else v_chunks) ! j"
  shows "\<exists>em q bs lens sms.
     encode_meta_function_new fused k_chunks v_chunks (int (TOKENS_PER_CHUNK * n)) (int C) = Ok em \<and>
     quantize_from_bins_raw fused (if is_key then make_key_bins_cpp 1 else make_value_bins_cpp 1) 1 (int TOKENS_PER_CHUNK) (int C) x = Ok q \<and>
     encode_function_new fused x (int C) is_key (meta_cdf is_key em) = Some (Ok (bs, lens, sms)) \<and> length bs \<le> 592 * C \<and>
     ((\<forall>p\<in>set (pieces C (qr_q q)). piece_ends_low (meta_cdf is_key em) C p) \<longrightarrow>
      decode_function_new v bs (int C) lens (meta_cdf is_key em) (drop (TOKENS_PER_CHUNK * j) (meta_max is_key em)) sms =
        Some (Ok (dequantize_cpu_into_new_neon v (qr_q q) (qr_max1 q) TOKENS_PER_CHUNK C 32)))"
proof -
  have shape: "\<forall>x\<in>set k_chunks. length x = TOKENS_PER_CHUNK * C" "\<forall>x\<in>set v_chunks. length x = TOKENS_PER_CHUNK * C"
    using assms(7) by auto
  from layer_tables [OF assms(1,3,4,5) shape(1), of fused]
  obtain qk ck where k: "quantize_from_bins_raw_chunked fused [32] 1 (int (TOKENS_PER_CHUNK * n)) (int C) k_chunks = Ok qk"
    "cdf_calculate_cpu (qr_q qk) 1 (int (TOKENS_PER_CHUNK * n)) (int C) 32 = Ok ck" "cdf_table_ok C ck" "cdf_bins_p1 ck = 33"
    "length (qr_max1 qk) = TOKENS_PER_CHUNK * n"
    "\<And>t. t < TOKENS_PER_CHUNK \<Longrightarrow> qr_max1 qk ! (TOKENS_PER_CHUNK * j + t) = qr_max1 (chunk_codes fused C (k_chunks ! j)) ! t"
    using assms(8) by metis
  from layer_tables [OF assms(1,3,4,6) shape(2), of fused]
  obtain qv cv where v: "quantize_from_bins_raw_chunked fused [32] 1 (int (TOKENS_PER_CHUNK * n)) (int C) v_chunks = Ok qv"
    "cdf_calculate_cpu (qr_q qv) 1 (int (TOKENS_PER_CHUNK * n)) (int C) 32 = Ok cv" "cdf_table_ok C cv" "cdf_bins_p1 cv = 33"
    "length (qr_max1 qv) = TOKENS_PER_CHUNK * n"
    "\<And>t. t < TOKENS_PER_CHUNK \<Longrightarrow> qr_max1 qv ! (TOKENS_PER_CHUNK * j + t) = qr_max1 (chunk_codes fused C (v_chunks ! j)) ! t"
    using assms(8) by metis
  let ?em = "\<lparr>cdf_key = ck, cdf_value = cv, max_key = qr_max1 qk, max_value = qr_max1 qv,
    meta_T = int (TOKENS_PER_CHUNK * n), meta_C = int C\<rparr>"
  have em: "encode_meta_function_new fused k_chunks v_chunks (int (TOKENS_PER_CHUNK * n)) (int C) = Ok ?em"
    unfolding encode_meta_function_new_def Let_def using k(1,2) v(1,2) by simp
  have xs: "length x = TOKENS_PER_CHUNK * C" using assms(5,6,8,9) shape by simp
  have "TOKENS_PER_CHUNK * j + TOKENS_PER_CHUNK \<le> TOKENS_PER_CHUNK * n" using assms(8) by simp
  then have m1: "TOKENS_PER_CHUNK \<le> length (drop (TOKENS_PER_CHUNK * j) (meta_max is_key ?em))"
    using k(5) v(5) by (simp add: meta_max_def)
  have m2: "drop (TOKENS_PER_CHUNK * j) (meta_max is_key ?em) ! t = qr_max1 (chunk_codes fused C x) ! t" if "t < TOKENS_PER_CHUNK" for t
    using k(5,6) v(5,6) assms(8,9) that by (simp add: meta_max_def)
  have c: "cdf_table_ok C (meta_cdf is_key ?em)" "cdf_bins_p1 (meta_cdf is_key ?em) = 33" using k v by (simp_all add: meta_cdf_def)
  have q: "quantize_from_bins_raw fused (if is_key then make_key_bins_cpp 1 else make_value_bins_cpp 1) 1 (int TOKENS_PER_CHUNK) (int C) x =
      Ok (chunk_codes fused C x)" using chunk_quantized(1) [OF xs assms(1), of fused] by simp
  from chunk_coded [OF assms(1,2) xs c m1 m2, of is_key v] show ?thesis using em q by blast
qed

theorem cachegen_roundtrip_witness:
  "\<exists>em bs lens sms. encode_meta_function_new False [replicate 256 0] [replicate 256 0] 256 1 = Ok em \<and>
     encode_function_new False (replicate 256 0) 1 True (meta_cdf True em) = Some (Ok (bs, lens, sms)) \<and>
     decode_function_new True bs 1 lens (meta_cdf True em) (meta_max True em) sms =
       Some (Ok (dequantize_cpu_into_new_neon True (concat (replicate 256 [15])) (replicate 256 (Fin False 0)) 256 1 32))"
proof -
  let ?x = "replicate 256 0 :: u16 list"
  let ?cdf = "\<lparr>cdf_data = row_const, cdf_C = 1, cdf_bins_p1 = 33\<rparr>"
  obtain em q bs lens sms where t:
    "encode_meta_function_new False [?x] [?x] (int (TOKENS_PER_CHUNK * 1)) (int 1) = Ok em"
    "quantize_from_bins_raw False (if True then make_key_bins_cpp 1 else make_value_bins_cpp 1) 1 (int TOKENS_PER_CHUNK) (int 1) ?x = Ok q"
    "encode_function_new False ?x (int 1) True (meta_cdf True em) = Some (Ok (bs, lens, sms))"
    "(\<forall>p\<in>set (pieces 1 (qr_q q)). piece_ends_low (meta_cdf True em) 1 p) \<longrightarrow>
      decode_function_new True bs (int 1) lens (meta_cdf True em) (drop (TOKENS_PER_CHUNK * 0) (meta_max True em)) sms =
        Some (Ok (dequantize_cpu_into_new_neon True (qr_q q) (qr_max1 q) TOKENS_PER_CHUNK 1 32))"
    by (rule exE [OF cachegen_roundtrip [of 1 1 "[?x]" "[?x]" 0 ?x True False True]]) (simp_all, blast)
  have q: "q = \<lparr>qr_q = concat (replicate 256 [15]), qr_max1 = replicate 256 (Fin False 0)\<rparr>"
    using t(2) chunk_quantized(1) [of ?x 1 False] zero_codes [of False] by simp
  have "meta_cdf True em = ?cdf" using t(1) single_meta [of 1 ?x False ?cdf] zero_cdf zero_codes [of False] by (auto simp: meta_cdf_def)
  then have "\<forall>p\<in>set (pieces 1 (qr_q q)). piece_ends_low (meta_cdf True em) 1 p" using zero_ends_low q by simp
  with t q show ?thesis by auto
qed

text \<open>
  C40. The encoder's termination loses a token. It ends a channel with the bit 1 whenever \<open>low\<close> is at least a quarter, which stands for one half, and the
  decoder reads zeros after the stream. When \<open>low\<close> ends above one half the code lies below the last interval: for a layer of one chunk
  with two channels, the first \<open>- 1\<close> in 64 tokens and 0 in the others, the second 1, the piece of the tokens 64 to 79 is encoded without an
  error, and the decoder returns the code 0 (the value \<open>- 1\<close>) for its token 14, whose code is 15 (the value 0).
\<close>

theorem cachegen_token_lost:
  "\<exists>em q bs lens p'.
     encode_meta_function_new fused [concat lossy_rows] [concat lossy_rows] 256 2 = Ok em \<and>
     quantize_from_bins_raw fused (make_key_bins_cpp 1) 1 256 2 (concat lossy_rows) = Ok q \<and>
     encode_ntokens_cpu_new_range (cdf_data (cdf_key em)) 2 (int (cdf_bins_p1 (cdf_key em))) (pieces 2 (qr_q q) ! 4) 16 = Some (Ok (bs, lens)) \<and>
     decode_ntokens_cpu_new_range (cdf_data (cdf_key em)) 2 (int (cdf_bins_p1 (cdf_key em))) bs lens = Some (Ok p') \<and>
     pieces 2 (qr_q q) ! 4 ! (14 * 2) = 15 \<and> p' ! (14 * 2) = 0"
proof -
  let ?codes = "replicate 64 [0, 30] @ replicate 192 [15, 30] :: u8 list list"
  let ?cdf = "\<lparr>cdf_data = row_mixed @ row_top, cdf_C = 2, cdf_bins_p1 = 33\<rparr>"
  let ?p = "concat (replicate 16 [15, 30]) :: bytes"
  have rows: "\<forall>r\<in>set lossy_rows. length r = 2" "length lossy_rows = 256" by (auto simp: lossy_rows_def)
  have len: "length (concat lossy_rows) = 256 * 2" using length_concat_eq [of lossy_rows 2] rows by simp
  have q: "qr_q (chunk_codes fused 2 (concat lossy_rows)) = concat ?codes"
    using chunk_codes_rows [OF rows] by (simp add: lossy_rows_def quant_rows_codes lossy_row_codes)
  have cols: "map (\<lambda>r. r ! 0) ?codes = replicate 64 0 @ replicate 192 15" "map (\<lambda>r. r ! 1) ?codes = replicate 256 30"
    by (simp_all add: replicate_add [symmetric])
  have "cdf_channel 32 (map (\<lambda>r. r ! c) ?codes) = Ok ([row_mixed, row_top] ! c)" if "c < 2" for c
    using that row_tables(2,3) cols by (cases "c = 0") (auto simp: less_2_cases_iff simp del: map_append map_replicate)
  then have cdf: "cdf_calculate_cpu (concat ?codes) 1 (int TOKENS_PER_CHUNK) (int 2) 32 = Ok ?cdf"
    using cdf_of_rows [of 2 ?codes "[row_mixed, row_top]"] by (auto simp del: map_append map_replicate)
  note em = single_meta [of 2 "concat lossy_rows" fused ?cdf, OF _ len, unfolded q, OF _ cdf]
  have p: "pieces 2 (concat ?codes) ! 4 = ?p" using pieces_rows [of ?codes 2 4] by auto
  have col: "column 2 16 ?p 0 = replicate 16 15" "column 2 16 ?p (Suc 0) = replicate 16 30"
    using column_rows [of "replicate 16 [15 :: u8, 30]" 2 16 0] column_rows [of "replicate 16 [15 :: u8, 30]" 2 16 1] by simp_all
  have lens: "length row_mixed = 33" "length row_top = 33" by (simp_all add: row_mixed_def row_top_def)
  have r: "cdf_row (row_mixed @ row_top) 33 0 = map uint row_mixed" "cdf_row (row_mixed @ row_top) 33 (Suc 0) = map uint row_top"
    by (simp_all add: cdf_row_def lens)
  have l: "length ?p = 32" using length_concat_eq [of "replicate 16 [15 :: u8, 30]" 2] by simp
  have u: "[0..<2] = [0, Suc 0]" by (simp add: numeral_2_eq_2)
  have e: "encode_ntokens_cpu_new_range (row_mixed @ row_top) 2 33 ?p 16 = Some (Ok ([0xFC, 0x40], [1, 1]))"
    using stream_mixed stream_top by (simp add: encode_ntokens_cpu_new_range_def lens l u r col)
  let ?out = "map (\<lambda>i. of_nat ([[15, 15, 15, 15, 15, 15, 15, 15, 15, 15, 15, 15, 15, 15, 0, 15], replicate 16 30] ! (i mod 2) ! (i div 2))) [0..<32] :: bytes"
  have d: "decode_ntokens_cpu_new_range (row_mixed @ row_top) 2 33 [0xFC, 0x40] [1, 1] = Some (Ok ?out)"
    using decoded_mixed decoded_top by (simp add: decode_ntokens_cpu_new_range_def lens u r)
  have at28: "?p ! 28 = 15" "?out ! 28 = 0" by (simp_all add: replicate16)
  show ?thesis using em chunk_quantized(1) [OF len, of fused] p e d at28 by (auto simp: q)
qed

end
