(* ===== verification/Spec2Isabelle.thy ===== *)
theory Spec2Isabelle
  imports Kv_Cache_Props Component_Props Lifecycle_Props Cachegen_Props
begin

text \<open>
  \<^bold>\<open>mzcache\<close> keeps the KV cache and the weights of a language model small while an app is in the background and brings
  them back while the first token is computed. This development models its engine and proves what makes it correct.

  \<^bold>\<open>The program.\<close> \<open>mzcache_core\<close> (\<open>mzcache/src/mzcache_core.cpp\<close>) owns a KV state, the weights, a thread pool and one
  \<open>LayerSync\<close> per layer. \<open>swapout\<close> climbs a ladder until the resident share is below a target: compress or store chunks of
  256 tokens, then unload weight layers together with more chunks, then offload whole arenas of compressed data.
  \<open>swapin_generate\<close> enqueues a task per chunk and layer; workers allocate, read, decompress and publish chunks in any order,
  while the caller decodes layer by layer behind the layer syncs; \<open>finish_swapin_cycle\<close> resets the ladder.

  \<^bold>\<open>Theories and sources.\<close>
  \<^item> \<open>Mz_Prelude\<close>, \<open>Slices\<close>, \<open>Mz_Float\<close>, \<open>Half\<close>: machine integers, results, parts of lists, rounded arithmetic, the bit
    format of \<open>__fp16\<close>. \<open>Mz_Types\<close>: \<open>mzcache_types.h\<close>.
  \<^item> \<open>Kv_Plan\<close>, \<open>Kv_State\<close>, \<open>Kv_Swapout\<close>, \<open>Kv_Swapin\<close>: \<open>mzcache_kv_state.cpp\<close>. One record holds the members of the class, the SVM
    pointer table and memory, the store files and the arena swap files. \<open>Byte_Store\<close> are files under \<open>pread\<close> and \<open>pwrite\<close>,
    \<open>Region\<close> the walk of a cursor through the compress and the store region.
  \<^item> \<open>Thread_Pool\<close>: \<open>mzcache_threadpool.h\<close>. \<open>Layer_Sync\<close>: \<open>LayerSync\<close> of \<open>mzcache_core.h\<close>.
  \<^item> \<open>Weight\<close>: \<open>mzcache_weight.cpp\<close> and \<open>read_weight_layer\<close>, a layer as one block of bytes. \<open>Weight_Ops\<close>: the tensors inside it,
    \<open>mzcache_weight_ops.cpp\<close> with the functions of \<open>ggml-alloc.c\<close> and \<open>ggml-backend.cpp\<close> that allocate and free them.
  \<^item> \<open>Core_State\<close>, \<open>Core\<close>, \<open>Core_Swapout\<close>, \<open>Core_Init\<close>, \<open>Decode_Chunks\<close>: \<open>mzcache_core.cpp\<close>. \<open>Profile\<close>: \<open>mzcache_profile.cpp\<close>, with the
    decimal text of its numbers in \<open>Decimal\<close>.
  \<^item> \<open>Flexgen\<close>: the quantising kernels of \<open>mzcache/kernels/compress.cpp\<close> and \<open>decompress.cpp\<close>, lane by lane.
  \<^item> \<open>Bit_Pack\<close>, \<open>Range_Coder\<close>, \<open>Cachegen\<close>: \<open>mzcache/kernels/cachegen_utils.cpp\<close> with \<open>encode_meta_function_new\<close>, \<open>encode_function_new\<close> and
    \<open>decode_function_new\<close>, the codec of the CACHEGEN build: bit packer and reader, range coder of a channel, quantiser, frequencies, and
    the loops over channels and pieces of 16 tokens.
  \<^item> \<open>Kv_Ops\<close>, \<open>Kv_Growth\<close>: \<open>mzcache_kv_ops.cpp\<close> and \<open>mz_grow_chunks\<close> of \<open>src/llama-kv-cache-unified.cpp\<close>.

  \<^bold>\<open>Abstraction.\<close> \<open>chunk_view\<close> (\<open>Kv_View\<close>) is the content a chunk stands for wherever it lives: in memory, encoded in an arena,
  encoded in a swap file, or in a store file. \<open>kv_inv\<close> is the invariant of the KV state between operations: the two regions
  are split by their cursors, the state of a chunk is the one its region says, its data is where the state says, addresses
  are not shared, arenas hold what the chunks refer to. \<open>core_idle\<close> and \<open>engine_ok\<close> extend it to the core.

  \<^bold>\<open>Interfaces.\<close> \<open>region_walk\<close> (interpreted for both regions), \<open>byte_store\<close> (files), \<open>work_group\<close> (a queue with workers),
  \<open>kv_codec\<close> (what the engine needs of a compression backend: decoding reads only what encoding wrote, restores the length,
  and the encoded pair fits the arena), interpreted for the FlexGen builds in \<open>Flexgen_Codec\<close>;
  \<open>bit_sink\<close> (what the range encoder needs of its output), interpreted for the bit packer.

  \<^bold>\<open>What is shown.\<close> \<open>Kv_Compress_Correct\<close>, \<open>Kv_Store_Correct\<close>, \<open>Kv_Arena_Correct\<close>: every swap-out operation of the KV state keeps the
  invariant and changes content only by compression. \<open>Swapout_Correct\<close>: the ladder ends and does what it reports.
  \<open>Swapin_Machine\<close> is the transition system of the workers: a step lets a worker start a task or finish one whose waits are
  satisfied, and the effect of a task happens when it finishes. \<open>Swapin_Safe\<close>, \<open>Swapin_Live\<close>: no task fails, no deadlock, termination. \<open>Swapin_Begin\<close>, \<open>Swapin_Cycle\<close>,
  \<open>Engine\<close>: the sequential parts and the whole cycle. \<open>Kv_Init\<close>: construction and growth establish the invariant.
  \<open>Flexgen_Correct\<close>, \<open>Flexgen_Quant\<close>: the kernels are independent of the number of threads, keep order, and are exact on
  constant groups. \<open>Cachegen_Correct\<close>, \<open>Cachegen_Props\<close>: the range decoder follows the interval of the encoder, so a piece is decoded to the codes
  it was encoded from if every channel ends in the lower half of the range, and \<open>Cachegen_Demo\<close> holds a chunk where one does not. \<open>Component_Props\<close>: construction, plan, the single swap-out operations, the pool, the weights, the kernels and
  the planner. \<open>Kv_Cache_Props\<close>: saving, restoring and growing the cache. \<open>Lifecycle_Props\<close>: profile, start, exchange of the thread
  pool, chunk-aligned decoding and the dump of a weight layer. The theorems that span components are below.

  \<^bold>\<open>Waits.\<close> A wait of the main thread (a future, a layer sync, an idle pool) is a condition on the state; the workers run
  until it holds. \<open>swapin_terminates\<close> and \<open>swapin_no_deadlock\<close> show that they get there. Loops of the ladder that the code does not
  bound are \<open>partial_function (option)\<close>; \<open>swapout_returns\<close> shows that they return when the files work.

  \<^bold>\<open>Parameters.\<close> \<open>io_env\<close> and \<open>w_env\<close> say which system and driver calls succeed and how many bytes they transfer; the hypotheses
  \<open>io_writes\<close>, \<open>io_reads\<close>, \<open>io_offload\<close>, \<open>io_reload\<close> and \<open>w_io_ok\<close> are that they do what they are asked to.

  \<^bold>\<open>Not modelled.\<close> The variants of the CacheGen coder that the engine does not call (the coders with \<open>low\<close> and \<open>high\<close>, the SIMD
  decoders), and the CACHEGEN build as an instance of \<open>kv_codec\<close>, since its tables are computed per layer and not per chunk; CPU affinity, timing and log output; OpenCL kernels and
  device buffers; the inference engine itself (\<open>llama.cpp\<close>, \<open>ggml\<close>), of which only the hooks above are translated; the command line
  drivers under \<open>examples/\<close> and the baselines.
\<close>

section \<open>Swap-in\<close>

text \<open>
  C1. A swap-in restores everything. From a core at rest, whatever the workers' interleaving, once no task is
  pending \<open>finish_swapin_cycle\<close> returns; the core is at rest again, no weight layer is unloaded, every chunk is in
  memory and has the content it stood for before the swap-in (a compressed chunk the decoded one, a stored chunk
  the bytes of its file).
\<close>

theorem swapin_restores:
  assumes "core_idle cd orig st" "cd = flexgen_codec fused nt b h" "flexgen_fits b h" "kv_hidden_dim (kv st) = h"
    "io_reads env" "io_reload env" "w_io_ok we" "swapin_run env we cd st st2" "pending st2 = {#}"
  shows "\<exists>st'. finish_swapin_cycle (decomp_num_chunks st2) (load_num_chunks st2) st2 = Some st' \<and>
    core_idle cd orig st' \<and> n_cur_unload_layers (wt st') = 0 \<and>
    (\<forall>i j. chunk_ix (kv st) i j \<longrightarrow> states (kv st') i j = Raw \<and> chunk_view cd (kv st') i j = chunk_view cd (kv st) i j)"
  by (rule fx.swapin_cycle [OF assms]) blast

lemma demo_run: "\<exists>st2. swapin_run demo_env demo_we demo_codec demo_swapped_core st2"
  using swapin_begin_ok [OF demo_swapped_idle demo_reads(1) demo_io(3)] by (auto simp: swapin_run_def intro: sw_start)

lemma demo_args: "kv_hidden_dim (kv demo_swapped_core) = 2" "flexgen_fits FLEXGEN 2"
  using demo_swapped_facts(4) demo_kv_facts(6) by (simp_all add: demo_swapped_core_def plan_frame_def flexgen_fits_def)

lemmas demo_swapin = demo_swapped_idle HOL.refl demo_args(2,1) demo_reads(1) demo_io(3) demo_reads(2)

lemma demo_full_run: "\<exists>st2. swapin_run demo_env demo_we demo_codec demo_swapped_core st2 \<and> pending st2 = {#}"
  using demo_run fx.swapin_completes [OF demo_swapin] by blast

theorem swapin_restores_witness:
  "\<exists>st2 st'. swapin_run demo_env demo_we demo_codec demo_swapped_core st2 \<and>
     finish_swapin_cycle (decomp_num_chunks st2) (load_num_chunks st2) st2 = Some st' \<and>
     core_idle demo_codec demo_layer st' \<and> states (kv st') 0 0 = Raw"
proof -
  obtain st2 where r: "swapin_run demo_env demo_we demo_codec demo_swapped_core st2" "pending st2 = {#}"
    using demo_full_run by blast
  moreover have "chunk_ix (kv demo_swapped_core) 0 0"
    using demo_swapped_facts(4) demo_kv_facts(5,7) by (simp add: demo_swapped_core_def plan_frame_def chunk_ix_def)
  ultimately show ?thesis using swapin_restores [OF demo_swapin r] by blast
qed

text \<open>
  C2. No worker fails. In no interleaving of a swap-in does a task read freed memory, index out of bounds, find a
  missing future or throw.
\<close>

theorem swapin_safe:
  assumes "core_idle cd orig st" "cd = flexgen_codec fused nt b h" "flexgen_fits b h" "kv_hidden_dim (kv st) = h"
    "io_reads env" "io_reload env" "w_io_ok we" "swapin_run env we cd st st2"
  shows "\<not> sw_step env we cd st2 (Err e)"
  by (rule fx.swapin_never_fails [OF assms])

theorem swapin_safe_witness:
  "\<exists>st2. swapin_run demo_env demo_we demo_codec demo_swapped_core st2 \<and> \<not> sw_step demo_env demo_we demo_codec st2 (Err OutOfBounds)"
  using demo_run swapin_safe [OF demo_swapin] by blast

text \<open>
  C3. No deadlock. As long as a task is pending some worker can take a step, although read and decompression
  workers block on the futures of their allocations.
\<close>

theorem swapin_no_deadlock:
  assumes "core_idle cd orig st" "cd = flexgen_codec fused nt b h" "flexgen_fits b h" "kv_hidden_dim (kv st) = h"
    "io_reads env" "io_reload env" "w_io_ok we" "swapin_run env we cd st st2" "pending st2 \<noteq> {#}"
  shows "\<exists>st3. sw_step env we cd st2 (Ok st3)"
  by (rule fx.swapin_progress [OF assms])

theorem swapin_no_deadlock_witness:
  "\<exists>st2 st3. swapin_run demo_env demo_we demo_codec demo_swapped_core st2 \<and> sw_step demo_env demo_we demo_codec st2 (Ok st3)"
proof -
  obtain st1 where b: "swapin_begin demo_env demo_swapped_core = Ok st1" "begun demo_swapped_core st1"
    using swapin_begin_ok [OF demo_swapped_idle demo_reads(1) demo_io(3)] by blast
  have "length (comp_taken (kv demo_swapped_core)) \<noteq> 0" using demo_swapped_facts(2) by (simp add: demo_swapped_core_def)
  then have "pending st1 \<noteq> {#}" using b(2) unfolding begun_def Let_def by auto
  moreover have "swapin_run demo_env demo_we demo_codec demo_swapped_core st1"
    using b(1) by (auto simp: swapin_run_def intro: sw_start)
  ultimately show ?thesis using swapin_no_deadlock [OF demo_swapin] by blast
qed

text \<open>
  C4. No run of the workers goes on forever: the step relation is well-founded, for every codec and environment.
\<close>

theorem swapin_terminates: "wfP (\<lambda>st' st. sw_step env we cd st (Ok st'))"
  by (rule sw_terminates)



section \<open>Swap-out\<close>


lemma demo_out_args:
  "demo_codec = flexgen_codec False 2 (backend demo_cfg) (kv_hidden_dim (kv demo_fresh_core))"
  "flexgen_fits (backend demo_cfg) (kv_hidden_dim (kv demo_fresh_core))"
  using demo_kv_facts(6) demo_fits by (simp_all add: demo_fresh_core_def)

lemmas demo_swapout = demo_fresh_ok demo_out_args demo_io(1,2)


text \<open>
  C7. A swap-out changes the content of the cache only by compression. The chunks it takes are the next ones of the
  compress and of the store region, from the last layer down; a chunk it compresses becomes what decoding returns,
  every other chunk, stored ones included, keeps its bytes.
\<close>

theorem swapout_content:
  assumes "engine_ok cd orig cfg st" "cd = flexgen_codec fused nt (backend cfg) (kv_hidden_dim (kv st))"
    "flexgen_fits (backend cfg) (kv_hidden_dim (kv st))" "io_writes env" "io_offload env"
    and "swapout env we cfg cd target st = Some (Ok (st', r))"
  shows "\<exists>xs ys. comp_rest (kv st) = comp_rest (kv st') @ xs \<and> comp_taken (kv st') = xs @ comp_taken (kv st) \<and>
    store_rest (kv st) = store_rest (kv st') @ ys \<and> store_taken (kv st') = ys @ store_taken (kv st) \<and>
    (\<forall>i j. chunk_ix (kv st) i j \<longrightarrow> chunk_view cd (kv st') i j =
       (if (i, j) \<in> set xs then map_option (lossy cd i j) (chunk_view cd (kv st) i j) else chunk_view cd (kv st) i j))"
  by (rule fx.swapout_engine [OF assms(1-5), of we target])
    (use assms(6) in \<open>auto simp: swapout_post_def advanced_def swap_rel_def\<close>)

theorem swapout_content_witness:
  "\<exists>st' r xs. swapout demo_env demo_we demo_cfg demo_codec (1 / 2) demo_fresh_core = Some (Ok (st', r)) \<and>
     comp_rest (kv demo_fresh_core) = comp_rest (kv st') @ xs"
proof -
  obtain st' r where o: "swapout demo_env demo_we demo_cfg demo_codec (1 / 2) demo_fresh_core = Some (Ok (st', r))"
    by (rule fx.swapout_engine [OF demo_swapout])
  from swapout_content [OF demo_swapout o] o show ?thesis by blast
qed

text \<open>
  C8. A swap-out that misses its target has nothing left to swap out: if every weight layer can be unloaded, then the
  reported ratio is at most the target, or all chunks are compressed or stored, all weights unloaded and all arenas offloaded.
\<close>

theorem swapout_exhaustive:
  assumes "engine_ok cd orig cfg st" "cd = flexgen_codec fused nt (backend cfg) (kv_hidden_dim (kv st))"
    "flexgen_fits (backend cfg) (kv_hidden_dim (kv st))" "io_writes env" "io_offload env"
    and "swapout env we cfg cd target st = Some (Ok (st', r))" "unloadable we (wt st)"
  shows "fst r \<le> target \<or> all_out st'"
  by (rule fx.swapout_engine [OF assms(1-5), of we target]) (use assms(6,7) in \<open>auto simp: swapout_post_def\<close>)

theorem swapout_exhaustive_witness:
  "\<exists>st' r. swapout demo_env demo_we demo_cfg demo_codec 0 demo_fresh_core = Some (Ok (st', r)) \<and> (fst r \<le> 0 \<or> all_out st')"
proof -
  obtain st' r where o: "swapout demo_env demo_we demo_cfg demo_codec 0 demo_fresh_core = Some (Ok (st', r))"
    by (rule fx.swapout_engine [OF demo_swapout])
  have "unloadable demo_we (wt demo_fresh_core)" using demo_reads(3) by (simp add: demo_fresh_core_def)
  from swapout_exhaustive [OF demo_swapout o this] o show ?thesis by blast
qed



end
